(* ===== verification/Prelude.thy ===== *)
theory Prelude
  imports Main "HOL-Library.Sublist" "HOL-Library.Multiset"
begin

text \<open>
  The vocabulary the component theories share: Go's error values and the value-or-error results,
  the set of keys a loop has seen, and generic lemmas about lists and maps. A Go function that
  returns a pair of a value and an error is a HOL function into \<open>'a result\<close>. An error made by
  \<^verbatim>\<open>fmt.Errorf\<close> keeps its format string and the formatted arguments apart, so every error
  branch of the code is a distinct value of the model and no formatting is invented; an error
  wrapped with the verb \<^verbatim>\<open>%w\<close> keeps its cause.
\<close>

datatype go_error =
    Errorf string "string list"
  | Wrapf string "string list" go_error

type_synonym 'a result = "go_error + 'a"

text \<open>The root cause of a wrapped error, as \<^verbatim>\<open>errors.Unwrap\<close> iterated would find it.\<close>

fun root_cause :: "go_error \<Rightarrow> go_error" where
  "root_cause (Errorf f as) = Errorf f as"
| "root_cause (Wrapf f as e) = root_cause e"

named_theorems result_splits
declare sum.splits [result_splits] option.splits [result_splits]

section \<open>Keeping the first element of every key\<close>

text \<open>
  Many loops of the program keep a map of the keys they have seen and act on the first element
  of every key only. \<open>first_by\<close> is what such a loop keeps.
\<close>

fun first_by :: "('a \<Rightarrow> 'k) \<Rightarrow> 'k set \<Rightarrow> 'a list \<Rightarrow> 'a list" where
  "first_by key seen [] = []"
| "first_by key seen (x # xs) =
     (if key x \<in> seen then first_by key seen xs
      else x # first_by key (insert (key x) seen) xs)"

lemma first_by_keys:
  "set (map key (first_by key seen xs)) = key ` set xs - seen"
  by (induction xs arbitrary: seen) auto

lemma first_by_distinct: "distinct (map key (first_by key seen xs))"
proof (induction xs arbitrary: seen)
  case (Cons x xs)
  have "key x \<notin> set (map key (first_by key (insert (key x) seen) xs))"
    by (simp only: first_by_keys) simp
  with Cons.IH show ?case by simp
qed simp

lemma first_by_subseq: "subseq (first_by key seen xs) xs"
  by (induction xs arbitrary: seen) (auto intro: subseq_Cons')

lemma first_by_set: "x \<in> set (first_by key seen xs) \<Longrightarrow> x \<in> set xs"
  by (induction xs arbitrary: seen) (auto split: if_splits)

lemma first_by_idem_gen:
  assumes "distinct (map key xs)" and "key ` set xs \<inter> seen = {}"
  shows "first_by key seen xs = xs"
  using assms by (induction xs arbitrary: seen) auto

lemma first_by_idem: "first_by key {} (first_by key {} xs) = first_by key {} xs"
  by (rule first_by_idem_gen) (simp_all only: first_by_distinct, simp)

text \<open>The kept element of a key is the first element of the list that has it.\<close>

lemma first_by_find:
  "k \<notin> seen \<Longrightarrow> find (\<lambda>x. key x = k) (first_by key seen xs) = find (\<lambda>x. key x = k) xs"
proof (induction xs arbitrary: seen)
  case (Cons x xs)
  show ?case
  proof (cases "key x = k")
    case True
    with Cons.prems show ?thesis by simp
  next
    case False
    with Cons.prems Cons.IH [of seen] Cons.IH [of "insert (key x) seen"] show ?thesis by simp
  qed
qed simp

lemma find_distinct_key:
  "distinct (map key ys) \<Longrightarrow> x \<in> set ys \<Longrightarrow> find (\<lambda>y. key y = key x) ys = Some x"
proof (induction ys)
  case (Cons y ys)
  show ?case
  proof (cases "x = y")
    case False
    with Cons.prems have "x \<in> set ys" by simp
    moreover from this Cons.prems(1) have "key y \<noteq> key x" by fastforce
    ultimately show ?thesis using Cons by simp
  qed simp
qed simp

lemma first_by_mem_find:
  assumes "x \<in> set (first_by key seen xs)"
  shows "find (\<lambda>y. key y = key x) xs = Some x"
proof -
  have "key x \<notin> seen" using assms first_by_keys [of key seen xs] by auto
  then show ?thesis
    using find_distinct_key [OF first_by_distinct assms] by (simp add: first_by_find)
qed

section \<open>Maps and lists\<close>

lemma map_of_Some_mem: "map_of xs k = Some v \<Longrightarrow> (k, v) \<in> set xs"
  by (rule map_of_SomeD)

lemma filter_partition_mset:
  assumes "\<And>x. x \<in> set xs \<Longrightarrow> P x \<noteq> Q x"
  shows "mset (filter P xs) + mset (filter Q xs) = mset xs"
  using assms
proof (induction xs)
  case (Cons x xs)
  then have "mset (filter P xs) + mset (filter Q xs) = mset xs" by simp
  moreover have "P x \<noteq> Q x" using Cons.prems by simp
  ultimately show ?case by auto
qed simp

lemma find_Some_iff_mem: "find P xs = Some x \<Longrightarrow> x \<in> set xs \<and> P x"
  by (auto simp: find_Some_iff)

lemma takeWhile_length_less: "x \<in> set xs \<Longrightarrow> \<not> P x \<Longrightarrow> length (takeWhile P xs) < length xs"
  by (induction xs) auto

lemma list_ex_or_filter: "list_ex P xs \<longleftrightarrow> filter P xs \<noteq> []"
  by (induction xs) auto

end
