(* ===== verification/Go_Strings.thy ===== *)
theory Go_Strings
  imports Prelude
begin

text \<open>
  What the program uses of Go's packages \<^verbatim>\<open>strings\<close> and \<^verbatim>\<open>strconv\<close>, on strings of bytes:
  a Go string is a list of \<open>char\<close>, one per byte, and a character of a higher code point is its
  UTF-8 bytes. A separator or a pattern is never empty in the program, and \<open>index_of\<close>,
  \<open>split_on\<close> and \<open>replace_all\<close> are the library's functions for such patterns.
\<close>

abbreviation nl :: string where
  "nl \<equiv> [CHR 0x0A]"

section \<open>Searching, splitting and replacing\<close>

text \<open>\<^verbatim>\<open>strings.HasPrefix\<close>, \<^verbatim>\<open>strings.HasSuffix\<close> and \<^verbatim>\<open>strings.Index\<close> (None for -1).\<close>

definition has_prefix :: "string \<Rightarrow> string \<Rightarrow> bool" where
  "has_prefix s p \<longleftrightarrow> prefix p s"

definition has_suffix :: "string \<Rightarrow> string \<Rightarrow> bool" where
  "has_suffix s p \<longleftrightarrow> suffix p s"

fun index_of :: "string \<Rightarrow> string \<Rightarrow> nat option" where
  "index_of [] sub = (if sub = [] then Some 0 else None)"
| "index_of (c # cs) sub =
     (if prefix sub (c # cs) then Some 0 else map_option Suc (index_of cs sub))"

definition contains :: "string \<Rightarrow> string \<Rightarrow> bool" where
  "contains s sub \<longleftrightarrow> index_of s sub \<noteq> None"

lemma index_of_prefix: "prefix sub s \<Longrightarrow> index_of s sub = Some 0"
  by (cases s) auto

lemma index_of_SomeD: "index_of s sub = Some i \<Longrightarrow> s = take i s @ sub @ drop (i + length sub) s"
proof (induction s arbitrary: i)
  case Nil
  then show ?case by (simp split: if_splits)
next
  case (Cons c cs)
  show ?case
  proof (cases "prefix sub (c # cs)")
    case True
    with Cons.prems show ?thesis by (auto simp: prefix_def)
  next
    case False
    with Cons.prems obtain j where "index_of cs sub = Some j" and "i = Suc j" by auto
    with Cons.IH [of j] show ?thesis by simp
  qed
qed

lemma index_of_bound: "index_of s sub = Some i \<Longrightarrow> i + length sub \<le> length s"
proof (induction s arbitrary: i)
  case (Cons c cs)
  then show ?case
    by (fastforce dest: prefix_length_le split: if_splits)
qed (simp split: if_splits)

lemma index_of_None_iff: "index_of s sub = None \<longleftrightarrow> \<not> sublist sub s"
proof (induction s)
  case (Cons c cs)
  then show ?case by (auto simp: sublist_Cons_right)
qed auto

lemma contains_iff: "contains s sub \<longleftrightarrow> sublist sub s"
  by (auto simp: contains_def index_of_None_iff)

lemma index_of_prefix_at: "index_of s sub = Some i \<Longrightarrow> prefix sub (drop i s)"
proof (induction s arbitrary: i)
  case (Cons c cs)
  then show ?case by (cases "prefix sub (c # cs)") auto
qed (simp split: if_splits)

text \<open>The index found is the least position at which the pattern occurs.\<close>

lemma index_of_least:
  "index_of s sub = Some i \<Longrightarrow> j < i \<Longrightarrow> \<not> prefix sub (drop j s)"
proof (induction s arbitrary: i j)
  case (Cons c cs)
  then obtain k where "index_of cs sub = Some k" "i = Suc k" "\<not> prefix sub (c # cs)"
    by (auto split: if_splits)
  with Cons show ?case by (cases j) auto
qed (simp split: if_splits)

function replace_all :: "string \<Rightarrow> string \<Rightarrow> string \<Rightarrow> string" where
  "replace_all s old new =
     (if old = [] then s
      else case index_of s old of
        None \<Rightarrow> s
      | Some i \<Rightarrow> take i s @ new @ replace_all (drop (i + length old) s) old new)"
  by pat_completeness auto
termination
  by (relation "measure (\<lambda>(s, old, new). length s)") (auto dest!: index_of_bound simp: neq_Nil_conv)

declare replace_all.simps [simp del]

text \<open>\<^verbatim>\<open>strings.Replace(s, old, new, 1)\<close>.\<close>

definition replace_first :: "string \<Rightarrow> string \<Rightarrow> string \<Rightarrow> string" where
  "replace_first s old new =
     (case index_of s old of
        None \<Rightarrow> s
      | Some i \<Rightarrow> take i s @ new @ drop (i + length old) s)"

function split_on :: "string \<Rightarrow> string \<Rightarrow> string list" where
  "split_on s sep =
     (if sep = [] then [s]
      else case index_of s sep of
        None \<Rightarrow> [s]
      | Some i \<Rightarrow> take i s # split_on (drop (i + length sep) s) sep)"
  by pat_completeness auto
termination
  by (relation "measure (\<lambda>(s, sep). length s)") (auto dest!: index_of_bound simp: neq_Nil_conv)

declare split_on.simps [simp del]

fun join :: "string list \<Rightarrow> string \<Rightarrow> string" where
  "join [] sep = []"
| "join [x] sep = x"
| "join (x # y # ys) sep = x @ sep @ join (y # ys) sep"

lemma split_on_nonempty: "split_on s sep \<noteq> []"
  by (subst split_on.simps) (simp split: option.split)

lemma join_Cons: "xs \<noteq> [] \<Longrightarrow> join (x # xs) sep = x @ sep @ join xs sep"
  by (cases xs) auto

text \<open>Joining what a split gives back restores the string.\<close>

lemma join_split_on: "join (split_on s sep) sep = s"
proof (induction s sep rule: split_on.induct)
  case (1 s sep)
  show ?case
  proof (cases "sep = [] \<or> index_of s sep = None")
    case True
    then show ?thesis by (subst split_on.simps) (auto split: option.split)
  next
    case False
    then obtain i where i: "index_of s sep = Some i" and "sep \<noteq> []" by auto
    with "1.IH" have "join (split_on (drop (i + length sep) s) sep) sep = drop (i + length sep) s"
      by blast
    with i \<open>sep \<noteq> []\<close> have "join (split_on s sep) sep = take i s @ sep @ drop (i + length sep) s"
      by (subst split_on.simps) (simp add: join_Cons split_on_nonempty)
    with index_of_SomeD [OF i] show ?thesis by simp
  qed
qed

lemma replace_all_absent: "\<not> sublist old s \<Longrightarrow> replace_all s old new = s"
  by (subst replace_all.simps) (simp add: index_of_None_iff [symmetric])

lemma replace_all_at:
  assumes "index_of (a @ old @ b) old = Some (length a)" and "old \<noteq> []"
  shows "replace_all (a @ old @ b) old new = a @ new @ replace_all b old new"
  using assms by (subst replace_all.simps) simp

text \<open>
  A pattern whose first character does not occur again in it has no overlap with itself, so in
  \<open>a @ p @ b\<close> it is first found at the end of \<open>a\<close> when it does not occur in \<open>a\<close>.
\<close>

definition head_unique :: "string \<Rightarrow> bool" where
  "head_unique p \<longleftrightarrow> p \<noteq> [] \<and> hd p \<notin> set (tl p)"

lemma index_of_append_head_unique:
  assumes "head_unique p" and "\<not> sublist p a"
  shows "index_of (a @ p @ b) p = Some (length a)"
  using assms(2)
proof (induction a)
  case Nil
  have "prefix p (p @ b)" by simp
  then show ?case by (simp add: index_of_prefix)
next
  case (Cons c a)
  obtain h t where p: "p = h # t" "h \<notin> set t" using assms(1) by (cases p) (auto simp: head_unique_def)
  have "\<not> prefix p (c # a @ p @ b)"
  proof
    assume pre: "prefix p (c # a @ p @ b)"
    have "\<not> prefix p (c # a)" using Cons.prems prefix_imp_sublist by blast
    with pre have "prefix (c # a) p" and "c # a \<noteq> p"
      using prefix_same_cases [of p "c # a @ p @ b" "c # a"] by auto
    then obtain r where r: "p = c # a @ r" "r \<noteq> []" by (auto simp: prefix_def)
    with pre have "prefix r (p @ b)" by (simp add: prefix_def)
    with r(2) p(1) have "hd r = h" by (cases r) auto
    with r p show False by (cases r) auto
  qed
  moreover have "index_of (a @ p @ b) p = Some (length a)"
    using Cons by (simp add: sublist_Cons_right)
  ultimately show ?case by simp
qed

lemma replace_all_once:
  assumes "head_unique p" and "\<not> sublist p a"
  shows "replace_all (a @ p @ b) p new = a @ new @ replace_all b p new"
  using assms by (intro replace_all_at index_of_append_head_unique) (auto simp: head_unique_def)

section \<open>Trimming and fields\<close>

text \<open>Splitting at a separator of one byte.\<close>

lemma split_on_char_append:
  "split_on (p @ [c] @ r) [c] = split_on p [c] @ split_on r [c]"
proof (induction p "[c]" rule: split_on.induct)
  case (1 p)
  have hu: "head_unique [c]" by (simp add: head_unique_def)
  show ?case
  proof (cases "index_of p [c]")
    case None
    then have "index_of (p @ [c] @ r) [c] = Some (length p)"
      using index_of_append_head_unique [OF hu] by (simp add: index_of_None_iff)
    with None show ?thesis
      by (simp add: split_on.simps [of p] split_on.simps [of "p @ c # r"])
  next
    case (Some i)
    then obtain a b where p: "p = a @ [c] @ b" and i: "i = length a"
      using index_of_SomeD [OF Some] index_of_bound [OF Some]
      by (metis append_take_drop_id length_take min.absorb2 add_leD1)
    have na: "\<not> sublist [c] a"
    proof
      assume "sublist [c] a"
      then obtain x y where a: "a = x @ [c] @ y" unfolding sublist_def by blast
      then have "length x < i" and "prefix [c] (drop (length x) p)" using i p by simp_all
      with index_of_least [OF Some] show False by blast
    qed
    have f: "index_of (a @ [c] @ (b @ [c] @ r)) [c] = Some (length a)"
      by (rule index_of_append_head_unique [OF hu na])
    have "drop (i + 1) p = b" using p i by simp
    with "1" [OF _ Some] have "split_on (b @ [c] @ r) [c] = split_on b [c] @ split_on r [c]"
      by simp
    with f Some p i show ?thesis
      by (simp add: split_on.simps [of p] split_on.simps [of "a @ c # b @ c # r"]
          split_on.simps [of "a @ c # b"])
  qed
qed

lemma split_on_char_free: "c \<notin> set p \<Longrightarrow> split_on p [c] = [p]"
  using index_of_None_iff [of p "[c]"] by (subst split_on.simps) (auto simp: sublist_def)

lemma split_on_join_char:
  "ps \<noteq> [] \<Longrightarrow> \<forall>p \<in> set ps. c \<notin> set p \<Longrightarrow> split_on (join ps [c]) [c] = ps"
proof (induction ps)
  case (Cons p ps)
  show ?case
  proof (cases "ps = []")
    case True
    with Cons.prems show ?thesis by (simp add: split_on_char_free)
  next
    case False
    then have "split_on (p @ [c] @ join ps [c]) [c] = split_on p [c] @ split_on (join ps [c]) [c]"
      by (intro split_on_char_append)
    with False Cons show ?thesis by (simp add: join_Cons split_on_char_free)
  qed
qed simp

lemma split_on_char_parts: "p \<in> set (split_on s [c]) \<Longrightarrow> c \<notin> set p"
proof (induction s "[c]" rule: split_on.induct)
  case (1 s)
  show ?case
  proof (cases "index_of s [c]")
    case None
    with "1.prems" show ?thesis
      by (simp add: split_on.simps [of s] index_of_None_iff sublist_def) (metis split_list)
  next
    case (Some i)
    have "c \<notin> set (take i s)"
    proof
      assume "c \<in> set (take i s)"
      then obtain j where "j < i" "j < length s" "s ! j = c" by (auto simp: in_set_conv_nth)
      then have "prefix [c] (drop j s)" by (simp add: prefix_def Cons_nth_drop_Suc [symmetric])
      with index_of_least [OF Some] \<open>j < i\<close> show False by blast
    qed
    with Some "1.prems" "1.hyps" show ?thesis by (auto simp: split_on.simps [of s])
  qed
qed

text \<open>
  \<^verbatim>\<open>strings.TrimLeft\<close> and \<^verbatim>\<open>strings.TrimRight\<close> with an ASCII cutset.
\<close>

definition trim_left :: "string \<Rightarrow> string \<Rightarrow> string" where
  "trim_left s cutset = dropWhile (\<lambda>c. c \<in> set cutset) s"

definition trim_right :: "string \<Rightarrow> string \<Rightarrow> string" where
  "trim_right s cutset = rev (dropWhile (\<lambda>c. c \<in> set cutset) (rev s))"

lemma trim_right_nonempty: "c \<in> set s \<Longrightarrow> c \<notin> set cutset \<Longrightarrow> trim_right s cutset \<noteq> []"
  by (auto simp: trim_right_def dropWhile_eq_Nil_conv)

text \<open>
  The white space characters of \<^verbatim>\<open>unicode.IsSpace\<close>, each as its UTF-8 bytes: tab, newline,
  vertical tab, form feed, carriage return, space, U+0085, U+00A0, U+1680, U+2000 to U+200A,
  U+2028, U+2029, U+202F, U+205F and U+3000. A lead byte is never a continuation byte, so a
  string starts (or ends) with such a character exactly when its bytes do.
\<close>

definition space_runes :: "string list" where
  "space_runes =
     [[CHR 0x09], [CHR 0x0A], [CHR 0x0B], [CHR 0x0C], [CHR 0x0D], [CHR 0x20],
      [CHR 0xC2, CHR 0x85], [CHR 0xC2, CHR 0xA0], [CHR 0xE1, CHR 0x9A, CHR 0x80],
      [CHR 0xE2, CHR 0x80, CHR 0x80], [CHR 0xE2, CHR 0x80, CHR 0x81],
      [CHR 0xE2, CHR 0x80, CHR 0x82], [CHR 0xE2, CHR 0x80, CHR 0x83],
      [CHR 0xE2, CHR 0x80, CHR 0x84], [CHR 0xE2, CHR 0x80, CHR 0x85],
      [CHR 0xE2, CHR 0x80, CHR 0x86], [CHR 0xE2, CHR 0x80, CHR 0x87],
      [CHR 0xE2, CHR 0x80, CHR 0x88], [CHR 0xE2, CHR 0x80, CHR 0x89],
      [CHR 0xE2, CHR 0x80, CHR 0x8A], [CHR 0xE2, CHR 0x80, CHR 0xA8],
      [CHR 0xE2, CHR 0x80, CHR 0xA9], [CHR 0xE2, CHR 0x80, CHR 0xAF],
      [CHR 0xE2, CHR 0x81, CHR 0x9F], [CHR 0xE3, CHR 0x80, CHR 0x80]]"

text \<open>The rune of \<open>rs\<close> a string starts with, and dropping all of them at the front.\<close>

definition rune_at :: "string list \<Rightarrow> string \<Rightarrow> string option" where
  "rune_at rs s = find (\<lambda>r. r \<noteq> [] \<and> prefix r s) rs"

lemma rune_at_SomeD: "rune_at rs s = Some r \<Longrightarrow> r \<noteq> [] \<and> prefix r s \<and> r \<in> set rs"
  by (auto simp: rune_at_def dest: find_Some_iff_mem)

lemma rune_at_Nil [simp]: "rune_at rs [] = None"
  by (auto simp: rune_at_def find_None_iff)

function drop_runes :: "string list \<Rightarrow> string \<Rightarrow> string" where
  "drop_runes rs s =
     (case rune_at rs s of None \<Rightarrow> s | Some r \<Rightarrow> drop_runes rs (drop (length r) s))"
  by pat_completeness auto
termination
  by (relation "measure (\<lambda>(rs, s). length s)")
    (auto dest!: rune_at_SomeD dest: prefix_length_le intro!: diff_less)

declare drop_runes.simps [simp del]

lemma drop_runes_suffix: "suffix (drop_runes rs s) s"
proof (induction rs s rule: drop_runes.induct)
  case (1 rs s)
  show ?case
  proof (cases "rune_at rs s")
    case (Some r)
    with 1 have "suffix (drop_runes rs (drop (length r) s)) (drop (length r) s)" by blast
    then show ?thesis using Some
      by (subst drop_runes.simps) (auto intro: suffix_order.trans suffix_drop)
  qed (subst drop_runes.simps, simp)
qed

lemma drop_runes_length: "length (drop_runes rs s) \<le> length s"
  by (rule suffix_length_le [OF drop_runes_suffix])

lemma rune_at_drop_runes: "rune_at rs (drop_runes rs s) = None"
proof (induction rs s rule: drop_runes.induct)
  case (1 rs s)
  then show ?case by (cases "rune_at rs s") (simp_all add: drop_runes.simps [of rs s])
qed

lemma drop_runes_id: "rune_at rs s = None \<Longrightarrow> drop_runes rs s = s"
  by (subst drop_runes.simps) simp

text \<open>\<^verbatim>\<open>strings.TrimSpace\<close>: trim on the left, then on the right.\<close>

definition trim_space :: "string \<Rightarrow> string" where
  "trim_space s = rev (drop_runes (map rev space_runes) (rev (drop_runes space_runes s)))"

definition no_outer_space :: "string \<Rightarrow> bool" where
  "no_outer_space s \<longleftrightarrow> rune_at space_runes s = None \<and> rune_at (map rev space_runes) (rev s) = None"

lemma trim_space_id: "no_outer_space s \<Longrightarrow> trim_space s = s"
  by (simp add: trim_space_def no_outer_space_def drop_runes_id)

lemma trim_space_Nil [simp]: "trim_space [] = []"
  by (simp add: trim_space_def drop_runes_id)

lemma trim_space_no_trailing: "rune_at (map rev space_runes) (rev (trim_space s)) = None"
  by (simp add: trim_space_def rune_at_drop_runes)

lemma trim_space_sublist: "sublist (trim_space s) s"
proof -
  have "suffix (drop_runes space_runes s) s" by (rule drop_runes_suffix)
  moreover have "prefix (trim_space s) (drop_runes space_runes s)"
    using drop_runes_suffix [of "map rev space_runes" "rev (drop_runes space_runes s)"]
    by (simp add: trim_space_def suffix_to_prefix)
  ultimately show ?thesis
    unfolding sublist_def suffix_def prefix_def by (metis append_assoc)
qed

lemma trim_space_length: "length (trim_space s) \<le> length s"
  by (rule sublist_length_le [OF trim_space_sublist])

lemma rune_at_None_iff: "rune_at rs s = None \<longleftrightarrow> (\<forall>r \<in> set rs. r \<noteq> [] \<longrightarrow> \<not> prefix r s)"
  by (auto simp: rune_at_def find_None_iff)

lemma no_outer_space_trim: "no_outer_space (trim_space s)"
proof -
  have "prefix (trim_space s) (drop_runes space_runes s)"
    using drop_runes_suffix [of "map rev space_runes" "rev (drop_runes space_runes s)"]
    by (simp add: trim_space_def suffix_to_prefix)
  moreover have "rune_at space_runes (drop_runes space_runes s) = None"
    by (rule rune_at_drop_runes)
  ultimately have "rune_at space_runes (trim_space s) = None"
    unfolding rune_at_None_iff by (meson prefix_order.trans)
  then show ?thesis by (simp add: no_outer_space_def trim_space_no_trailing)
qed

lemma trim_space_idem: "trim_space (trim_space s) = trim_space s"
  by (rule trim_space_id [OF no_outer_space_trim])

text \<open>A byte that is in no white space character keeps both ends of a string clear.\<close>

definition space_bytes :: "char set" where
  "space_bytes = \<Union> (set ` set space_runes)"

lemma no_outer_space_Cons:
  assumes "c \<notin> space_bytes" and "no_outer_space t"
  shows "no_outer_space (c # t)"
proof -
  have "\<not> prefix r (c # t)" if "r \<in> set space_runes" "r \<noteq> []" for r
  proof
    assume "prefix r (c # t)"
    with that(2) have "c \<in> set r" by (cases r) auto
    with that(1) assms(1) show False unfolding space_bytes_def by blast
  qed
  moreover have "\<not> prefix (rev r) (rev t @ [c])" if "r \<in> set space_runes" "r \<noteq> []" for r
  proof
    assume "prefix (rev r) (rev t @ [c])"
    then have "prefix (rev r) (rev t) \<or> rev r = rev t @ [c]" by (auto simp: prefix_snoc)
    moreover have "rev r \<noteq> rev t @ [c]"
    proof
      assume "rev r = rev t @ [c]"
      then have "set (rev r) = set (rev t @ [c])" by (simp only:)
      then have "c \<in> set r" by simp
      with that(1) assms(1) show False unfolding space_bytes_def by blast
    qed
    ultimately have "prefix (rev r) (rev t)" by blast
    with assms(2) that show False by (auto simp: no_outer_space_def rune_at_None_iff)
  qed
  ultimately show ?thesis by (auto simp: no_outer_space_def rune_at_None_iff)
qed

lemma no_outer_space_ends:
  assumes "hd s \<notin> space_bytes" and "last s \<notin> space_bytes"
  shows "no_outer_space s"
proof (cases "s = []")
  case False
  then have "prefix r s \<Longrightarrow> r \<noteq> [] \<Longrightarrow> hd r = hd s" for r by (auto simp: prefix_def)
  moreover have "prefix (rev r) (rev s) \<Longrightarrow> r \<noteq> [] \<Longrightarrow> last r = last s" for r
    by (auto simp: suffix_to_prefix [symmetric] suffix_def)
  moreover have "hd r \<in> space_bytes \<and> last r \<in> space_bytes"
    if "r \<in> set space_runes" "r \<noteq> []" for r
    using that hd_in_set [of r] last_in_set [of r] unfolding space_bytes_def by blast
  ultimately show ?thesis using assms unfolding no_outer_space_def rune_at_None_iff
    by (metis (no_types, lifting) imageE list.set_map rev_is_Nil_conv)
qed (simp add: no_outer_space_def)

lemma space_bytes_eq:
  "space_bytes = {CHR 0x09, CHR 0x0A, CHR 0x0B, CHR 0x0C, CHR 0x0D, CHR 0x20, CHR 0xC2, CHR 0x85,
     CHR 0xA0, CHR 0xE1, CHR 0x9A, CHR 0x80, CHR 0xE2, CHR 0x81, CHR 0x82, CHR 0x83, CHR 0x84,
     CHR 0x86, CHR 0x87, CHR 0x88, CHR 0x89, CHR 0x8A, CHR 0xA8, CHR 0xA9, CHR 0xAF, CHR 0x9F,
     CHR 0xE3}"
  by (simp add: space_bytes_def space_runes_def insert_commute)

text \<open>\<^verbatim>\<open>strings.Fields\<close>: the maximal runs without white space.\<close>

fun word_span :: "string \<Rightarrow> string \<times> string" where
  "word_span [] = ([], [])"
| "word_span (c # cs) =
     (if rune_at space_runes (c # cs) \<noteq> None then ([], c # cs)
      else let (w, r) = word_span cs in (c # w, r))"

lemma word_span_append: "fst (word_span s) @ snd (word_span s) = s"
  by (induction s) (auto simp: case_prod_beta Let_def)

lemma word_span_length: "length (snd (word_span s)) \<le> length s"
  using arg_cong [OF word_span_append [of s], of length] by simp

function str_fields :: "string \<Rightarrow> string list" where
  "str_fields s =
     (case drop_runes space_runes s of
        [] \<Rightarrow> []
      | c # cs \<Rightarrow> (c # fst (word_span cs)) # str_fields (snd (word_span cs)))"
  by pat_completeness auto
termination
proof (relation "measure length")
  fix s :: string and c cs
  assume d: "drop_runes space_runes s = c # cs"
  then show "(snd (word_span cs), s) \<in> measure length"
    using drop_runes_length [of space_runes s] word_span_length [of cs] by simp
qed simp

declare str_fields.simps [simp del]

lemma words_nonempty: "w \<in> set (str_fields s) \<Longrightarrow> w \<noteq> []"
proof (induction s rule: str_fields.induct)
  case (1 s)
  show ?case
  proof (cases "drop_runes space_runes s")
    case Nil
    with "1.prems" show ?thesis by (simp add: str_fields.simps [of s])
  next
    case (Cons c cs)
    with "1.prems" have "w = c # fst (word_span cs) \<or> w \<in> set (str_fields (snd (word_span cs)))"
      by (simp add: str_fields.simps [of s])
    with "1.IH" [OF Cons] show ?thesis by blast
  qed
qed

section \<open>Decimal numbers\<close>

definition is_digit :: "char \<Rightarrow> bool" where
  "is_digit c \<longleftrightarrow> 48 \<le> (of_char c :: nat) \<and> (of_char c :: nat) \<le> 57"

definition digit_val :: "char \<Rightarrow> nat" where
  "digit_val c = of_char c - 48"

definition digit_char :: "nat \<Rightarrow> char" where
  "digit_char d = char_of (48 + d)"

definition digits_val :: "string \<Rightarrow> nat" where
  "digits_val s = foldl (\<lambda>n c. 10 * n + digit_val c) 0 s"

fun show_nat :: "nat \<Rightarrow> string" where
  "show_nat n = (if n < 10 then [digit_char n] else show_nat (n div 10) @ [digit_char (n mod 10)])"

declare show_nat.simps [simp del]

definition itoa :: "int \<Rightarrow> string" where
  "itoa i = (if i < 0 then CHR ''-'' # show_nat (nat (- i)) else show_nat (nat i))"

text \<open>
  \<^verbatim>\<open>strconv.Atoi\<close> on a 64-bit platform: an optional sign, one or more decimal digits, and a
  value in the range of \<^verbatim>\<open>int64\<close>.
\<close>

definition err_syntax :: go_error where
  "err_syntax = Errorf ''invalid syntax'' []"

definition err_range :: go_error where
  "err_range = Errorf ''value out of range'' []"

definition int64_range :: "int \<Rightarrow> bool" where
  "int64_range i \<longleftrightarrow> - (2 ^ 63) \<le> i \<and> i < 2 ^ 63"

definition atoi :: "string \<Rightarrow> int result" where
  "atoi s =
     (let neg = (take 1 s = ''-'');
          ds = (if take 1 s = ''-'' \<or> take 1 s = ''+'' then drop 1 s else s);
          v = (if neg then - int (digits_val ds) else int (digits_val ds))
      in if ds = [] \<or> \<not> list_all is_digit ds then Inl err_syntax
         else if int64_range v then Inr v else Inl err_range)"

lemma is_digit_digit_char: "d < 10 \<Longrightarrow> is_digit (digit_char d)"
  by (simp add: is_digit_def digit_char_def)

lemma digit_val_digit_char: "d < 10 \<Longrightarrow> digit_val (digit_char d) = d"
  by (simp add: digit_val_def digit_char_def)

lemma digits_val_snoc: "digits_val (s @ [c]) = 10 * digits_val s + digit_val c"
  by (simp add: digits_val_def)

lemma show_nat_spec:
  "show_nat n \<noteq> [] \<and> list_all is_digit (show_nat n) \<and> digits_val (show_nat n) = n"
proof (induction n rule: show_nat.induct)
  case (1 n)
  show ?case
  proof (cases "n < 10")
    case True
    then show ?thesis
      by (simp add: show_nat.simps [of n] is_digit_digit_char digits_val_def digit_val_digit_char)
  next
    case False
    with 1 have "list_all is_digit (show_nat (n div 10)) \<and> digits_val (show_nat (n div 10)) = n div 10"
      by simp
    with False show ?thesis
      by (simp add: show_nat.simps [of n] is_digit_digit_char digits_val_snoc digit_val_digit_char)
  qed
qed

lemmas show_nat_nonempty = show_nat_spec [THEN conjunct1]
  and show_nat_digits = show_nat_spec [THEN conjunct2, THEN conjunct1]
  and digits_val_show_nat = show_nat_spec [THEN conjunct2, THEN conjunct2]

lemma digit_not_space: "is_digit c \<Longrightarrow> c \<notin> space_bytes"
  by (auto simp: is_digit_def space_bytes_eq)

lemma digit_not_sign: "is_digit c \<Longrightarrow> c \<noteq> CHR ''-'' \<and> c \<noteq> CHR ''+'' \<and> c \<noteq> CHR ''/''"
  by (auto simp: is_digit_def)

lemma atoi_digits:
  assumes "list_all is_digit s" and "s \<noteq> []"
  shows "atoi s = (if int (digits_val s) < 2 ^ 63 then Inr (int (digits_val s)) else Inl err_range)"
proof -
  from assms obtain c cs where s: "s = c # cs" "is_digit c" by (cases s) auto
  then have "take 1 s \<noteq> ''-''" "take 1 s \<noteq> ''+''" using digit_not_sign by auto
  then show ?thesis using assms by (simp add: atoi_def Let_def int64_range_def)
qed

text \<open>Reading back a printed number of the machine's range gives the number.\<close>

lemma atoi_itoa: "int64_range i \<Longrightarrow> atoi (itoa i) = Inr i"
  using atoi_digits [OF show_nat_digits show_nat_nonempty, of "nat i"]
  by (auto simp: itoa_def digits_val_show_nat int64_range_def)
    (simp add: atoi_def Let_def show_nat_nonempty show_nat_digits digits_val_show_nat int64_range_def)

section \<open>Case\<close>

text \<open>The ASCII part of \<^verbatim>\<open>unicode.ToUpper\<close> and \<^verbatim>\<open>unicode.ToLower\<close>.\<close>

definition to_upper :: "char \<Rightarrow> char" where
  "to_upper c = (let n = (of_char c :: nat) in if 97 \<le> n \<and> n \<le> 122 then char_of (n - 32) else c)"

definition to_lower :: "char \<Rightarrow> char" where
  "to_lower c = (let n = (of_char c :: nat) in if 65 \<le> n \<and> n \<le> 90 then char_of (n + 32) else c)"

end
