(* ===== verification/Go_Flag.thy ===== *)
theory Go_Flag
  imports Go_Strings
begin

text \<open>
  Go's package \<^verbatim>\<open>flag\<close>, as the programs with a command line use it: flags of strings, booleans and integers, parsed from
  the arguments up to the first one that is not a flag. \<^verbatim>\<open>flag.Parse\<close> ends the process on a malformed
  command line, with status 2, or 0 where help is asked for. A value keeps the kind of its flag.
\<close>

datatype flag_value = Text string | Flag bool | Number int

section \<open>Values\<close>

definition parse_bool :: "string \<Rightarrow> bool result" where
  "parse_bool s =
     (if s \<in> {''1'', ''t'', ''T'', ''TRUE'', ''true'', ''True''} then Inr True
      else if s \<in> {''0'', ''f'', ''F'', ''FALSE'', ''false'', ''False''} then Inr False
      else Inl (Errorf ''parse error'' []))"

text \<open>
  \<^verbatim>\<open>strconv.ParseInt\<close> with base 0: a prefix tells the base, and underscores may stand between digits and behind a prefix.
\<close>

definition err_parse :: go_error where "err_parse = Errorf ''parse error'' []"

definition digit_of :: "char \<Rightarrow> nat option" where
  "digit_of c =
     (let n = (of_char (to_lower c) :: nat)
      in if 48 \<le> n \<and> n \<le> 57 then Some (n - 48)
         else if 97 \<le> n \<and> n \<le> 122 then Some (n - 87) else None)"

fun underscore_loop :: "bool \<Rightarrow> char \<Rightarrow> string \<Rightarrow> bool" where
  "underscore_loop hex saw [] = (saw \<noteq> CHR ''_'')"
| "underscore_loop hex saw (c # s) =
     (if is_digit c \<or> hex \<and> to_lower c \<in> set ''abcdef'' then underscore_loop hex (CHR ''0'') s
      else if c = CHR ''_'' then (if saw = CHR ''0'' then underscore_loop hex (CHR ''_'') s else False)
      else if saw = CHR ''_'' then False
      else underscore_loop hex (CHR ''!'') s)"

definition underscore_ok :: "string \<Rightarrow> bool" where
  "underscore_ok s =
     (case s of
        CHR ''0'' # c # r \<Rightarrow>
          if to_lower c \<in> set ''box'' then underscore_loop (to_lower c = CHR ''x'') (CHR ''0'') r
          else underscore_loop False (CHR ''^'') s
      | _ \<Rightarrow> underscore_loop False (CHR ''^'') s)"

text \<open>The digits, the value so far and whether an underscore was seen.\<close>

fun uint_loop :: "nat \<Rightarrow> nat \<Rightarrow> bool \<Rightarrow> string \<Rightarrow> (nat \<times> bool) result" where
  "uint_loop base n us [] = Inr (n, us)"
| "uint_loop base n us (c # s) =
     (if c = CHR ''_'' then uint_loop base n True s
      else case digit_of c of
             None \<Rightarrow> Inl err_parse
           | Some d \<Rightarrow>
               if base \<le> d then Inl err_parse
               else if n * base + d \<ge> 2 ^ 64 then Inl err_range
               else uint_loop base (n * base + d) us s)"

definition base_and_digits :: "string \<Rightarrow> nat \<times> string" where
  "base_and_digits s =
     (case s of
        CHR ''0'' # r \<Rightarrow>
          (case r of
             c # d # r' \<Rightarrow>
               if to_lower c = CHR ''b'' then (2, d # r')
               else if to_lower c = CHR ''o'' then (8, d # r')
               else if to_lower c = CHR ''x'' then (16, d # r')
               else (8, r)
           | _ \<Rightarrow> (8, r))
      | _ \<Rightarrow> (10, s))"

definition parse_uint :: "string \<Rightarrow> nat result" where
  "parse_uint s =
     (if s = [] then Inl err_parse
      else case base_and_digits s of
             (base, ds) \<Rightarrow>
               (case uint_loop base 0 False ds of
                  Inl err \<Rightarrow> Inl err
                | Inr (n, us) \<Rightarrow> if us \<and> \<not> underscore_ok s then Inl err_parse else Inr n))"

definition parse_int :: "string \<Rightarrow> int result" where
  "parse_int s =
     (let neg = (take 1 s = ''-'');
          ds = (if take 1 s = ''-'' \<or> take 1 s = ''+'' then drop 1 s else s)
      in case parse_uint ds of
           Inl err \<Rightarrow> Inl err
         | Inr n \<Rightarrow>
             if \<not> neg \<and> n \<ge> 2 ^ 63 \<or> neg \<and> n > 2 ^ 63 then Inl err_range
             else Inr (if neg then - int n else int n))"

text \<open>\<^verbatim>\<open>Value.Set\<close>: a new value of the kind the flag has.\<close>

fun set_value :: "flag_value \<Rightarrow> string \<Rightarrow> flag_value result" where
  "set_value (Text _) s = Inr (Text s)"
| "set_value (Flag _) s = map_sum id Flag (parse_bool s)"
| "set_value (Number _) s = map_sum id Number (parse_int s)"

section \<open>The command line\<close>

type_synonym flags = "string \<rightharpoonup> flag_value"

datatype flag_error = Usage go_error | Help

text \<open>An argument as a flag: None ends the flags, \<open>--\<close> does so and is consumed; a flag has a name and perhaps a value.\<close>

datatype flag_arg = No_flag | Terminator | Named string "string option" | Malformed

definition name_value :: "string \<Rightarrow> string \<times> string option" where
  "name_value s =
     (let k = takeWhile (\<lambda>c. c \<noteq> CHR ''='') (tl s); r = dropWhile (\<lambda>c. c \<noteq> CHR ''='') (tl s)
      in (hd s # k, case r of [] \<Rightarrow> None | _ # v \<Rightarrow> Some v))"

definition flag_arg_of :: "string \<Rightarrow> flag_arg" where
  "flag_arg_of s =
     (if length s < 2 \<or> hd s \<noteq> CHR ''-'' then No_flag
      else if s = ''--'' then Terminator
      else let name = (if s ! 1 = CHR ''-'' then drop 2 s else drop 1 s)
           in if name = [] \<or> hd name = CHR ''-'' \<or> hd name = CHR ''='' then Malformed
              else case name_value name of (k, v) \<Rightarrow> Named k v)"

definition set_flag :: "flags \<Rightarrow> string \<Rightarrow> flag_value \<Rightarrow> string \<Rightarrow> flag_error + flags" where
  "set_flag m name old v =
     (case set_value old v of
        Inl err \<Rightarrow> Inl (Usage (Wrapf ''invalid value %q for flag -%s: %v'' [v, name] err))
      | Inr new \<Rightarrow> Inr (m(name \<mapsto> new)))"

fun is_flag :: "flag_value \<Rightarrow> bool" where
  "is_flag (Flag _) = True"
| "is_flag _ = False"

fun parse_args :: "flags \<Rightarrow> string list \<Rightarrow> flag_error + flags \<times> string list" where
  "parse_args m [] = Inr (m, [])"
| "parse_args m (s # args) =
     (case flag_arg_of s of
        No_flag \<Rightarrow> Inr (m, s # args)
      | Terminator \<Rightarrow> Inr (m, args)
      | Malformed \<Rightarrow> Inl (Usage (Errorf ''bad flag syntax: %s'' [s]))
      | Named name v \<Rightarrow>
          (case m name of
             None \<Rightarrow> if name \<in> {''help'', ''h''} then Inl Help
                    else Inl (Usage (Errorf ''flag provided but not defined: -%s'' [name]))
           | Some old \<Rightarrow>
               (case v of
                  Some v \<Rightarrow> (case set_flag m name old v of Inl e \<Rightarrow> Inl e | Inr m \<Rightarrow> parse_args m args)
                | None \<Rightarrow>
                    if is_flag old
                    then (case set_flag m name old ''true'' of Inl e \<Rightarrow> Inl e | Inr m \<Rightarrow> parse_args m args)
                    else (case args of
                            [] \<Rightarrow> Inl (Usage (Errorf ''flag needs an argument: -%s'' [name]))
                          | v # args' \<Rightarrow>
                              (case set_flag m name old v of Inl e \<Rightarrow> Inl e | Inr m \<Rightarrow> parse_args m args')))))"

text \<open>The status a malformed command line ends with, and the values of a flag.\<close>

definition usage_status :: "flag_error \<Rightarrow> nat" where
  "usage_status e = (case e of Usage _ \<Rightarrow> 2 | Help \<Rightarrow> 0)"

definition text_flag :: "flags \<Rightarrow> string \<Rightarrow> string" where
  "text_flag m name = (case m name of Some (Text s) \<Rightarrow> s | _ \<Rightarrow> [])"

definition bool_flag :: "flags \<Rightarrow> string \<Rightarrow> bool" where
  "bool_flag m name = (case m name of Some (Flag b) \<Rightarrow> b | _ \<Rightarrow> False)"

definition int_flag :: "flags \<Rightarrow> string \<Rightarrow> int" where
  "int_flag m name = (case m name of Some (Number n) \<Rightarrow> n | _ \<Rightarrow> 0)"

section \<open>Command lines that set flags\<close>

text \<open>A setting written as one argument.\<close>

definition show_value :: "flag_value \<Rightarrow> string" where
  "show_value v = (case v of Text s \<Rightarrow> s | Flag b \<Rightarrow> if b then ''true'' else ''false'' | Number n \<Rightarrow> itoa n)"

definition show_setting :: "string \<times> flag_value \<Rightarrow> string" where
  "show_setting nv = ''--'' @ fst nv @ ''='' @ show_value (snd nv)"

fun same_kind :: "flag_value \<Rightarrow> flag_value \<Rightarrow> bool" where
  "same_kind (Text _) (Text _) = True"
| "same_kind (Flag _) (Flag _) = True"
| "same_kind (Number _) (Number n) = int64_range n"
| "same_kind _ _ = False"

definition flag_name :: "string \<Rightarrow> bool" where
  "flag_name n \<longleftrightarrow> n \<noteq> [] \<and> hd n \<noteq> CHR ''-'' \<and> CHR ''='' \<notin> set n"

lemma flag_arg_setting:
  assumes "flag_name n"
  shows "flag_arg_of (''--'' @ n @ ''='' @ v) = Named n (Some v)"
proof -
  obtain c s where n: "n = c # s" "c \<noteq> CHR ''-''" "c \<noteq> CHR ''=''" "CHR ''='' \<notin> set s"
    using assms by (cases n) (auto simp: flag_name_def)
  then have "\<forall>x \<in> set s. x \<noteq> CHR ''=''" by auto
  then have "takeWhile (\<lambda>c. c \<noteq> CHR ''='') (s @ CHR ''='' # v) = s"
    "dropWhile (\<lambda>c. c \<noteq> CHR ''='') (s @ CHR ''='' # v) = CHR ''='' # v"
    by (simp_all add: takeWhile_append2 dropWhile_append2)
  with n show ?thesis by (simp add: flag_arg_of_def name_value_def)
qed

lemma digit_of_digit: "is_digit c \<Longrightarrow> digit_of c = Some (digit_val c) \<and> digit_val c < 10 \<and> c \<noteq> CHR ''_''"
  by (auto simp: is_digit_def digit_of_def to_lower_def digit_val_def Let_def)

lemma foldl_digits_ge: "n \<le> foldl (\<lambda>n c. 10 * n + digit_val c) n s"
proof (induction s arbitrary: n)
  case (Cons c s)
  have "n \<le> 10 * n + digit_val c" by simp
  also have "\<dots> \<le> foldl (\<lambda>n c. 10 * n + digit_val c) (10 * n + digit_val c) s" by (rule Cons.IH)
  finally show ?case by simp
qed simp

lemma uint_loop_digits:
  assumes "list_all is_digit s" and "foldl (\<lambda>n c. 10 * n + digit_val c) n s < 2 ^ 64"
  shows "uint_loop 10 n us s = Inr (foldl (\<lambda>n c. 10 * n + digit_val c) n s, us)"
  using assms
proof (induction s arbitrary: n)
  case (Cons c s)
  have c: "digit_of c = Some (digit_val c)" "digit_val c < 10" "c \<noteq> CHR ''_''"
    using digit_of_digit [of c] Cons.prems(1) by simp_all
  have "10 * n + digit_val c < 2 ^ 64"
    using Cons.prems(2) foldl_digits_ge [of "10 * n + digit_val c" s] by simp
  with c Cons show ?case by (simp add: mult.commute)
qed simp

text \<open>A printed number starts with a zero only when it is zero.\<close>

lemma show_nat_head: "n \<noteq> 0 \<Longrightarrow> hd (show_nat n) \<noteq> CHR ''0''"
proof (induction n rule: show_nat.induct)
  case (1 n)
  show ?case
  proof (cases "n < 10")
    case True
    then have "n \<in> {1, 2, 3, 4, 5, 6, 7, 8, 9}" using 1(2) by auto
    then have "digit_char n \<noteq> CHR ''0''" by (auto simp: digit_char_def char_of_def)
    with True show ?thesis by (simp add: show_nat.simps [of n])
  next
    case False
    with 1 show ?thesis
      by (subst show_nat.simps) (simp add: hd_append show_nat_nonempty)
  qed
qed

lemma parse_uint_show_nat:
  assumes "n < 2 ^ 64"
  shows "parse_uint (show_nat n) = Inr n"
proof (cases "n = 0")
  case True
  have "digit_char 0 = CHR ''0''" by code_simp
  with True show ?thesis
    by (simp add: show_nat.simps parse_uint_def base_and_digits_def)
next
  case False
  obtain c s where s: "show_nat n = c # s" "c \<noteq> CHR ''0''"
    using show_nat_head [OF False] show_nat_nonempty [of n] by (cases "show_nat n") auto
  then have "base_and_digits (show_nat n) = (10, show_nat n)"
    by (simp add: base_and_digits_def split: char.split bool.split)
  moreover have "uint_loop 10 0 False (show_nat n) = Inr (n, False)"
    using uint_loop_digits [OF show_nat_digits, of 0 n False] digits_val_show_nat [of n] assms
    by (simp add: digits_val_def)
  ultimately show ?thesis by (simp add: parse_uint_def show_nat_nonempty)
qed

lemma parse_int_itoa: "int64_range i \<Longrightarrow> parse_int (itoa i) = Inr i"
proof -
  assume i: "int64_range i"
  show ?thesis
  proof (cases "i < 0")
    case True
    then have "parse_uint (show_nat (nat (- i))) = Inr (nat (- i))"
      using i by (intro parse_uint_show_nat) (simp add: int64_range_def)
    with True i show ?thesis by (simp add: parse_int_def itoa_def int64_range_def)
  next
    case False
    obtain c s where s: "show_nat (nat i) = c # s" "is_digit c"
      using show_nat_nonempty [of "nat i"] show_nat_digits [of "nat i"] by (cases "show_nat (nat i)") auto
    then have "c \<noteq> CHR ''-''" "c \<noteq> CHR ''+''" using digit_not_sign by auto
    moreover have "parse_uint (show_nat (nat i)) = Inr (nat i)"
      using i False by (intro parse_uint_show_nat) (simp add: int64_range_def)
    ultimately show ?thesis using False i s by (simp add: parse_int_def itoa_def int64_range_def)
  qed
qed

lemma set_value_show:
  assumes "same_kind old v"
  shows "set_value old (show_value v) = Inr v"
  using assms
  by (cases old; cases v) (auto simp: show_value_def parse_bool_def parse_int_itoa)

text \<open>Reading back a command line of settings: the last setting of a flag is its value, the rest stays.\<close>

lemma parse_args_settings:
  assumes "\<And>n v. (n, v) \<in> set nvs \<Longrightarrow> flag_name n \<and> (\<exists>old. m n = Some old \<and> same_kind old v)"
    and "rest = [] \<or> flag_arg_of (hd rest) = No_flag"
  shows "parse_args m (map show_setting nvs @ rest) = Inr (m ++ map_of (rev nvs), rest)"
  using assms
proof (induction nvs arbitrary: m)
  case Nil
  then show ?case by (cases rest) simp_all
next
  case (Cons nv nvs)
  obtain n v where nv: "nv = (n, v)" by (cases nv)
  then obtain old where n: "flag_name n" "m n = Some old" "same_kind old v" using Cons.prems(1) by auto
  have kind: "same_kind v w" if "same_kind old w" for w
    using n(3) that by (cases old; cases w; cases v) simp_all
  have "parse_args (m(n \<mapsto> v)) (map show_setting nvs @ rest) = Inr (m(n \<mapsto> v) ++ map_of (rev nvs), rest)"
  proof (rule Cons.IH)
    show "flag_name k \<and> (\<exists>old. (m(n \<mapsto> v)) k = Some old \<and> same_kind old w)" if "(k, w) \<in> set nvs" for k w
    proof -
      have "flag_name k \<and> (\<exists>old. m k = Some old \<and> same_kind old w)"
        by (rule Cons.prems(1)) (use that in simp)
      then obtain o' where o': "flag_name k" "m k = Some o'" "same_kind o' w" by blast
      show ?thesis
      proof (cases "k = n")
        case True
        then have "same_kind v w" using o'(2,3) n(2) kind by simp
        with True o'(1) show ?thesis by simp
      qed (use o' in simp)
    qed
  qed (rule Cons.prems(2))
  moreover have "m(n \<mapsto> v) ++ map_of (rev nvs) = m ++ map_of (rev (nv # nvs))"
  proof -
    have "m(n \<mapsto> v) = m ++ [n \<mapsto> v]" by simp
    then have "m(n \<mapsto> v) ++ map_of (rev nvs) = m ++ ([n \<mapsto> v] ++ map_of (rev nvs))"
      by (simp only: map_add_assoc)
    then show ?thesis by (simp add: nv map_of_append)
  qed
  moreover have "set_flag m n old (show_value v) = Inr (m(n \<mapsto> v))"
    using n(3) by (simp add: set_flag_def set_value_show)
  moreover have "flag_arg_of (show_setting nv) = Named n (Some (show_value v))"
    using flag_arg_setting [OF n(1)] by (simp add: nv show_setting_def)
  ultimately show ?case using n(2) by simp
qed

end
