(* ===== verification/Go_Os.thy ===== *)
theory Go_Os
  imports Go_Strings
begin

text \<open>
  The operating system as the command line tools use it: files that are read and written as a
  whole, environment variables and standard output. A file operation fails where the system
  refuses it (\<open>readable\<close>, \<open>writable\<close> say which paths it serves); what is printed to standard
  error is diagnostics only and is not kept.
\<close>

record os =
  os_files :: "string \<rightharpoonup> string"
  os_readable :: "string \<Rightarrow> bool"
  os_writable :: "string \<Rightarrow> bool"
  os_env :: "string \<rightharpoonup> string"
  os_stdout :: "string list"

definition read_file :: "os \<Rightarrow> string \<Rightarrow> string result" where
  "read_file w path =
     (case os_files w path of
        None \<Rightarrow> Inl (Errorf ''open %s: no such file or directory'' [path])
      | Some d \<Rightarrow> if os_readable w path then Inr d
                  else Inl (Errorf ''open %s: permission denied'' [path]))"

definition write_file :: "os \<Rightarrow> string \<Rightarrow> string \<Rightarrow> os result" where
  "write_file w path d =
     (if os_writable w path then Inr (w\<lparr>os_files := (os_files w)(path \<mapsto> d)\<rparr>)
      else Inl (Errorf ''open %s: permission denied'' [path]))"

definition getenv :: "os \<Rightarrow> string \<Rightarrow> string" where
  "getenv w name = (case os_env w name of None \<Rightarrow> [] | Some v \<Rightarrow> v)"

definition printf :: "os \<Rightarrow> string \<Rightarrow> string list \<Rightarrow> os" where
  "printf w fmt args = w\<lparr>os_stdout := os_stdout w @ (fmt # args)\<rparr>"

section \<open>The file interface\<close>

text \<open>
  What the tools rely on: a successful write is seen by the next read of the same path, and
  changes no other path.
\<close>

locale file_store =
  fixes load :: "'w \<Rightarrow> string \<Rightarrow> string result"
    and store :: "'w \<Rightarrow> string \<Rightarrow> string \<Rightarrow> 'w result"
  assumes read_write: "load w p = Inr d \<Longrightarrow> store w p d' = Inr w' \<Longrightarrow> load w' p = Inr d'"
    and read_other: "store w p d' = Inr w' \<Longrightarrow> q \<noteq> p \<Longrightarrow> load w' q = load w q"
begin

text \<open>A path that could be read stays readable whatever is written.\<close>

lemma read_stays:
  assumes "load w q = Inr d" and "store w p d' = Inr w'"
  shows "\<exists>d''. load w' q = Inr d''"
  using assms by (cases "q = p") (auto simp: read_other dest: read_write)

text \<open>Of two writes to one path the later one is read.\<close>

lemma read_last_write:
  assumes "load w p = Inr d" and "store w p d1 = Inr w1" and "store w1 p d2 = Inr w2"
  shows "load w2 p = Inr d2" and "q \<noteq> p \<Longrightarrow> load w2 q = load w q"
  using assms read_write [OF read_write [OF assms(1,2)] assms(3)] by (auto simp: read_other)

text \<open>A read, a change of the data and a write back: the file holds the changed data.\<close>

lemma read_modify_write:
  assumes "load w p = Inr d" and "store w p (f d) = Inr w'"
  shows "load w' p = Inr (f d) \<and> (\<forall>q. q \<noteq> p \<longrightarrow> load w' q = load w q)"
  using read_write [OF assms] read_other [OF assms(2)] by blast

end

lemma write_file_Inr:
  "write_file w p d = Inr w' \<longleftrightarrow>
   os_writable w p \<and> w' = w\<lparr>os_files := (os_files w)(p \<mapsto> d)\<rparr>"
  by (auto simp: write_file_def)

interpretation osfs: file_store read_file write_file
proof unfold_locales
  fix w w' p d d' assume "read_file w p = Inr d" and "write_file w p d' = Inr w'"
  then show "read_file w' p = Inr d'"
    by (simp add: read_file_def write_file_Inr split: option.splits if_splits)
next
  fix w w' p d' and q :: string assume "write_file w p d' = Inr w'" and "q \<noteq> p"
  then show "read_file w' q = read_file w q" by (simp add: read_file_def write_file_Inr split: option.split)
qed

end
