(* ===== verification/Changelog_Config.thy ===== *)
theory Changelog_Config
  imports Go_Os
begin

text \<open>
  \<^verbatim>\<open>internal/changelog-generator/config.go\<close>: the allowlist and the denylist, and the matching of
  a component name against their patterns. The YAML decoder is a parameter.
\<close>

record Config =
  Allowlist :: "string list"
  Denylist :: "string list"

definition ParseConfig :: "(string \<Rightarrow> Config result) \<Rightarrow> os \<Rightarrow> string \<Rightarrow> Config result" where
  "ParseConfig unmarshal w path =
     (case read_file w path of
        Inl err \<Rightarrow> Inl (Wrapf ''reading config: %w'' [] err)
      | Inr data \<Rightarrow>
          (case unmarshal data of
             Inl err \<Rightarrow> Inl (Wrapf ''parsing config: %w'' [] err)
           | Inr cfg \<Rightarrow> Inr cfg))"

definition matchPattern :: "string \<Rightarrow> string \<Rightarrow> bool" where
  "matchPattern component pattern =
     (if has_suffix pattern ''*'' then
        has_prefix component (take (length pattern - 1) pattern)
      else if component = pattern then True
      else if has_prefix component (pattern @ ''/'') then True
      else False)"

fun MatchesAllowlist :: "string \<Rightarrow> string list \<Rightarrow> bool" where
  "MatchesAllowlist component [] = False"
| "MatchesAllowlist component (pattern # allowlist) =
     (if matchPattern component pattern then True else MatchesAllowlist component allowlist)"

fun MatchesDenylist :: "string \<Rightarrow> string list \<Rightarrow> bool" where
  "MatchesDenylist component [] = False"
| "MatchesDenylist component (pattern # denylist) =
     (if matchPattern component pattern then True else MatchesDenylist component denylist)"

section \<open>Pattern lists\<close>

text \<open>
  Both lists promise the same: a component is matched by a list when one of its patterns
  matches it. The filter relies on this interface only.
\<close>

locale pattern_list =
  fixes matches :: "string \<Rightarrow> string list \<Rightarrow> bool"
  assumes matches_Nil: "\<not> matches c []"
    and matches_Cons: "matches c (p # ps) \<longleftrightarrow> matchPattern c p \<or> matches c ps"
begin

lemma matches_iff: "matches c ps \<longleftrightarrow> (\<exists>p \<in> set ps. matchPattern c p)"
  by (induction ps) (auto simp: matches_Nil matches_Cons)

lemma matches_append: "matches c (ps @ qs) \<longleftrightarrow> matches c ps \<or> matches c qs"
  by (auto simp: matches_iff)

lemma matches_mono: "set ps \<subseteq> set qs \<Longrightarrow> matches c ps \<Longrightarrow> matches c qs"
  by (auto simp: matches_iff)

end

interpretation allow: pattern_list MatchesAllowlist
  by unfold_locales auto

interpretation deny: pattern_list MatchesDenylist
  by unfold_locales auto

section \<open>Patterns as path prefixes\<close>


lemma join_append:
  "xs \<noteq> [] \<Longrightarrow> ys \<noteq> [] \<Longrightarrow> join (xs @ ys) sep = join xs sep @ sep @ join ys sep"
proof (induction xs)
  case (Cons x xs)
  then show ?case by (cases "xs = []") (simp_all add: join_Cons)
qed simp

text \<open>
  A pattern without the glob star matches a component exactly when its path segments are the
  first path segments of the component.
\<close>

lemma matchPattern_segments_aux:
  "component = pattern \<or> prefix (pattern @ ''/'') component \<longleftrightarrow>
   prefix (split_on pattern ''/'') (split_on component ''/'')"
proof
  assume "component = pattern \<or> prefix (pattern @ ''/'') component"
  then show "prefix (split_on pattern ''/'') (split_on component ''/'')"
  proof
    assume "prefix (pattern @ ''/'') component"
    then obtain r where "component = pattern @ ''/'' @ r" by (auto simp: prefix_def)
    then show ?thesis by (simp only: split_on_char_append [of _ "CHR ''/''"]) simp
  qed simp
next
  assume "prefix (split_on pattern ''/'') (split_on component ''/'')"
  then obtain zs where z: "split_on component ''/'' = split_on pattern ''/'' @ zs"
    by (auto simp: prefix_def)
  have "component = join (split_on pattern ''/'' @ zs) ''/''"
    using join_split_on [of component "''/''"] z by simp
  then show "component = pattern \<or> prefix (pattern @ ''/'') component"
    by (cases "zs = []") (simp_all add: join_append split_on_nonempty join_split_on)
qed

end
