(* ===== verification/Changelog_Entry.thy ===== *)
theory Changelog_Entry
  imports Go_Strings
begin

text \<open>
  \<^verbatim>\<open>internal/changelog-generator/entry.go\<close>: the raw chloggen entry, the processed entry, and the
  step from one to the other. A change type is a string of Go; the five constants are the valid
  ones. Decoding the YAML text is a parameter.
\<close>

type_synonym ChangeType = string

definition Breaking_ct :: ChangeType where "Breaking_ct = ''breaking''"
definition Deprecation_ct :: ChangeType where "Deprecation_ct = ''deprecation''"
definition NewComponent_ct :: ChangeType where "NewComponent_ct = ''new_component''"
definition Enhancement_ct :: ChangeType where "Enhancement_ct = ''enhancement''"
definition BugFix_ct :: ChangeType where "BugFix_ct = ''bug_fix''"

lemmas change_type_defs =
  Breaking_ct_def Deprecation_ct_def NewComponent_ct_def Enhancement_ct_def BugFix_ct_def

definition validChangeTypes :: "ChangeType \<Rightarrow> bool" where
  "validChangeTypes ct \<longleftrightarrow>
     ct \<in> {Breaking_ct, Deprecation_ct, NewComponent_ct, Enhancement_ct, BugFix_ct}"

record ChloggenEntry =
  raw_ChangeType :: string
  raw_Component :: string
  raw_Note :: string
  raw_Issues :: "int list"
  raw_Subtext :: string
  raw_ChangeLogs :: "string list"

record ChangelogEntry =
  Component :: string
  Note :: string
  Issues :: "int list"
  Subtext :: string
  ChangeType :: ChangeType
  Source :: string
  UpstreamVersion :: string
  RepoURL :: string

fun user_log_loop :: "string list \<Rightarrow> bool" where
  "user_log_loop [] = False"
| "user_log_loop (cl # changeLogs) =
     (if trim_space cl = ''user'' then True else user_log_loop changeLogs)"

definition isUserFacing :: "string list \<Rightarrow> bool" where
  "isUserFacing changeLogs = (if length changeLogs = 0 then True else user_log_loop changeLogs)"

definition ParseChloggenEntry ::
    "(string \<Rightarrow> ChloggenEntry result) \<Rightarrow> string \<Rightarrow> string \<Rightarrow> string \<Rightarrow> string \<Rightarrow>
     ChangelogEntry option result" where
  "ParseChloggenEntry unmarshal data source upstreamVersion repoURL =
     (case unmarshal data of
        Inl err \<Rightarrow> Inl (Wrapf ''yaml unmarshal: %w'' [] err)
      | Inr raw \<Rightarrow>
          (let ct = trim_space (raw_ChangeType raw)
           in if \<not> validChangeTypes ct then Inl (Errorf ''unknown change_type %q'' [raw_ChangeType raw])
              else if \<not> isUserFacing (raw_ChangeLogs raw) then Inr None
              else Inr (Some \<lparr>Component = trim_space (raw_Component raw),
                             Note = trim_space (raw_Note raw),
                             Issues = raw_Issues raw,
                             Subtext = trim_space (raw_Subtext raw),
                             ChangeType = ct,
                             Source = source,
                             UpstreamVersion = upstreamVersion,
                             RepoURL = repoURL\<rparr>)))"

lemma isUserFacing_iff: "isUserFacing cls \<longleftrightarrow> cls = [] \<or> (\<exists>cl \<in> set cls. trim_space cl = ''user'')"
proof -
  have "user_log_loop xs \<longleftrightarrow> (\<exists>cl \<in> set xs. trim_space cl = ''user'')" for xs
    by (induction xs) auto
  then show ?thesis by (simp add: isUserFacing_def)
qed

lemma ParseChloggenEntry_Some:
  "ParseChloggenEntry unmarshal data src v url = Inr (Some e) \<longleftrightarrow>
   (\<exists>raw. unmarshal data = Inr raw \<and> validChangeTypes (trim_space (raw_ChangeType raw)) \<and>
      isUserFacing (raw_ChangeLogs raw) \<and>
      e = \<lparr>Component = trim_space (raw_Component raw), Note = trim_space (raw_Note raw),
           Issues = raw_Issues raw, Subtext = trim_space (raw_Subtext raw),
           ChangeType = trim_space (raw_ChangeType raw), Source = src,
           UpstreamVersion = v, RepoURL = url\<rparr>)"
  by (auto simp: ParseChloggenEntry_def Let_def split: sum.splits)

text \<open>What every processed entry satisfies, whatever the file said.\<close>

definition entry_ok :: "string \<Rightarrow> string \<Rightarrow> string \<Rightarrow> ChangelogEntry \<Rightarrow> bool" where
  "entry_ok src v url e \<longleftrightarrow>
     validChangeTypes (ChangeType e) \<and> Source e = src \<and> UpstreamVersion e = v \<and> RepoURL e = url \<and>
     no_outer_space (Component e) \<and> no_outer_space (Note e) \<and> no_outer_space (Subtext e)"

lemma ParseChloggenEntry_ok:
  "ParseChloggenEntry unmarshal data src v url = Inr (Some e) \<Longrightarrow> entry_ok src v url e"
  by (auto simp: ParseChloggenEntry_Some entry_ok_def no_outer_space_trim)

text \<open>
  Parsing a chloggen file has exactly the documented outcomes: it fails when the YAML does not
  decode or the change type (with outer white space ignored) is not one of the five; it skips
  the entry when its change logs are given and none of them is "user"; and otherwise it
  returns an entry with the valid change type, the PR's source, version and repository, and
  component, note and subtext without outer white space.
\<close>

theorem ParseChloggenEntry_outcomes:
  "case ParseChloggenEntry unmarshal data src v url of
     Inl err \<Rightarrow>
       (\<exists>e. unmarshal data = Inl e \<and> err = Wrapf ''yaml unmarshal: %w'' [] e) \<or>
       (\<exists>raw. unmarshal data = Inr raw \<and> \<not> validChangeTypes (trim_space (raw_ChangeType raw)))
   | Inr None \<Rightarrow>
       (\<exists>raw. unmarshal data = Inr raw \<and> validChangeTypes (trim_space (raw_ChangeType raw)) \<and>
          raw_ChangeLogs raw \<noteq> [] \<and> ''user'' \<notin> trim_space ` set (raw_ChangeLogs raw))
   | Inr (Some e) \<Rightarrow>
       entry_ok src v url e \<and>
       (\<exists>raw. unmarshal data = Inr raw \<and> Issues e = raw_Issues raw \<and>
          Component e = trim_space (raw_Component raw) \<and> ChangeType e = trim_space (raw_ChangeType raw))"
proof (cases "unmarshal data")
  case (Inr raw)
  show ?thesis
  proof (cases "ParseChloggenEntry unmarshal data src v url")
    case (Inr r)
    then show ?thesis
      using \<open>unmarshal data = Inr raw\<close> ParseChloggenEntry_ok [of unmarshal data src v url]
      by (auto simp: ParseChloggenEntry_def Let_def isUserFacing_iff split: if_splits)
  qed (use Inr in \<open>auto simp: ParseChloggenEntry_def Let_def split: if_splits\<close>)
qed (simp add: ParseChloggenEntry_def)

end
