(* ===== verification/Changelog_Filter.thy ===== *)
theory Changelog_Filter
  imports Changelog_Config Changelog_Entry
begin

text \<open>
  \<^verbatim>\<open>internal/changelog-generator/filter.go\<close>: which entries are kept, and their grouping by change
  type in the order they arrive. The manifest's component set is a Go map to bool, so a missing
  key reads as false.
\<close>

record FilteredChangelog =
  DistVersion :: string
  UpstreamVersions :: "string list"
  CoreRepoURL :: string
  ContribRepoURL :: string
  Breaking :: "ChangelogEntry list"
  Deprecations :: "ChangelogEntry list"
  NewComponents :: "ChangelogEntry list"
  Enhancements :: "ChangelogEntry list"
  BugFixes :: "ChangelogEntry list"

definition empty_changelog :: FilteredChangelog where
  "empty_changelog =
     \<lparr>DistVersion = [], UpstreamVersions = [], CoreRepoURL = [], ContribRepoURL = [], Breaking = [],
      Deprecations = [], NewComponents = [], Enhancements = [], BugFixes = []\<rparr>"

definition shouldInclude :: "string \<Rightarrow> (string \<rightharpoonup> bool) \<Rightarrow> Config \<Rightarrow> bool" where
  "shouldInclude component manifestComponents cfg =
     (if MatchesDenylist component (Denylist cfg) then False
      else if manifestComponents component = Some True then True
      else if MatchesAllowlist component (Allowlist cfg) then True
      else False)"

text \<open>One iteration of the loop of \<open>FilterEntries\<close>: its state is \<open>fc\<close> and \<open>seenVersions\<close>.\<close>

definition track_version ::
    "FilteredChangelog \<times> string set \<Rightarrow> ChangelogEntry \<Rightarrow> FilteredChangelog \<times> string set" where
  "track_version st e =
     (case st of (fc, seen) \<Rightarrow>
        if UpstreamVersion e \<notin> seen
        then (fc\<lparr>UpstreamVersions := UpstreamVersions fc @ [UpstreamVersion e]\<rparr>,
              insert (UpstreamVersion e) seen)
        else (fc, seen))"

definition track_urls :: "FilteredChangelog \<Rightarrow> ChangelogEntry \<Rightarrow> FilteredChangelog" where
  "track_urls fc e =
     (let fc = (if Source e = ''core'' \<and> CoreRepoURL fc = [] then fc\<lparr>CoreRepoURL := RepoURL e\<rparr> else fc)
      in if Source e = ''contrib'' \<and> ContribRepoURL fc = [] then fc\<lparr>ContribRepoURL := RepoURL e\<rparr>
         else fc)"

definition group_entry :: "FilteredChangelog \<Rightarrow> ChangelogEntry \<Rightarrow> FilteredChangelog" where
  "group_entry fc e =
     (if ChangeType e = Breaking_ct then fc\<lparr>Breaking := Breaking fc @ [e]\<rparr>
      else if ChangeType e = Deprecation_ct then fc\<lparr>Deprecations := Deprecations fc @ [e]\<rparr>
      else if ChangeType e = NewComponent_ct then fc\<lparr>NewComponents := NewComponents fc @ [e]\<rparr>
      else if ChangeType e = Enhancement_ct then fc\<lparr>Enhancements := Enhancements fc @ [e]\<rparr>
      else if ChangeType e = BugFix_ct then fc\<lparr>BugFixes := BugFixes fc @ [e]\<rparr>
      else fc)"

fun filter_loop ::
    "(string \<rightharpoonup> bool) \<Rightarrow> Config \<Rightarrow> FilteredChangelog \<times> string set \<Rightarrow> ChangelogEntry list \<Rightarrow>
     FilteredChangelog" where
  "filter_loop components cfg (fc, seen) [] = fc"
| "filter_loop components cfg (fc, seen) (e # entries) =
     (case track_version (fc, seen) e of (fc, seen) \<Rightarrow>
        let fc = track_urls fc e
        in if \<not> shouldInclude (Component e) components cfg
           then filter_loop components cfg (fc, seen) entries
           else filter_loop components cfg (group_entry fc e, seen) entries)"

definition FilterEntries ::
    "ChangelogEntry list \<Rightarrow> (string \<rightharpoonup> bool) \<Rightarrow> Config \<Rightarrow> FilteredChangelog" where
  "FilterEntries entries components cfg =
     filter_loop components cfg (empty_changelog, {}) entries"

section \<open>The abstract specification\<close>

text \<open>
  What the loop computes, field by field: the versions without repetition, the first
  non-empty repository URL of each source, and for each change type the included entries.
\<close>

definition first_url :: "string \<Rightarrow> ChangelogEntry list \<Rightarrow> string" where
  "first_url src entries =
     (case find (\<lambda>e. Source e = src \<and> RepoURL e \<noteq> []) entries of
        None \<Rightarrow> [] | Some e \<Rightarrow> RepoURL e)"

definition included ::
    "(string \<rightharpoonup> bool) \<Rightarrow> Config \<Rightarrow> ChangeType \<Rightarrow> ChangelogEntry list \<Rightarrow> ChangelogEntry list" where
  "included components cfg ct entries =
     filter (\<lambda>e. ChangeType e = ct \<and> shouldInclude (Component e) components cfg) entries"

definition spec_from ::
    "(string \<rightharpoonup> bool) \<Rightarrow> Config \<Rightarrow> FilteredChangelog \<Rightarrow> string set \<Rightarrow> ChangelogEntry list \<Rightarrow>
     FilteredChangelog" where
  "spec_from components cfg fc seen entries =
     \<lparr>DistVersion = DistVersion fc,
      UpstreamVersions = UpstreamVersions fc @ first_by id seen (map UpstreamVersion entries),
      CoreRepoURL = (if CoreRepoURL fc = [] then first_url ''core'' entries else CoreRepoURL fc),
      ContribRepoURL =
        (if ContribRepoURL fc = [] then first_url ''contrib'' entries else ContribRepoURL fc),
      Breaking = Breaking fc @ included components cfg Breaking_ct entries,
      Deprecations = Deprecations fc @ included components cfg Deprecation_ct entries,
      NewComponents = NewComponents fc @ included components cfg NewComponent_ct entries,
      Enhancements = Enhancements fc @ included components cfg Enhancement_ct entries,
      BugFixes = BugFixes fc @ included components cfg BugFix_ct entries\<rparr>"

lemma first_url_simps [simp]:
  "first_url src [] = []"
  "first_url src (e # es) =
     (if Source e = src \<and> RepoURL e \<noteq> [] then RepoURL e else first_url src es)"
  by (simp_all add: first_url_def)

lemma included_simps [simp]:
  "included components cfg ct [] = []"
  "included components cfg ct (e # es) =
     (if ChangeType e = ct \<and> shouldInclude (Component e) components cfg
      then e # included components cfg ct es else included components cfg ct es)"
  by (simp_all add: included_def)

text \<open>What one iteration does to each field.\<close>

lemma track_version_fields [simp]:
  "UpstreamVersions (fst (track_version (fc, seen) e)) =
     UpstreamVersions fc @ first_by id seen [UpstreamVersion e]"
  "snd (track_version (fc, seen) e) = insert (UpstreamVersion e) seen"
  by (auto simp: track_version_def)

lemma track_version_frame [simp]:
  "DistVersion (fst (track_version (fc, seen) e)) = DistVersion fc"
  "CoreRepoURL (fst (track_version (fc, seen) e)) = CoreRepoURL fc"
  "ContribRepoURL (fst (track_version (fc, seen) e)) = ContribRepoURL fc"
  "Breaking (fst (track_version (fc, seen) e)) = Breaking fc"
  "Deprecations (fst (track_version (fc, seen) e)) = Deprecations fc"
  "NewComponents (fst (track_version (fc, seen) e)) = NewComponents fc"
  "Enhancements (fst (track_version (fc, seen) e)) = Enhancements fc"
  "BugFixes (fst (track_version (fc, seen) e)) = BugFixes fc"
  by (simp_all add: track_version_def)

lemma track_urls_fields [simp]:
  "CoreRepoURL (track_urls fc e) =
     (if Source e = ''core'' \<and> CoreRepoURL fc = [] then RepoURL e else CoreRepoURL fc)"
  "ContribRepoURL (track_urls fc e) =
     (if Source e = ''contrib'' \<and> ContribRepoURL fc = [] then RepoURL e else ContribRepoURL fc)"
  by (simp_all add: track_urls_def Let_def)

lemma track_urls_frame [simp]:
  "DistVersion (track_urls fc e) = DistVersion fc"
  "UpstreamVersions (track_urls fc e) = UpstreamVersions fc"
  "Breaking (track_urls fc e) = Breaking fc"
  "Deprecations (track_urls fc e) = Deprecations fc"
  "NewComponents (track_urls fc e) = NewComponents fc"
  "Enhancements (track_urls fc e) = Enhancements fc"
  "BugFixes (track_urls fc e) = BugFixes fc"
  by (simp_all add: track_urls_def Let_def)

lemma group_entry_fields [simp]:
  "Breaking (group_entry fc e) = Breaking fc @ (if ChangeType e = Breaking_ct then [e] else [])"
  "Deprecations (group_entry fc e) =
     Deprecations fc @ (if ChangeType e = Deprecation_ct then [e] else [])"
  "NewComponents (group_entry fc e) =
     NewComponents fc @ (if ChangeType e = NewComponent_ct then [e] else [])"
  "Enhancements (group_entry fc e) =
     Enhancements fc @ (if ChangeType e = Enhancement_ct then [e] else [])"
  "BugFixes (group_entry fc e) = BugFixes fc @ (if ChangeType e = BugFix_ct then [e] else [])"
  by (simp_all add: group_entry_def change_type_defs)

lemma group_entry_frame [simp]:
  "DistVersion (group_entry fc e) = DistVersion fc"
  "UpstreamVersions (group_entry fc e) = UpstreamVersions fc"
  "CoreRepoURL (group_entry fc e) = CoreRepoURL fc"
  "ContribRepoURL (group_entry fc e) = ContribRepoURL fc"
  by (simp_all add: group_entry_def)

lemma filter_loop_Cons:
  "filter_loop components cfg (fc, seen) (e # entries) =
     (let fc' = track_urls (fst (track_version (fc, seen) e)) e
      in filter_loop components cfg
           (if shouldInclude (Component e) components cfg then group_entry fc' e else fc',
            snd (track_version (fc, seen) e)) entries)"
  by (simp add: case_prod_beta Let_def)

lemma filter_loop_spec:
  "filter_loop components cfg (fc, seen) entries = spec_from components cfg fc seen entries"
proof (induction entries arbitrary: fc seen)
  case Nil
  then show ?case by (simp add: spec_from_def)
next
  case (Cons e entries)
  show ?case
    unfolding filter_loop_Cons Let_def Cons.IH
    by (cases "shouldInclude (Component e) components cfg";
        cases "UpstreamVersion e \<in> seen") (simp_all add: spec_from_def insert_absorb)
qed

section \<open>Inclusion\<close>

lemma shouldInclude_iff:
  "shouldInclude c comps cfg \<longleftrightarrow>
   (\<forall>p \<in> set (Denylist cfg). \<not> matchPattern c p) \<and>
   (comps c = Some True \<or> (\<exists>p \<in> set (Allowlist cfg). matchPattern c p))"
  by (auto simp: shouldInclude_def allow.matches_iff deny.matches_iff)

text \<open>
  The abstract meaning of a pattern: a glob covers the names that start with what precedes the star,
  any other pattern the names of which it is a prefix of path segments.
\<close>

definition covers :: "string \<Rightarrow> string \<Rightarrow> bool" where
  "covers pattern c \<longleftrightarrow>
     (if has_suffix pattern ''*'' then prefix (butlast pattern) c
      else prefix (split_on pattern ''/'') (split_on c ''/''))"

lemma matchPattern_covers: "matchPattern c p \<longleftrightarrow> covers p c"
  using matchPattern_segments_aux [of c p]
  by (auto simp: matchPattern_def covers_def has_prefix_def butlast_conv_take)

text \<open>
  The denylist takes precedence. A component covered by a denylist pattern is never included,
  whatever the manifest and the allowlist say; one that none covers is included exactly
  when it is in the manifest or an allowlist pattern covers it. A pattern without a star covers
  whole path segments only: receiver/foo covers receiver/foo/bar but not receiver/foobar.
\<close>

theorem shouldInclude_spec:
  "shouldInclude c comps cfg \<longleftrightarrow>
   \<not> (\<exists>p \<in> set (Denylist cfg). covers p c) \<and>
   (comps c = Some True \<or> (\<exists>p \<in> set (Allowlist cfg). covers p c))"
  by (auto simp: shouldInclude_iff matchPattern_covers)

text \<open>
  C7: filtering is the field-by-field grouping of the specification: the upstream versions
  without repetition in the order they first occur, the first non-empty repository URL of
  each source, and in every section exactly the included entries of its change type, in
  their original order.
\<close>

theorem FilterEntries_spec:
  "FilterEntries entries comps cfg =
     \<lparr>DistVersion = [],
      UpstreamVersions = first_by id {} (map UpstreamVersion entries),
      CoreRepoURL = first_url ''core'' entries,
      ContribRepoURL = first_url ''contrib'' entries,
      Breaking = included comps cfg Breaking_ct entries,
      Deprecations = included comps cfg Deprecation_ct entries,
      NewComponents = included comps cfg NewComponent_ct entries,
      Enhancements = included comps cfg Enhancement_ct entries,
      BugFixes = included comps cfg BugFix_ct entries\<rparr>"
  by (simp add: FilterEntries_def filter_loop_spec spec_from_def empty_changelog_def)

text \<open>All grouped entries, in the order the sections are rendered.\<close>

definition all_sections :: "FilteredChangelog \<Rightarrow> ChangelogEntry list" where
  "all_sections fc = Breaking fc @ Deprecations fc @ NewComponents fc @ Enhancements fc @ BugFixes fc"

lemma included_partition:
  assumes "\<forall>e \<in> set entries. validChangeTypes (ChangeType e)"
  shows "mset (included c cfg Breaking_ct entries @ included c cfg Deprecation_ct entries @
      included c cfg NewComponent_ct entries @ included c cfg Enhancement_ct entries @
      included c cfg BugFix_ct entries) =
    mset (filter (\<lambda>e. shouldInclude (Component e) c cfg) entries)"
  using assms
proof (induction entries)
  case (Cons e entries)
  then have "ChangeType e \<in> {Breaking_ct, Deprecation_ct, NewComponent_ct, Enhancement_ct, BugFix_ct}"
    by (simp add: validChangeTypes_def)
  with Cons show ?case by (auto simp: change_type_defs)
qed simp

text \<open>
  No entry is lost or repeated. For entries with valid change types (as parsing guarantees) the
  sections together hold exactly the included entries, each as often as it occurs.
\<close>

theorem FilterEntries_complete:
  assumes "\<forall>e \<in> set entries. validChangeTypes (ChangeType e)"
  shows "mset (all_sections (FilterEntries entries comps cfg)) =
    mset (filter (\<lambda>e. shouldInclude (Component e) comps cfg) entries)"
  using included_partition [OF assms, of comps cfg]
  by (simp add: all_sections_def FilterEntries_def filter_loop_spec spec_from_def empty_changelog_def)

definition sample_entry :: "string \<Rightarrow> ChangeType \<Rightarrow> string \<Rightarrow> ChangelogEntry" where
  "sample_entry c ct src =
     \<lparr>Component = c, Note = ''note'', Issues = [7], Subtext = [], ChangeType = ct, Source = src,
      UpstreamVersion = ''v0.145.0'', RepoURL = ''https://github.com/o/r''\<rparr>"

theorem FilterEntries_complete_witness:
  "mset (all_sections (FilterEntries
      [sample_entry ''receiver/otlp'' ''bug_fix'' ''core'',
       sample_entry ''cmd/builder'' ''breaking'' ''core'']
      [''receiver/otlp'' \<mapsto> True] \<lparr>Allowlist = [''all''], Denylist = [''cmd/*'']\<rparr>)) =
   {# sample_entry ''receiver/otlp'' ''bug_fix'' ''core'' #}"
proof -
  let ?es = "[sample_entry ''receiver/otlp'' ''bug_fix'' ''core'',
       sample_entry ''cmd/builder'' ''breaking'' ''core'']"
  let ?c = "[''receiver/otlp'' \<mapsto> True]"
  let ?cfg = "\<lparr>Allowlist = [''all''], Denylist = [''cmd/*'']\<rparr>"
  have v: "\<forall>e \<in> set ?es. validChangeTypes (ChangeType e)"
    by (simp add: sample_entry_def validChangeTypes_def change_type_defs)
  have "filter (\<lambda>e. shouldInclude (Component e) ?c ?cfg) ?es =
      [sample_entry ''receiver/otlp'' ''bug_fix'' ''core'']"
    by (simp add: sample_entry_def shouldInclude_def matchPattern_def has_suffix_def has_prefix_def
        suffix_to_prefix)
  then show ?thesis using FilterEntries_complete [OF v, of ?c ?cfg] by simp
qed

end
