(* ===== verification/Changelog_Version.thy ===== *)
theory Changelog_Version
  imports Go_Strings "HOL-Library.Product_Lexorder" "HOL-Library.Option_ord"
begin

text \<open>
  \<^verbatim>\<open>internal/changelog-generator/version.go\<close>. The functions of the module
  \<^verbatim>\<open>golang.org/x/mod/semver\<close> are parameters, collected in a record; what the code relies on of
  their documentation is \<open>semver_laws\<close>. \<open>plain_semver\<close>, a comparison of three dotted numbers,
  is one instance that satisfies the laws.
\<close>

record semver =
  Canonical :: "string \<Rightarrow> string"
  IsValid :: "string \<Rightarrow> bool"
  Compare :: "string \<Rightarrow> string \<Rightarrow> int"
  Major :: "string \<Rightarrow> string"
  Sort :: "string list \<Rightarrow> string list"

definition semver_laws :: "semver \<Rightarrow> bool" where
  "semver_laws sv \<longleftrightarrow>
     (\<forall>v. Canonical sv v = [] \<longleftrightarrow> \<not> IsValid sv v) \<and>
     (\<forall>v. IsValid sv v \<longrightarrow> IsValid sv (Canonical sv v)) \<and>
     (\<forall>v. Canonical sv (Canonical sv v) = Canonical sv v) \<and>
     (\<forall>v. IsValid sv v \<longrightarrow> has_prefix v ''v'' \<and> no_outer_space v) \<and>
     (\<forall>v. Compare sv v v = 0) \<and>
     (\<forall>v w. Compare sv v w = - Compare sv w v) \<and>
     (\<forall>u v w. Compare sv u v \<le> 0 \<longrightarrow> Compare sv v w \<le> 0 \<longrightarrow> Compare sv u w \<le> 0) \<and>
     (\<forall>vs. mset (Sort sv vs) = mset vs) \<and>
     (\<forall>vs. sorted_wrt (\<lambda>v w. Compare sv v w \<le> 0) (Sort sv vs))"

definition canonicalVersion :: "semver \<Rightarrow> string \<Rightarrow> string" where
  "canonicalVersion sv v =
     (let v = trim_space v;
          v = (if \<not> has_prefix v ''v'' then ''v'' @ v else v);
          c = Canonical sv v
      in if c = [] then trim_space v else c)"

text \<open>The loop of \<open>highestVersion\<close>, with the best version so far.\<close>

fun highest_loop :: "semver \<Rightarrow> string \<Rightarrow> string list \<Rightarrow> string" where
  "highest_loop sv best [] = best"
| "highest_loop sv best (v # versions) =
     (let vc = canonicalVersion sv v
      in if \<not> IsValid sv vc then highest_loop sv best versions
         else if best = [] \<or> Compare sv vc best > 0 then highest_loop sv vc versions
         else highest_loop sv best versions)"

definition highestVersion :: "semver \<Rightarrow> string list \<Rightarrow> string" where
  "highestVersion sv versions = highest_loop sv [] versions"

text \<open>The loop of \<open>sortedUniqueVersions\<close>, with the map \<open>seen\<close> and the slice \<open>uniq\<close>.\<close>

fun unique_loop :: "semver \<Rightarrow> string set \<Rightarrow> string list \<Rightarrow> string list \<Rightarrow> string list" where
  "unique_loop sv seen uniq [] = uniq"
| "unique_loop sv seen uniq (v # versions) =
     (let vc = canonicalVersion sv v
      in if \<not> IsValid sv vc \<or> vc \<in> seen then unique_loop sv seen uniq versions
         else unique_loop sv (insert vc seen) (uniq @ [vc]) versions)"

definition sortedUniqueVersions :: "semver \<Rightarrow> string list \<Rightarrow> string list" where
  "sortedUniqueVersions sv versions = Sort sv (unique_loop sv {} [] versions)"

section \<open>Facts\<close>

text \<open>The versions both functions work on: the canonical forms that are valid.\<close>

definition valid_versions :: "semver \<Rightarrow> string list \<Rightarrow> string list" where
  "valid_versions sv versions = filter (IsValid sv) (map (canonicalVersion sv) versions)"

lemma valid_versions_simps [simp]:
  "valid_versions sv [] = []"
  "valid_versions sv (v # vs) =
     (if IsValid sv (canonicalVersion sv v) then canonicalVersion sv v # valid_versions sv vs
      else valid_versions sv vs)"
  by (simp_all add: valid_versions_def)

lemma unique_loop_eq:
  "unique_loop sv seen uniq versions = uniq @ first_by id seen (valid_versions sv versions)"
  by (induction versions arbitrary: seen uniq) (auto simp: Let_def)

lemma highest_loop_cases:
  "highest_loop sv best versions = best \<or>
   highest_loop sv best versions \<in> set (valid_versions sv versions)"
  by (induction versions arbitrary: best) (auto simp: Let_def)

lemma semver_order:
  assumes "semver_laws sv"
  shows "Compare sv v v = 0" and "Compare sv v w = - Compare sv w v"
    and "Compare sv u v \<le> 0 \<Longrightarrow> Compare sv v w \<le> 0 \<Longrightarrow> Compare sv u w \<le> 0"
  using assms unfolding semver_laws_def by blast+

lemma semver_forms:
  assumes "semver_laws sv"
  shows "Canonical sv v = [] \<longleftrightarrow> \<not> IsValid sv v"
    and "IsValid sv v \<Longrightarrow> IsValid sv (Canonical sv v)"
    and "Canonical sv (Canonical sv v) = Canonical sv v"
    and "IsValid sv v \<Longrightarrow> has_prefix v ''v''"
    and "IsValid sv v \<Longrightarrow> no_outer_space v"
  using assms unfolding semver_laws_def by blast+

lemma semver_sort:
  assumes "semver_laws sv"
  shows "mset (Sort sv vs) = mset vs" and "sorted_wrt (\<lambda>v w. Compare sv v w \<le> 0) (Sort sv vs)"
  using assms unfolding semver_laws_def by blast+

lemma canonical_valid_nonempty:
  assumes "semver_laws sv" and "IsValid sv c"
  shows "c \<noteq> []"
  using semver_forms(4) [OF assms] by (auto simp: has_prefix_def)

text \<open>The result of the loop is above the start value and above every valid version.\<close>

lemma highest_loop_ge:
  assumes laws: "semver_laws sv"
  shows "(\<forall>v \<in> set (valid_versions sv versions). Compare sv v (highest_loop sv best versions) \<le> 0) \<and>
    (best \<noteq> [] \<longrightarrow> Compare sv best (highest_loop sv best versions) \<le> 0)"
proof (induction versions arbitrary: best)
  case Nil
  then show ?case by (simp add: semver_order(1) [OF laws])
next
  case (Cons x versions)
  let ?c = "canonicalVersion sv x"
  show ?case
  proof (cases "IsValid sv ?c \<and> (best = [] \<or> Compare sv ?c best > 0)")
    case True
    then have new: "highest_loop sv best (x # versions) = highest_loop sv ?c versions"
      by (simp add: Let_def)
    have "?c \<noteq> []" using canonical_valid_nonempty [OF laws] True by blast
    with Cons.IH [of ?c] have c: "Compare sv ?c (highest_loop sv ?c versions) \<le> 0" by blast
    have "Compare sv best (highest_loop sv ?c versions) \<le> 0" if "best \<noteq> []"
    proof (rule semver_order(3) [OF laws _ c])
      show "Compare sv best ?c \<le> 0" using True that semver_order(2) [OF laws, of best ?c] by simp
    qed
    with c Cons.IH [of ?c] new show ?thesis by simp
  next
    case False
    then have same: "highest_loop sv best (x # versions) = highest_loop sv best versions"
      by (auto simp: Let_def)
    have "Compare sv ?c (highest_loop sv best versions) \<le> 0" if "IsValid sv ?c"
      using semver_order(3) [OF laws, of ?c best] False that Cons.IH [of best] by force
    with Cons.IH [of best] same show ?thesis by simp
  qed
qed

lemma highestVersion_empty_iff:
  assumes "semver_laws sv"
  shows "highestVersion sv versions = [] \<longleftrightarrow> valid_versions sv versions = []"
proof
  assume "valid_versions sv versions = []"
  then show "highestVersion sv versions = []"
    using highest_loop_cases [of sv "[]" versions] by (simp add: highestVersion_def)
next
  have "best = [] \<and> valid_versions sv versions = []" if "highest_loop sv best versions = []" for best
    using that
  proof (induction versions arbitrary: best)
    case (Cons x versions)
    let ?c = "canonicalVersion sv x"
    have ne: "IsValid sv ?c \<Longrightarrow> ?c \<noteq> []" by (rule canonical_valid_nonempty [OF assms])
    show ?case
    proof (cases "IsValid sv ?c")
      case False
      with Cons.IH [of best] Cons.prems show ?thesis by (simp add: Let_def)
    next
      case True
      with Cons.IH [of best] Cons.IH [of ?c] Cons.prems ne show ?thesis
        by (simp add: Let_def split: if_splits)
    qed
  qed simp
  then show "highestVersion sv versions = [] \<Longrightarrow> valid_versions sv versions = []"
    unfolding highestVersion_def by blast
qed

lemma sortedUniqueVersions_mset:
  assumes "semver_laws sv"
  shows "mset (sortedUniqueVersions sv versions) = mset (first_by id {} (valid_versions sv versions))"
  by (simp add: sortedUniqueVersions_def unique_loop_eq semver_sort(1) [OF assms])

lemma sortedUniqueVersions_set:
  assumes "semver_laws sv"
  shows "set (sortedUniqueVersions sv versions) = set (valid_versions sv versions)"
  using mset_eq_setD [OF sortedUniqueVersions_mset [OF assms], of versions]
    first_by_keys [of id "{}" "valid_versions sv versions"] by simp

lemma sortedUniqueVersions_distinct:
  assumes "semver_laws sv"
  shows "distinct (sortedUniqueVersions sv versions)"
proof -
  have "distinct (first_by id {} (valid_versions sv versions))"
    using first_by_distinct [of id "{}" "valid_versions sv versions"] by simp
  with sortedUniqueVersions_mset [OF assms, of versions] show ?thesis
    using mset_eq_imp_distinct_iff by blast
qed

text \<open>A canonical version is a fixed point, so normalising twice is normalising once.\<close>

lemma canonicalVersion_valid_id:
  assumes laws: "semver_laws sv" and "IsValid sv (canonicalVersion sv v)"
  shows "canonicalVersion sv (canonicalVersion sv v) = canonicalVersion sv v"
    and "\<exists>w. canonicalVersion sv v = Canonical sv w \<and> IsValid sv w"
proof -
  let ?c = "canonicalVersion sv v"
  let ?w = "if \<not> has_prefix (trim_space v) ''v'' then ''v'' @ trim_space v else trim_space v"
  have c: "?c = (if Canonical sv ?w = [] then trim_space ?w else Canonical sv ?w)"
    by (simp add: canonicalVersion_def Let_def)
  have "no_outer_space ?w"
    using no_outer_space_Cons [of "CHR ''v''" "trim_space v"] no_outer_space_trim [of v]
    by (simp add: space_bytes_eq)
  then have "trim_space ?w = ?w" by (rule trim_space_id)
  have w: "?c = Canonical sv ?w \<and> IsValid sv ?w"
  proof (cases "Canonical sv ?w = []")
    case True
    with c \<open>trim_space ?w = ?w\<close> have "?c = ?w" by argo
    moreover have "\<not> IsValid sv ?w" using semver_forms(1) [OF laws, of ?w] True by argo
    ultimately show ?thesis using assms(2) by argo
  next
    case False
    with c have "?c = Canonical sv ?w" by argo
    then show ?thesis using semver_forms(1) [OF laws, of ?w] False by argo
  qed
  then show "\<exists>w. ?c = Canonical sv w \<and> IsValid sv w" by blast
  have "Canonical sv ?c = ?c" using w semver_forms(3) [OF laws] by metis
  moreover have "trim_space ?c = ?c"
    by (rule trim_space_id [OF semver_forms(5) [OF laws assms(2)]])
  ultimately show "canonicalVersion sv ?c = ?c"
    using semver_forms(4) [OF laws assms(2)] canonical_valid_nonempty [OF laws assms(2)]
    by (simp add: canonicalVersion_def Let_def)
qed

section \<open>An instance of the semver interface\<close>

text \<open>Three decimal numbers after a v, compared lexicographically.\<close>

definition plain_key :: "string \<Rightarrow> (nat \<times> nat \<times> nat) option" where
  "plain_key v =
     (case v of
        [] \<Rightarrow> None
      | c # rest \<Rightarrow>
          (case split_on rest ''.'' of
             [a, b, d] \<Rightarrow>
               (if c = CHR ''v'' \<and> a \<noteq> [] \<and> b \<noteq> [] \<and> d \<noteq> [] \<and>
                   list_all is_digit a \<and> list_all is_digit b \<and> list_all is_digit d
                then Some (digits_val a, digits_val b, digits_val d) else None)
           | _ \<Rightarrow> None))"

definition order_sign :: "'k::linorder \<Rightarrow> 'k \<Rightarrow> int" where
  "order_sign k l = (if k < l then - 1 else if k = l then 0 else 1)"

lemma order_sign_le: "order_sign k l \<le> 0 \<longleftrightarrow> k \<le> l"
  by (cases k l rule: linorder_cases) (auto simp: order_sign_def)

lemma order_sign_anti: "order_sign k l = - order_sign l k"
  by (cases k l rule: linorder_cases) (auto simp: order_sign_def)

definition plain_semver :: semver where
  "plain_semver =
     \<lparr>Canonical = (\<lambda>v. if plain_key v = None then [] else v),
      IsValid = (\<lambda>v. plain_key v \<noteq> None),
      Compare = (\<lambda>v w. order_sign (plain_key v) (plain_key w)),
      Major = (\<lambda>v. takeWhile (\<lambda>c. c \<noteq> CHR ''.'') v),
      Sort = sort_key plain_key\<rparr>"

lemma plain_key_form:
  assumes "plain_key v \<noteq> None"
  shows "has_prefix v ''v'' \<and> no_outer_space v"
proof -
  obtain rest a b d where v: "v = CHR ''v'' # rest" and s: "split_on rest ''.'' = [a, b, d]"
      and d: "d \<noteq> []" "list_all is_digit d"
    using assms by (auto simp: plain_key_def split: list.splits if_splits)
  have "rest = a @ ''.'' @ b @ ''.'' @ d" using join_split_on [of rest "''.''"] s by simp
  then have "last v = last d" using v d(1) by simp
  moreover have "is_digit (last d)" using d by (simp add: list_all_iff)
  ultimately have "last v \<notin> space_bytes" using digit_not_space by simp
  moreover have "hd v \<notin> space_bytes" using v by (simp add: space_bytes_eq)
  ultimately show ?thesis using no_outer_space_ends v by (simp add: has_prefix_def)
qed

lemma plain_compare: "Compare plain_semver v w = order_sign (plain_key v) (plain_key w)"
  by (simp add: plain_semver_def)

lemma plain_sorted: "sorted_wrt (\<lambda>v w. Compare plain_semver v w \<le> 0) (Sort plain_semver vs)"
proof -
  have "sorted (map plain_key (sort_key plain_key vs))" by (rule sorted_sort_key)
  then show ?thesis
    unfolding plain_compare order_sign_le by (simp add: sorted_map plain_semver_def)
qed

lemma plain_semver_laws: "semver_laws plain_semver"
proof -
  have form: "\<forall>v. IsValid plain_semver v \<longrightarrow> has_prefix v ''v'' \<and> no_outer_space v"
    using plain_key_form by (simp add: plain_semver_def)
  have canon: "\<forall>v. Canonical plain_semver v = [] \<longleftrightarrow> \<not> IsValid plain_semver v"
    "\<forall>v. IsValid plain_semver v \<longrightarrow> IsValid plain_semver (Canonical plain_semver v)"
    "\<forall>v. Canonical plain_semver (Canonical plain_semver v) = Canonical plain_semver v"
    by (auto simp: plain_semver_def plain_key_def)
  have order: "\<forall>v. Compare plain_semver v v = 0"
    "\<forall>v w. Compare plain_semver v w = - Compare plain_semver w v"
    "\<forall>u v w. Compare plain_semver u v \<le> 0 \<longrightarrow> Compare plain_semver v w \<le> 0 \<longrightarrow>
      Compare plain_semver u w \<le> 0"
    unfolding plain_compare order_sign_le
    using order_sign_anti order_trans by (simp add: order_sign_def, blast, blast)
  have perm: "\<forall>vs. mset (Sort plain_semver vs) = mset vs" by (simp add: plain_semver_def)
  show ?thesis
    unfolding semver_laws_def by (intro conjI) (rule form canon order perm allI plain_sorted)+
qed

end
