(* ===== verification/Changelog_Generator.thy ===== *)
theory Changelog_Generator
  imports Changelog_Filter Changelog_Version
begin

text \<open>
  \<^verbatim>\<open>internal/changelog-generator/generator.go\<close>: rendering a filtered changelog. A
  \<^verbatim>\<open>strings.Builder\<close> is the string written so far. The section headers hold emoji, written
  here as their UTF-8 bytes.
\<close>

definition coreRepoURL :: string where
  "coreRepoURL = ''https://github.com/open-telemetry/opentelemetry-collector''"

definition contribRepoURL :: string where
  "contribRepoURL = ''https://github.com/open-telemetry/opentelemetry-collector-contrib''"

record UpstreamContent =
  VersionIntro :: string
  CollectorVersions :: string
  BreakingChanges :: string
  OtherChanges :: string

definition zero_content :: UpstreamContent where
  "zero_content = \<lparr>VersionIntro = [], CollectorVersions = [], BreakingChanges = [], OtherChanges = []\<rparr>"

definition buildIssueLinks :: "int list \<Rightarrow> string \<Rightarrow> string" where
  "buildIssueLinks issues repoURL =
     (if length issues = 0 then []
      else join (map (\<lambda>num. ''[#'' @ itoa num @ ''](''  @ repoURL @ ''/issues/'' @ itoa num @ '')'')
             issues) '', '')"

definition subtext_lines :: "string \<Rightarrow> string list \<Rightarrow> string" where
  "subtext_lines sb ls =
     foldl (\<lambda>sb line. if line = [] then sb @ nl else sb @ ''  '' @ line @ nl) sb ls"

definition writeEntry :: "string \<Rightarrow> ChangelogEntry \<Rightarrow> string" where
  "writeEntry sb e =
     (let issueLinks = buildIssueLinks (Issues e) (RepoURL e);
          sb = (if issueLinks \<noteq> []
                then sb @ ''- `'' @ Component e @ ''`: '' @ Note e @ '' ('' @ issueLinks @ '')'' @ nl
                else sb @ ''- `'' @ Component e @ ''`: '' @ Note e @ nl)
      in if Subtext e \<noteq> [] then subtext_lines sb (split_on (Subtext e) nl) else sb)"

definition writeEntries :: "string \<Rightarrow> ChangelogEntry list \<Rightarrow> string" where
  "writeEntries sb entries =
     foldl (\<lambda>sb src. foldl (\<lambda>sb e. if Source e \<noteq> src then sb else writeEntry sb e) sb entries)
       sb [''core'', ''contrib'']"

definition joinVersions :: "string list \<Rightarrow> string" where
  "joinVersions versions =
     (case versions of
        [] \<Rightarrow> []
      | [v] \<Rightarrow> v
      | [v, w] \<Rightarrow> v @ '' and '' @ w
      | _ \<Rightarrow> join (butlast versions) '', '' @ '', and '' @ last versions)"

fun collector_loop :: "semver \<Rightarrow> string list \<Rightarrow> string list \<Rightarrow> string list" where
  "collector_loop sv collector [] = collector"
| "collector_loop sv collector (v # versions) =
     (let vc = canonicalVersion sv v
      in if IsValid sv vc \<and> Major sv vc = ''v0''
         then collector_loop sv (collector @ [vc]) versions
         else collector_loop sv collector versions)"

definition filterCollectorReleaseVersions :: "semver \<Rightarrow> string list \<Rightarrow> string list" where
  "filterCollectorReleaseVersions sv versions =
     (let collector = collector_loop sv [] versions
      in if length collector > 0 then collector else versions)"

definition hdr_breaking :: string where
  "hdr_breaking = ''### '' @ [CHR 0xF0, CHR 0x9F, CHR 0x9B, CHR 0x91] @ '' Breaking changes '' @
     [CHR 0xF0, CHR 0x9F, CHR 0x9B, CHR 0x91] @ nl @ nl"

definition hdr_deprecations :: string where
  "hdr_deprecations =
     ''### '' @ [CHR 0xE2, CHR 0x9A, CHR 0xA0, CHR 0xEF, CHR 0xB8, CHR 0x8F] @ '' Deprecations '' @
     [CHR 0xE2, CHR 0x9A, CHR 0xA0, CHR 0xEF, CHR 0xB8, CHR 0x8F] @ nl @ nl"

definition hdr_new :: string where
  "hdr_new = ''### '' @ [CHR 0xF0, CHR 0x9F, CHR 0x9A, CHR 0x80] @ '' New components '' @
     [CHR 0xF0, CHR 0x9F, CHR 0x9A, CHR 0x80] @ nl @ nl"

definition hdr_enhancements :: string where
  "hdr_enhancements = ''### '' @ [CHR 0xF0, CHR 0x9F, CHR 0x92, CHR 0xA1] @ '' Enhancements '' @
     [CHR 0xF0, CHR 0x9F, CHR 0x92, CHR 0xA1] @ nl @ nl"

definition hdr_fixes :: string where
  "hdr_fixes = ''### '' @ [CHR 0xF0, CHR 0x9F, CHR 0xA7, CHR 0xB0] @ '' Bug fixes '' @
     [CHR 0xF0, CHR 0x9F, CHR 0xA7, CHR 0xB0] @ nl @ nl"

text \<open>One of the later sections: a blank line when \<open>hasOther\<close>, the header, the entries.\<close>

definition other_section ::
    "string \<Rightarrow> ChangelogEntry list \<Rightarrow> string \<times> bool \<Rightarrow> string \<times> bool" where
  "other_section hdr entries st =
     (case st of (sb, hasOther) \<Rightarrow>
        if length entries > 0
        then (let sb = (if hasOther then sb @ nl else sb) in (writeEntries (sb @ hdr) entries, True))
        else (sb, hasOther))"

definition versions_block :: "string \<Rightarrow> string \<Rightarrow> string list \<Rightarrow> string" where
  "versions_block coreURL contribURL versions =
     foldl (\<lambda>sb v. sb @ v @ '':'' @ nl @ nl @
                   ''- <'' @ coreURL @ ''/releases/tag/'' @ v @ ''>'' @ nl @
                   ''- <'' @ contribURL @ ''/releases/tag/'' @ v @ ''>'' @ nl @ nl) [] versions"

definition GenerateUpstreamContent :: "semver \<Rightarrow> FilteredChangelog \<Rightarrow> UpstreamContent" where
  "GenerateUpstreamContent sv fc =
     (let orderedVersions =
        filterCollectorReleaseVersions sv (sortedUniqueVersions sv (UpstreamVersions fc))
      in if length orderedVersions = 0 then zero_content
         else
           let coreURL = (if CoreRepoURL fc = [] then coreRepoURL else CoreRepoURL fc);
               contribURL = (if ContribRepoURL fc = [] then contribRepoURL else ContribRepoURL fc);
               versionIntro = joinVersions orderedVersions;
               upstreamVersions = versions_block coreURL contribURL orderedVersions;
               breaking = (if length (Breaking fc) > 0
                           then writeEntries hdr_breaking (Breaking fc) else []);
               st = (if length (Deprecations fc) > 0
                     then (writeEntries hdr_deprecations (Deprecations fc), True) else ([], False));
               st = other_section hdr_new (NewComponents fc) st;
               st = other_section hdr_enhancements (Enhancements fc) st;
               (sb, hasOther) = other_section hdr_fixes (BugFixes fc) st;
               otherStr = trim_right sb nl;
               otherStr = (if \<not> hasOther then ''No upstream highlights for this release.''
                           else otherStr)
           in \<lparr>VersionIntro = versionIntro,
               CollectorVersions = trim_right upstreamVersions nl,
               BreakingChanges = trim_right breaking nl,
               OtherChanges = otherStr\<rparr>)"

section \<open>Entries\<close>

text \<open>The text of one entry and of a list of entries, without the builder.\<close>

definition entry_text :: "ChangelogEntry \<Rightarrow> string" where
  "entry_text e = writeEntry [] e"

definition entries_text :: "ChangelogEntry list \<Rightarrow> string" where
  "entries_text es =
     concat (map entry_text (filter (\<lambda>e. Source e = ''core'') es @ filter (\<lambda>e. Source e = ''contrib'') es))"

lemma foldl_append_start:
  "(\<And>sb x. f sb x = sb @ g x) \<Longrightarrow> foldl f sb xs = sb @ concat (map g xs)"
  by (induction xs arbitrary: sb) auto

lemma subtext_lines_append: "subtext_lines sb ls = sb @ subtext_lines [] ls"
proof -
  let ?g = "\<lambda>line. if line = [] then nl else ''  '' @ line @ nl"
  have "subtext_lines sb ls = sb @ concat (map ?g ls)" for sb
    unfolding subtext_lines_def by (rule foldl_append_start) simp
  then show ?thesis by simp
qed

definition entry_head :: "ChangelogEntry \<Rightarrow> string" where
  "entry_head e =
     (let links = buildIssueLinks (Issues e) (RepoURL e)
      in ''- `'' @ Component e @ ''`: '' @ Note e @
         (if links \<noteq> [] then '' ('' @ links @ '')'' else []) @ nl)"

definition entry_tail :: "ChangelogEntry \<Rightarrow> string" where
  "entry_tail e = (if Subtext e \<noteq> [] then subtext_lines [] (split_on (Subtext e) nl) else [])"

lemma writeEntry_eq: "writeEntry sb e = sb @ entry_head e @ entry_tail e"
proof -
  have "writeEntry sb e =
      (if Subtext e \<noteq> [] then subtext_lines (sb @ entry_head e) (split_on (Subtext e) nl)
       else sb @ entry_head e)"
    by (simp add: writeEntry_def entry_head_def Let_def)
  also have "\<dots> = sb @ entry_head e @ entry_tail e"
    using subtext_lines_append [of "sb @ entry_head e"] by (simp add: entry_tail_def)
  finally show ?thesis .
qed

lemma writeEntry_append: "writeEntry sb e = sb @ entry_text e"
  by (simp add: entry_text_def writeEntry_eq)

lemma writeEntries_append: "writeEntries sb es = sb @ entries_text es"
proof -
  have one: "foldl (\<lambda>sb e. if Source e \<noteq> src then sb else writeEntry sb e) sb es =
      sb @ concat (map entry_text (filter (\<lambda>e. Source e = src) es))" for src sb
    by (induction es arbitrary: sb) (auto simp: writeEntry_append)
  show ?thesis by (simp add: writeEntries_def entries_text_def one)
qed

section \<open>Sections\<close>

text \<open>
  The reference layout of the changes below the fold: the non-empty sections, each its header
  followed by its entries, separated by a blank line.
\<close>

definition section_texts :: "FilteredChangelog \<Rightarrow> string list" where
  "section_texts fc =
     map (\<lambda>(hdr, es). hdr @ entries_text es)
       (filter (\<lambda>(hdr, es). es \<noteq> [])
          [(hdr_deprecations, Deprecations fc), (hdr_new, NewComponents fc),
           (hdr_enhancements, Enhancements fc), (hdr_fixes, BugFixes fc)])"

text \<open>The state of the builder after some of the sections have been joined.\<close>

definition joined :: "string list \<Rightarrow> string \<times> bool" where
  "joined ts = (join ts nl, ts \<noteq> [])"

lemma join_snoc: "join (ts @ [t]) sep = (if ts = [] then t else join ts sep @ sep @ t)"
  by (induction ts) (auto simp: join_Cons)

lemma other_section_joined:
  "other_section hdr es (joined ts) =
   joined (ts @ (if es = [] then [] else [hdr @ entries_text es]))"
  by (simp add: other_section_def joined_def join_snoc writeEntries_append)

lemma other_sections_eq:
  "other_section hdr_fixes (BugFixes fc)
     (other_section hdr_enhancements (Enhancements fc)
       (other_section hdr_new (NewComponents fc)
         (if length (Deprecations fc) > 0
          then (writeEntries hdr_deprecations (Deprecations fc), True) else ([], False)))) =
   joined (section_texts fc)"
proof -
  have start: "(if length (Deprecations fc) > 0
          then (writeEntries hdr_deprecations (Deprecations fc), True) else ([], False)) =
      joined (if Deprecations fc = [] then [] else [hdr_deprecations @ entries_text (Deprecations fc)])"
    by (simp add: joined_def writeEntries_append)
  show ?thesis
    unfolding start other_section_joined section_texts_def by simp
qed

section \<open>Versions\<close>

lemma collector_loop_eq:
  "collector_loop sv acc versions =
   acc @ filter (\<lambda>v. IsValid sv v \<and> Major sv v = ''v0'') (map (canonicalVersion sv) versions)"
  by (induction versions arbitrary: acc) (auto simp: Let_def)

lemma canonical_versions_fixed:
  assumes "semver_laws sv" and "v \<in> set (valid_versions sv versions)"
  shows "canonicalVersion sv v = v" and "IsValid sv v"
  using assms canonicalVersion_valid_id [OF assms(1)] by (auto simp: valid_versions_def)

text \<open>The versions that are rendered.\<close>

definition rendered_versions :: "semver \<Rightarrow> string list \<Rightarrow> string list" where
  "rendered_versions sv versions =
     filterCollectorReleaseVersions sv (sortedUniqueVersions sv versions)"

lemma rendered_versions_eq:
  assumes "semver_laws sv"
  shows "rendered_versions sv versions =
    (if \<exists>v \<in> set (valid_versions sv versions). Major sv v = ''v0''
     then filter (\<lambda>v. Major sv v = ''v0'') (sortedUniqueVersions sv versions)
     else sortedUniqueVersions sv versions)"
proof -
  let ?s = "sortedUniqueVersions sv versions"
  have s: "set ?s = set (valid_versions sv versions)" by (rule sortedUniqueVersions_set [OF assms])
  then have "map (canonicalVersion sv) ?s = ?s"
    by (intro map_idI canonical_versions_fixed(1) [OF assms]) auto
  then have "collector_loop sv [] ?s = filter (\<lambda>v. Major sv v = ''v0'') ?s"
    using canonical_versions_fixed(2) [OF assms] s by (auto simp: collector_loop_eq intro: filter_cong)
  then show ?thesis
    using s by (auto simp: rendered_versions_def filterCollectorReleaseVersions_def Let_def
        filter_empty_conv)
qed

lemma rendered_versions_Nil:
  assumes "semver_laws sv"
  shows "rendered_versions sv versions = [] \<longleftrightarrow> valid_versions sv versions = []"
proof -
  have "sortedUniqueVersions sv versions = [] \<longleftrightarrow> valid_versions sv versions = []"
    using sortedUniqueVersions_set [OF assms, of versions] by (metis set_empty)
  moreover have "(\<exists>v \<in> set (valid_versions sv versions). Major sv v = ''v0'') \<Longrightarrow>
      filter (\<lambda>v. Major sv v = ''v0'') (sortedUniqueVersions sv versions) \<noteq> []"
    using sortedUniqueVersions_set [OF assms, of versions] by (auto simp: filter_empty_conv)
  ultimately show ?thesis by (auto simp: rendered_versions_eq [OF assms])
qed

section \<open>The generated content\<close>

lemma content_fields:
  assumes "rendered_versions sv (UpstreamVersions fc) \<noteq> []"
  shows "VersionIntro (GenerateUpstreamContent sv fc) =
      joinVersions (rendered_versions sv (UpstreamVersions fc))"
    and "CollectorVersions (GenerateUpstreamContent sv fc) =
      trim_right (versions_block (if CoreRepoURL fc = [] then coreRepoURL else CoreRepoURL fc)
        (if ContribRepoURL fc = [] then contribRepoURL else ContribRepoURL fc)
        (rendered_versions sv (UpstreamVersions fc))) nl"
    and "BreakingChanges (GenerateUpstreamContent sv fc) =
      (if Breaking fc = [] then [] else trim_right (hdr_breaking @ entries_text (Breaking fc)) nl)"
    and "OtherChanges (GenerateUpstreamContent sv fc) =
      (if section_texts fc = [] then ''No upstream highlights for this release.''
       else trim_right (join (section_texts fc) nl) nl)"
  using assms unfolding rendered_versions_def [symmetric] GenerateUpstreamContent_def Let_def
    other_sections_eq
  by (simp_all add: joined_def rendered_versions_def writeEntries_append trim_right_def)

lemma content_zero:
  "rendered_versions sv (UpstreamVersions fc) = [] \<Longrightarrow> GenerateUpstreamContent sv fc = zero_content"
  by (simp add: GenerateUpstreamContent_def rendered_versions_def Let_def)

lemma join_nonempty: "x \<in> set xs \<Longrightarrow> x \<noteq> [] \<Longrightarrow> join xs sep \<noteq> []"
  by (induction xs sep rule: join.induct) auto

lemma joinVersions_nonempty:
  assumes "vs \<noteq> []" and "\<forall>v \<in> set vs. v \<noteq> []"
  shows "joinVersions vs \<noteq> []"
  using assms by (auto simp: joinVersions_def split: list.split)

lemma versions_block_append:
  "versions_block c d vs = concat (map (\<lambda>v. v @ '':'' @ nl @ nl @
      ''- <'' @ c @ ''/releases/tag/'' @ v @ ''>'' @ nl @
      ''- <'' @ d @ ''/releases/tag/'' @ v @ ''>'' @ nl @ nl) vs)"
  unfolding versions_block_def by (subst foldl_append_start) simp_all

lemma section_text_hash: "t \<in> set (section_texts fc) \<Longrightarrow> CHR ''#'' \<in> set t"
  by (auto simp: section_texts_def hdr_deprecations_def hdr_new_def hdr_enhancements_def
      hdr_fixes_def split: if_splits)

lemma set_join: "x \<in> set xs \<Longrightarrow> set x \<subseteq> set (join xs sep)"
  by (induction xs sep rule: join.induct) auto

lemma content_nonempty:
  assumes "semver_laws sv" and "valid_versions sv (UpstreamVersions fc) \<noteq> []"
  shows "VersionIntro (GenerateUpstreamContent sv fc) \<noteq> [] \<and>
    CollectorVersions (GenerateUpstreamContent sv fc) \<noteq> [] \<and> OtherChanges (GenerateUpstreamContent sv fc) \<noteq> []"
proof -
  let ?vs = "rendered_versions sv (UpstreamVersions fc)"
  have ne: "?vs \<noteq> []" using assms(2) by (simp add: rendered_versions_Nil [OF assms(1)])
  have "v \<noteq> []" if "v \<in> set ?vs" for v
    using that sortedUniqueVersions_set [OF assms(1), of "UpstreamVersions fc"]
      canonical_valid_nonempty [OF assms(1), of v]
    by (auto simp: rendered_versions_eq [OF assms(1)] valid_versions_def split: if_splits)
  then have "joinVersions ?vs \<noteq> []" using joinVersions_nonempty [OF ne] by blast
  moreover have "trim_right (versions_block c d ?vs) nl \<noteq> []" for c d
    by (rule trim_right_nonempty [of "CHR ''-''"])
      (use ne in \<open>auto simp: versions_block_append neq_Nil_conv\<close>)
  moreover have "trim_right (join (section_texts fc) nl) nl \<noteq> []" if "section_texts fc \<noteq> []"
  proof (rule trim_right_nonempty)
    from that obtain t where t: "t \<in> set (section_texts fc)" by (cases "section_texts fc") auto
    then show "CHR ''#'' \<in> set (join (section_texts fc) nl)"
      using section_text_hash set_join [OF t] by blast
  qed simp
  ultimately show ?thesis by (simp add: content_fields [OF ne])
qed

text \<open>
  The generated content signals "no upstream release" exactly when no entry has a valid upstream
  version: then it is the zero value, and otherwise the intro, the release links and the
  other changes are all non-empty.
\<close>

theorem GenerateUpstreamContent_zero_iff:
  assumes "semver_laws sv"
  shows "if valid_versions sv (UpstreamVersions fc) = []
         then GenerateUpstreamContent sv fc = zero_content
         else VersionIntro (GenerateUpstreamContent sv fc) \<noteq> [] \<and>
              CollectorVersions (GenerateUpstreamContent sv fc) \<noteq> [] \<and>
              OtherChanges (GenerateUpstreamContent sv fc) \<noteq> []"
  using content_nonempty [OF assms] by (simp add: content_zero rendered_versions_Nil [OF assms])

definition sample_changelog :: FilteredChangelog where
  "sample_changelog =
     \<lparr>DistVersion = [], UpstreamVersions = [''v1.2.0'', ''0.145.0''], CoreRepoURL = [],
      ContribRepoURL = [], Breaking = [], Deprecations = [], NewComponents = [],
      Enhancements = [], BugFixes = []\<rparr>"

lemma plain_key_145: "plain_key ''v0.145.0'' = Some (0, 145, 0)"
proof -
  have "split_on ''0.145.0'' ''.'' = [''0'', ''145'', ''0'']" by code_simp
  then show ?thesis by (simp add: plain_key_def is_digit_def digits_val_def digit_val_def)
qed

lemma canonical_145: "canonicalVersion plain_semver ''0.145.0'' = ''v0.145.0''"
  "canonicalVersion plain_semver ''v0.145.0'' = ''v0.145.0''"
proof -
  have "trim_space ''0.145.0'' = ''0.145.0''" "trim_space ''v0.145.0'' = ''v0.145.0''"
    by (rule trim_space_id, rule no_outer_space_ends, simp_all add: space_bytes_eq)+
  then show "canonicalVersion plain_semver ''0.145.0'' = ''v0.145.0''"
    "canonicalVersion plain_semver ''v0.145.0'' = ''v0.145.0''"
    by (simp_all add: canonicalVersion_def Let_def has_prefix_def plain_semver_def plain_key_145)
qed

lemma valid_145: "IsValid plain_semver ''v0.145.0''"
  by (simp add: plain_semver_def plain_key_145)

theorem GenerateUpstreamContent_zero_iff_witness:
  "semver_laws plain_semver \<and> VersionIntro (GenerateUpstreamContent plain_semver sample_changelog) \<noteq> []"
  using GenerateUpstreamContent_zero_iff [OF plain_semver_laws, of sample_changelog] plain_semver_laws
  by (simp add: sample_changelog_def canonical_145 valid_145 split: if_splits)

text \<open>
  The changes below the fold are laid out like the reference: the non-empty sections in the order
  deprecations, new components, enhancements, bug fixes, each its header and its entries with
  the core ones before the contrib ones, separated by one blank line and with no trailing
  newline; or a fixed note when all four are empty. The flag the code keeps to place the
  blank lines computes exactly this.
\<close>

theorem OtherChanges_layout:
  assumes "semver_laws sv" and "valid_versions sv (UpstreamVersions fc) \<noteq> []"
  shows "OtherChanges (GenerateUpstreamContent sv fc) =
    (if Deprecations fc = [] \<and> NewComponents fc = [] \<and> Enhancements fc = [] \<and> BugFixes fc = []
     then ''No upstream highlights for this release.''
     else trim_right (join (section_texts fc) nl) nl)"
proof -
  have "rendered_versions sv (UpstreamVersions fc) \<noteq> []"
    using assms by (simp add: rendered_versions_Nil)
  moreover have "section_texts fc = [] \<longleftrightarrow>
      Deprecations fc = [] \<and> NewComponents fc = [] \<and> Enhancements fc = [] \<and> BugFixes fc = []"
    by (auto simp: section_texts_def)
  ultimately show ?thesis by (simp add: content_fields)
qed

theorem OtherChanges_layout_witness:
  "OtherChanges (GenerateUpstreamContent plain_semver
      (sample_changelog\<lparr>Breaking := [sample_entry ''all'' ''breaking'' ''core'']\<rparr>)) =
   ''No upstream highlights for this release.''"
  using OtherChanges_layout [OF plain_semver_laws,
      of "sample_changelog\<lparr>Breaking := [sample_entry ''all'' ''breaking'' ''core'']\<rparr>"]
  by (simp add: sample_changelog_def canonical_145 valid_145 split: if_splits)

text \<open>
  The versions shown are distinct and in ascending order, come from the entries, and when a v0
  version is among them only the v0 versions are shown.
\<close>

theorem rendered_versions_sorted:
  assumes "semver_laws sv"
  shows "distinct (rendered_versions sv versions) \<and>
    sorted_wrt (\<lambda>v w. Compare sv v w \<le> 0) (rendered_versions sv versions) \<and>
    set (rendered_versions sv versions) =
      (if \<exists>v \<in> set (valid_versions sv versions). Major sv v = ''v0''
       then {v \<in> set (valid_versions sv versions). Major sv v = ''v0''}
       else set (valid_versions sv versions))"
proof -
  let ?s = "sortedUniqueVersions sv versions"
  have "sorted_wrt (\<lambda>v w. Compare sv v w \<le> 0) ?s"
    unfolding sortedUniqueVersions_def by (rule semver_sort(2) [OF assms])
  then show ?thesis
    using sortedUniqueVersions_distinct [OF assms, of versions]
      sortedUniqueVersions_set [OF assms, of versions]
    by (auto simp: rendered_versions_eq [OF assms] sorted_wrt_filter)
qed

theorem rendered_versions_sorted_witness:
  "semver_laws plain_semver \<and> distinct (rendered_versions plain_semver [''0.145.0'', ''v0.145.0''])"
  using rendered_versions_sorted [OF plain_semver_laws, of "[''0.145.0'', ''v0.145.0'']"]
    plain_semver_laws by blast

text \<open>
  \<open>highestVersion\<close> is the empty string exactly when no version is valid, and otherwise it is one
  of the valid versions and none compares above it.
\<close>

theorem highestVersion_max:
  assumes "semver_laws sv"
  shows "if valid_versions sv versions = [] then highestVersion sv versions = []
         else highestVersion sv versions \<in> set (valid_versions sv versions) \<and>
              (\<forall>v \<in> set (valid_versions sv versions). Compare sv v (highestVersion sv versions) \<le> 0)"
  using highestVersion_empty_iff [OF assms, of versions]
    highest_loop_cases [of sv "[]" versions] highest_loop_ge [OF assms, of versions "[]"]
  by (auto simp: highestVersion_def)

theorem highestVersion_max_witness:
  "semver_laws plain_semver \<and> highestVersion plain_semver [''0.145.0''] = ''v0.145.0''"
  using highestVersion_max [OF plain_semver_laws, of "[''0.145.0'']"] plain_semver_laws
  by (simp add: canonical_145 valid_145)

end
