(* ===== verification/Changelog_File.thy ===== *)
theory Changelog_File
  imports Changelog_Generator Go_Os
begin

text \<open>
  \<^verbatim>\<open>internal/changelog-generator/changelog.go\<close>: filling the upstream placeholders of CHANGELOG.md,
  or removing the whole upstream section. The theorems give the exact text for a scaffold as
  \<^verbatim>\<open>make chlog-update\<close> writes it from \<^verbatim>\<open>.chloggen/summary.tmpl\<close>.
\<close>

definition upstreamStartMarker :: string where
  "upstreamStartMarker = ''<!-- upstream-start -->''"
definition upstreamEndMarker :: string where
  "upstreamEndMarker = ''<!-- upstream-end -->''"
definition upstreamVersionMarker :: string where
  "upstreamVersionMarker = ''<!-- upstream-version -->''"
definition upstreamVersionsMarker :: string where
  "upstreamVersionsMarker = ''<!-- upstream-collector-versions -->''"
definition upstreamBreakingMarker :: string where
  "upstreamBreakingMarker = ''<!-- upstream-breaking-changes -->''"
definition upstreamOtherMarker :: string where
  "upstreamOtherMarker = ''<!-- upstream-other-changes -->''"

lemmas marker_defs =
  upstreamStartMarker_def upstreamEndMarker_def upstreamVersionMarker_def upstreamVersionsMarker_def
  upstreamBreakingMarker_def upstreamOtherMarker_def

text \<open>Both indices are taken in \<open>s\<close>; a slice that ends before it starts is never taken.\<close>

definition removeUpstreamSection :: "string \<Rightarrow> string" where
  "removeUpstreamSection s =
     (case (index_of s upstreamStartMarker, index_of s upstreamEndMarker) of
        (Some startIdx, Some endIdx) \<Rightarrow>
          (let endIdx = endIdx + length upstreamEndMarker;
               before = trim_right (take startIdx s) ('' '' @ [CHR 0x09] @ nl);
               after = trim_left (drop endIdx s) ('' '' @ [CHR 0x09] @ nl)
           in before @ nl @ nl @ after)
      | _ \<Rightarrow> s)"

definition fillOrRemovePlaceholder :: "string \<Rightarrow> string \<Rightarrow> string \<Rightarrow> string" where
  "fillOrRemovePlaceholder s placeholder content =
     (if content = [] then replace_all s (nl @ nl @ placeholder @ nl) nl
      else replace_all s placeholder content)"

definition fill_text :: "string \<Rightarrow> UpstreamContent \<Rightarrow> string" where
  "fill_text s content =
     (if VersionIntro content = [] then removeUpstreamSection s
      else
        let s = replace_all s upstreamVersionMarker (VersionIntro content);
            s = fillOrRemovePlaceholder s upstreamVersionsMarker (CollectorVersions content);
            s = fillOrRemovePlaceholder s upstreamBreakingMarker (BreakingChanges content);
            s = fillOrRemovePlaceholder s upstreamOtherMarker (OtherChanges content);
            s = replace_all s (upstreamStartMarker @ nl) []
        in replace_all s (nl @ nl @ upstreamEndMarker) nl)"

definition FillUpstreamPlaceholders :: "os \<Rightarrow> string \<Rightarrow> UpstreamContent \<Rightarrow> os result" where
  "FillUpstreamPlaceholders w path content =
     (case read_file w path of
        Inl err \<Rightarrow> Inl (Wrapf ''reading changelog: %w'' [] err)
      | Inr data \<Rightarrow> write_file w path (fill_text data content))"

section \<open>Texts without markers\<close>

text \<open>A clean text has nothing that looks like the start of an upstream marker.\<close>

definition clean :: "string \<Rightarrow> bool" where
  "clean x \<longleftrightarrow> \<not> sublist ''<!-- upstream-'' x"

definition marker_names :: "string set" where
  "marker_names = {upstreamStartMarker, upstreamEndMarker, upstreamVersionMarker,
     upstreamVersionsMarker, upstreamBreakingMarker, upstreamOtherMarker}"

lemma marker_head_unique: "m \<in> marker_names \<Longrightarrow> head_unique m"
  by (auto simp: marker_names_def marker_defs head_unique_def)

lemma marker_nl_head_unique: "m \<in> marker_names \<Longrightarrow> head_unique (m @ nl)"
  by (auto simp: marker_names_def marker_defs head_unique_def)

lemma marker_prefix: "m \<in> marker_names \<Longrightarrow> prefix ''<!-- upstream-'' m"
  by (auto simp: marker_names_def marker_defs)

lemma markers_not_prefix: "\<forall>m \<in> marker_names. \<forall>q \<in> marker_names. prefix m q \<longrightarrow> m = q"
  unfolding marker_names_def marker_defs by simp

lemma markers_apart:
  assumes "m \<in> marker_names" and "q \<in> marker_names" and "prefix m (q @ y)"
  shows "m = q"
proof -
  have "prefix m q \<or> prefix q m" using assms(3) by (intro prefix_same_cases [of m "q @ y" q]) auto
  then show ?thesis using markers_not_prefix assms(1,2) by blast
qed

lemma clean_sublist: "clean x \<Longrightarrow> sublist y x \<Longrightarrow> clean y"
  unfolding clean_def sublist_def by (metis append.assoc)

lemma clean_append: "clean (x @ y) \<Longrightarrow> clean x" "clean (x @ y) \<Longrightarrow> clean y"
  by (auto elim: clean_sublist)

lemma clean_no_marker: "clean x \<Longrightarrow> m \<in> marker_names \<Longrightarrow> \<not> sublist (m @ t) x"
  unfolding clean_def using marker_prefix [of m]
  by (auto simp: prefix_def sublist_def) (metis append.assoc)

text \<open>A marker that does not occur in \<open>x\<close> or \<open>y\<close> does not occur in \<open>x @ q @ y\<close> for another marker \<open>q\<close>.\<close>

lemma head_unique_overlap:
  assumes "head_unique p" and "c # a @ r = p" and "head_unique q" and "r \<noteq> []" and "hd r = hd q"
    and "hd p = hd q"
  shows False
proof -
  have "hd r \<in> set (tl p)" using assms(2,4) by (cases r) auto
  with assms show False by (simp add: head_unique_def)
qed

lemma other_marker_absent:
  assumes p: "head_unique p" and q: "head_unique q" and hd: "hd p = hd q"
    and x: "\<not> sublist p x" and y: "\<not> sublist p y"
    and apart: "\<And>z. \<not> prefix p (q @ z)" and len: "CHR ''>'' \<in> set q"
  shows "\<not> sublist p (x @ q @ y)"
  using x
proof (induction x)
  case Nil
  have "\<not> sublist p (s @ y)" if "suffix s (tl q)" for s
    using that
  proof (induction s)
    case Nil
    with y show ?case by simp
  next
    case (Cons c s)
    have "c \<in> set (tl q)" using Cons.prems by (auto simp: suffix_def)
    then have "c \<noteq> hd p" using q hd by (auto simp: head_unique_def)
    then have "\<not> prefix p (c # s @ y)" using p by (cases p) (auto simp: head_unique_def)
    moreover have "\<not> sublist p (s @ y)" using Cons by (auto dest: suffix_ConsD)
    ultimately show ?case by (simp add: sublist_Cons_right)
  qed
  then have "\<not> sublist p (tl q @ y)" by simp
  moreover have "q = hd q # tl q" using q by (simp add: head_unique_def)
  ultimately show ?case using apart [of y] by (metis append_Cons append_Nil sublist_Cons_right)
next
  case (Cons c x)
  have "\<not> prefix p (c # x @ q @ y)"
  proof
    assume pre: "prefix p (c # x @ q @ y)"
    have "\<not> prefix p (c # x)" using Cons.prems prefix_imp_sublist by blast
    with pre have "prefix (c # x) p" and "c # x \<noteq> p"
      using prefix_same_cases [of p "c # x @ q @ y" "c # x"] by auto
    then obtain r where r: "p = c # x @ r" "r \<noteq> []" by (auto simp: prefix_def)
    with pre have "prefix r (q @ y)" by (simp add: prefix_def)
    with r(2) q have "hd r = hd q" by (cases r; cases q) (auto simp: head_unique_def)
    then show False using head_unique_overlap [OF p _ q r(2) _ hd] r(1) by blast
  qed
  moreover have "\<not> sublist p (x @ q @ y)" using Cons by (simp add: sublist_Cons_right)
  ultimately show ?case by (simp add: sublist_Cons_right)
qed

lemma hd_marker: "m \<in> marker_names \<Longrightarrow> hd m = CHR ''<'' \<and> hd (m @ t) = CHR ''<'' \<and> CHR ''>'' \<in> set m"
  by (auto simp: marker_names_def marker_defs)

lemma marker_absent_step:
  assumes "m \<in> marker_names" and "q \<in> marker_names" and "m \<noteq> q" and "clean x" and "\<not> sublist m y"
  shows "\<not> sublist m (x @ q @ y)"
proof (rule other_marker_absent [OF marker_head_unique [OF assms(1)] marker_head_unique [OF assms(2)]])
  show "\<not> sublist m x" using clean_no_marker [OF assms(4,1), of "[]"] by simp
  show "\<not> prefix m (q @ z)" for z using markers_apart assms(1-3) by blast
qed (use hd_marker [OF assms(1), of "[]"] hd_marker [OF assms(2), of "[]"] assms(5) in auto)

lemma clean_absent: "clean x \<Longrightarrow> m \<in> marker_names \<Longrightarrow> \<not> sublist m x"
  using clean_no_marker [of x m "[]"] by simp

section \<open>Documents of texts and markers\<close>

text \<open>A document is a sequence of texts, each followed by a marker, and a last text.\<close>

fun doc :: "(string \<times> string) list \<Rightarrow> string \<Rightarrow> string" where
  "doc [] y = y"
| "doc ((x, q) # ps) y = x @ q @ doc ps y"

definition doc_ok :: "string set \<Rightarrow> (string \<times> string) list \<Rightarrow> bool" where
  "doc_ok ms ps \<longleftrightarrow> (\<forall>(x, q) \<in> set ps. clean x \<and> q \<in> marker_names - ms)"

lemma doc_append: "doc ps (y @ z) = doc ps y @ z"
  by (induction ps) auto

lemma doc_absent:
  "doc_ok {m} ps \<Longrightarrow> m \<in> marker_names \<Longrightarrow> \<not> sublist m y \<Longrightarrow> \<not> sublist m (doc ps y)"
proof (induction ps)
  case (Cons xq ps)
  obtain x q where xq: "xq = (x, q)" by (cases xq)
  with Cons.prems(1) have "clean x" "q \<in> marker_names" "m \<noteq> q" and "doc_ok {m} ps"
    by (auto simp: doc_ok_def)
  moreover from this Cons have "\<not> sublist m (doc ps y)" by blast
  ultimately show ?case
    unfolding xq doc.simps using marker_absent_step Cons.prems(2) by blast
qed simp

text \<open>Replacing a marker that occurs once.\<close>

lemma doc_replace:
  assumes "m \<in> marker_names" and "doc_ok {m} ps" and "clean x" and "doc_ok {m} rs" and "clean y"
  shows "replace_all (doc ps (x @ m @ doc rs y)) m c = doc ps (x @ c @ doc rs y)"
proof -
  have "\<not> sublist m (doc ps x)" using assms clean_absent doc_absent by blast
  then have "replace_all (doc ps x @ m @ doc rs y) m c =
      doc ps x @ c @ replace_all (doc rs y) m c"
    by (rule replace_all_once [OF marker_head_unique [OF assms(1)]])
  moreover have "\<not> sublist m (doc rs y)" using assms clean_absent doc_absent by blast
  ultimately show ?thesis by (simp add: doc_append replace_all_absent)
qed

text \<open>A pattern of leading characters and a marker is found where the marker is.\<close>

lemma index_of_prefixed:
  assumes "head_unique p" and "\<not> sublist p (a @ q)"
  shows "index_of (a @ q @ p @ b) (q @ p) = Some (length a)"
proof -
  let ?s = "a @ q @ p @ b"
  have at: "index_of ?s p = Some (length a + length q)"
    using index_of_append_head_unique [OF assms, of b] by simp
  have "sublist (q @ p) ?s" unfolding sublist_def by (metis append.assoc)
  then obtain j where j: "index_of ?s (q @ p) = Some j"
    using index_of_None_iff by fastforce
  have "prefix (q @ p) (drop (length a) ?s)" by (simp add: prefix_def)
  then have "j \<le> length a" using index_of_least [OF j] not_le by blast
  moreover have "length a \<le> j"
  proof (rule ccontr)
    assume "\<not> length a \<le> j"
    moreover obtain r where "drop j ?s = q @ p @ r"
      using index_of_prefix_at [OF j] by (auto simp: prefix_def)
    then have "drop (length q + j) ?s = p @ r" unfolding drop_drop [symmetric] by simp
    then have "prefix p (drop (j + length q) ?s)" by (simp only: add.commute prefixI)
    ultimately show False using index_of_least [OF at, of "j + length q"] by simp
  qed
  ultimately show ?thesis using j by simp
qed

lemma replace_all_prefixed:
  assumes "head_unique p" and "\<not> sublist p (a @ q)"
  shows "replace_all (a @ q @ p @ b) (q @ p) new = a @ new @ replace_all b (q @ p) new"
  using replace_all_at [of a "q @ p" b new] index_of_prefixed [OF assms] assms(1)
  by (simp add: head_unique_def)

text \<open>A newline is in no marker, so it separates a clean text from what follows.\<close>

lemma clean_nl: "clean (x @ nl @ y) \<longleftrightarrow> clean x \<and> clean y"
proof -
  have "sublist p (x @ nl @ y) \<longleftrightarrow> sublist p x \<or> sublist p y"
    if "CHR 0x0A \<notin> set p" for p
    using that
  proof (induction x)
    case Nil
    then show ?case by (cases p) (auto simp: sublist_Cons_right)
  next
    case (Cons c x)
    have "prefix p (c # x @ nl @ y) \<longleftrightarrow> prefix p (c # x)"
    proof
      assume pre: "prefix p (c # x @ nl @ y)"
      show "prefix p (c # x)"
      proof (rule ccontr)
        assume "\<not> prefix p (c # x)"
        with pre obtain r where "p = c # x @ r" "r \<noteq> []"
          using prefix_same_cases [of p "c # x @ nl @ y" "c # x"] by (auto simp: prefix_def)
        with pre have "hd r = CHR 0x0A" by (cases r) auto
        with \<open>p = c # x @ r\<close> \<open>r \<noteq> []\<close> Cons.prems show False by (cases r) auto
      qed
    next
      assume "prefix p (c # x)"
      then show "prefix p (c # x @ nl @ y)" using prefix_prefix [of p "c # x" "nl @ y"] by simp
    qed
    with Cons show ?case by (auto simp: sublist_Cons_right)
  qed
  then show ?thesis by (simp add: clean_def)
qed

lemma clean_nls:
  "clean (nl @ x) = clean x" "clean (x @ nl) = clean x" "clean (x @ nl @ nl) = clean x" "clean nl"
  "clean (nl @ nl)" "clean []"
proof -
  have e: "clean []" by (simp add: clean_def)
  show "clean []" by (rule e)
  show 1: "clean (nl @ x) = clean x" for x using clean_nl [of "[]" x] e by simp
  show 2: "clean (x @ nl) = clean x" for x using clean_nl [of x "[]"] e by simp
  show "clean nl" using 2 [of "[]"] e by simp
  then show "clean (nl @ nl)" by (simp only: 2)
  show "clean (x @ nl @ nl) = clean x" using 2 [of "x @ nl"] 2 [of x] by simp
qed

section \<open>Filling the scaffold\<close>

text \<open>
  The scaffold: what precedes the section, the start marker on its own line, the intro text
  around the version marker, the slots for the versions and the breaking changes, the details
  around the other changes, the end marker, and the rest of the file.
\<close>

record scaffold =
  sc_before :: string
  sc_intro1 :: string
  sc_intro2 :: string
  sc_details1 :: string
  sc_details2 :: string
  sc_after :: string

definition scaffold_text :: "scaffold \<Rightarrow> string" where
  "scaffold_text sc =
     sc_before sc @ upstreamStartMarker @ nl @ sc_intro1 sc @ upstreamVersionMarker @ sc_intro2 sc @
     upstreamVersionsMarker @ nl @ nl @ upstreamBreakingMarker @ nl @ sc_details1 sc @
     upstreamOtherMarker @ sc_details2 sc @ nl @ nl @ upstreamEndMarker @ sc_after sc"

text \<open>The section with the content in its slots; without breaking changes one newline is left.\<close>

definition filled_body :: "scaffold \<Rightarrow> UpstreamContent \<Rightarrow> string" where
  "filled_body sc c =
     sc_intro1 sc @ VersionIntro c @ sc_intro2 sc @ CollectorVersions c @
     (if BreakingChanges c = [] then nl else nl @ nl @ BreakingChanges c @ nl) @
     sc_details1 sc @ OtherChanges c @ sc_details2 sc"

lemma filled_body_clean:
  assumes "clean (filled_body sc c)"
  shows "clean (sc_intro1 sc)" "clean (sc_intro2 sc)" "clean (sc_details1 sc)"
    "clean (sc_details2 sc)" "clean (sc_intro1 sc @ VersionIntro c @ sc_intro2 sc)"
    "clean (sc_intro1 sc @ VersionIntro c @ sc_intro2 sc @ CollectorVersions c)"
    "clean (nl @ sc_details1 sc)"
    "BreakingChanges c \<noteq> [] \<Longrightarrow>
       clean (sc_intro1 sc @ VersionIntro c @ sc_intro2 sc @ CollectorVersions c @ nl @ nl @
         BreakingChanges c @ nl @ sc_details1 sc)"
    "BreakingChanges c = [] \<Longrightarrow>
       clean (sc_intro1 sc @ VersionIntro c @ sc_intro2 sc @ CollectorVersions c @ nl @ sc_details1 sc)"
proof -
  let ?b = "if BreakingChanges c = [] then nl else nl @ nl @ BreakingChanges c @ nl"
  note sub = clean_sublist [OF assms]
  have mid: "sublist x (u @ x @ v)" for u x v :: string by simp
  show "clean (sc_intro1 sc)" by (rule sub) (simp add: filled_body_def)
  show "clean (sc_intro2 sc)"
    using mid [of "sc_intro2 sc" "sc_intro1 sc @ VersionIntro c"]
    by (intro sub) (simp add: filled_body_def)
  show d1: "clean (sc_details1 sc)"
    using mid [of "sc_details1 sc" "sc_intro1 sc @ VersionIntro c @ sc_intro2 sc @ CollectorVersions c @ ?b"]
    by (intro sub) (simp add: filled_body_def)
  show "clean (sc_details2 sc)"
    using mid [of "sc_details2 sc" "sc_intro1 sc @ VersionIntro c @ sc_intro2 sc @ CollectorVersions c @
        ?b @ sc_details1 sc @ OtherChanges c" "[]"]
    by (intro sub) (simp add: filled_body_def)
  show "clean (sc_intro1 sc @ VersionIntro c @ sc_intro2 sc)"
    using mid [of "sc_intro1 sc @ VersionIntro c @ sc_intro2 sc" "[]"]
    by (intro sub) (simp add: filled_body_def)
  show "clean (sc_intro1 sc @ VersionIntro c @ sc_intro2 sc @ CollectorVersions c)"
    using mid [of "sc_intro1 sc @ VersionIntro c @ sc_intro2 sc @ CollectorVersions c" "[]"]
    by (intro sub) (simp add: filled_body_def)
  show "clean (nl @ sc_details1 sc)"
    using clean_nl [of "[]" "sc_details1 sc"] d1 by (simp add: clean_def)
  show "clean (sc_intro1 sc @ VersionIntro c @ sc_intro2 sc @ CollectorVersions c @ nl @ nl @
         BreakingChanges c @ nl @ sc_details1 sc)" if "BreakingChanges c \<noteq> []"
    using that mid [of "sc_intro1 sc @ VersionIntro c @ sc_intro2 sc @ CollectorVersions c @ nl @ nl @
         BreakingChanges c @ nl @ sc_details1 sc" "[]"]
    by (intro sub) (simp add: filled_body_def)
  show "clean (sc_intro1 sc @ VersionIntro c @ sc_intro2 sc @ CollectorVersions c @ nl @ sc_details1 sc)"
    if "BreakingChanges c = []"
    using that mid [of "sc_intro1 sc @ VersionIntro c @ sc_intro2 sc @ CollectorVersions c @ nl @
         sc_details1 sc" "[]"]
    by (intro sub) (simp add: filled_body_def)
qed

lemma sublist_part: "\<not> sublist m x \<Longrightarrow> \<not> sublist (q @ m @ t) x"
  unfolding sublist_def by (metis append.assoc)

text \<open>Removing the line of a marker: the pattern is the marker with the newlines around it.\<close>

lemma doc_remove_line:
  assumes "m \<in> marker_names" and "doc_ok {m} ps" and "clean x" and "doc_ok {m} rs" and "clean y"
  shows "replace_all (doc ps (x @ nl @ nl @ m @ nl @ doc rs y)) (nl @ nl @ m @ nl) nl =
    doc ps (x @ nl @ doc rs y)"
proof -
  have "clean (x @ nl @ nl)"
    using clean_nl [of x nl] clean_nl [of "[]" "[]"] assms(3) by (simp add: clean_def)
  then have "\<not> sublist m (doc ps (x @ nl @ nl))" using assms(1,2) clean_absent doc_absent by blast
  then have "\<not> sublist (m @ nl) (doc ps x @ nl @ nl)"
    using sublist_part [of m _ "[]" nl] by (simp add: doc_append)
  then have "replace_all (doc ps x @ (nl @ nl) @ (m @ nl) @ doc rs y) ((nl @ nl) @ m @ nl) nl =
      doc ps x @ nl @ replace_all (doc rs y) ((nl @ nl) @ m @ nl) nl"
    by (rule replace_all_prefixed [OF marker_nl_head_unique [OF assms(1)]])
  moreover have "\<not> sublist ((nl @ nl) @ m @ nl) (doc rs y)"
    by (rule sublist_part) (use assms clean_absent doc_absent in blast)
  ultimately show ?thesis by (simp add: doc_append replace_all_absent)
qed

text \<open>The six steps of \<open>fill_text\<close> on the scaffold.\<close>

lemma fill_text_scaffold:
  assumes before: "clean (sc_before sc @ filled_body sc c)" and after: "clean (sc_after sc)"
    and content: "VersionIntro c \<noteq> []" "CollectorVersions c \<noteq> []" "OtherChanges c \<noteq> []"
  shows "fill_text (scaffold_text sc) c = sc_before sc @ filled_body sc c @ nl @ sc_after sc"
proof -
  let ?S = upstreamStartMarker and ?E = upstreamEndMarker and ?V = upstreamVersionMarker
  let ?W = upstreamVersionsMarker and ?B = upstreamBreakingMarker and ?O = upstreamOtherMarker
  let ?pre = "[(sc_before sc, ?S)]" and ?tail = "sc_details2 sc @ nl @ nl"
  let ?head = "nl @ sc_intro1 sc @ VersionIntro c @ sc_intro2 sc @ CollectorVersions c"
  let ?brk = "if BreakingChanges c = [] then nl else nl @ nl @ BreakingChanges c @ nl"
  have body: "clean (filled_body sc c)" and bf: "clean (sc_before sc)"
    using clean_append [OF before] by blast+
  note parts = filled_body_clean [OF body]
  have tail: "clean ?tail" using parts(4) by (simp only: clean_nls)
  have names: "?S \<in> marker_names" "?E \<in> marker_names" "?V \<in> marker_names" "?W \<in> marker_names"
    "?B \<in> marker_names" "?O \<in> marker_names"
    by (simp_all add: marker_names_def)
  have diff: "?V \<noteq> ?S" "?W \<noteq> ?S" "?B \<noteq> ?S" "?O \<noteq> ?S" "?E \<noteq> ?S" "?V \<noteq> ?W" "?V \<noteq> ?B" "?V \<noteq> ?O" "?V \<noteq> ?E"
    "?W \<noteq> ?B" "?W \<noteq> ?O" "?W \<noteq> ?E" "?B \<noteq> ?O" "?B \<noteq> ?E" "?O \<noteq> ?E"
    by (simp_all add: marker_defs)
  note cnl = clean_nls
  note facts = names diff diff [symmetric] parts tail clean_nls bf after
  let ?r4 = "[(?tail, ?E)]"
  let ?r3 = "[(sc_details1 sc, ?O), (?tail, ?E)]"
  let ?r3' = "[(nl @ sc_details1 sc, ?O), (?tail, ?E)]"
  let ?r2 = "(nl @ nl, ?B) # ?r3'"
  let ?r1 = "(sc_intro2 sc, ?W) # ?r2"
  have s0: "scaffold_text sc = doc ?pre ((nl @ sc_intro1 sc) @ ?V @ doc ?r1 (sc_after sc))"
    by (simp add: scaffold_text_def)
  have "replace_all (scaffold_text sc) ?V (VersionIntro c) =
      doc ?pre ((nl @ sc_intro1 sc) @ VersionIntro c @ doc ?r1 (sc_after sc))"
    unfolding s0 by (rule doc_replace) (auto simp: doc_ok_def facts simp del: append.simps)
  then have s1: "replace_all (scaffold_text sc) ?V (VersionIntro c) =
      doc ?pre ((nl @ sc_intro1 sc @ VersionIntro c @ sc_intro2 sc) @ ?W @ doc ?r2 (sc_after sc))"
    by simp
  have "replace_all \<dots> ?W (CollectorVersions c) = doc ?pre ((nl @ sc_intro1 sc @ VersionIntro c @
      sc_intro2 sc) @ CollectorVersions c @ doc ?r2 (sc_after sc))"
    by (rule doc_replace) (auto simp: doc_ok_def facts simp del: append.simps)
  then have s2: "fillOrRemovePlaceholder (replace_all (scaffold_text sc) ?V (VersionIntro c)) ?W
      (CollectorVersions c) = doc ?pre (?head @ nl @ nl @ ?B @ nl @ doc ?r3 (sc_after sc))"
    unfolding s1 fillOrRemovePlaceholder_def using content(2) by simp
  have s3: "fillOrRemovePlaceholder (doc ?pre (?head @ nl @ nl @ ?B @ nl @ doc ?r3 (sc_after sc))) ?B
      (BreakingChanges c) = doc ?pre ((?head @ ?brk @ sc_details1 sc) @ ?O @ doc ?r4 (sc_after sc))"
  proof (cases "BreakingChanges c = []")
    case True
    have "replace_all (doc ?pre (?head @ nl @ nl @ ?B @ nl @ doc ?r3 (sc_after sc)))
        (nl @ nl @ ?B @ nl) nl = doc ?pre (?head @ nl @ doc ?r3 (sc_after sc))"
      by (rule doc_remove_line) (auto simp: doc_ok_def facts simp del: append.simps)
    with True show ?thesis by (simp add: fillOrRemovePlaceholder_def)
  next
    case False
    have "replace_all (doc ?pre ((?head @ nl @ nl) @ ?B @ doc ?r3' (sc_after sc))) ?B (BreakingChanges c) =
        doc ?pre ((?head @ nl @ nl) @ BreakingChanges c @ doc ?r3' (sc_after sc))"
    proof (rule doc_replace)
      have "clean ?head" using parts(6) by (simp only: clean_nls)
      then show "clean (?head @ nl @ nl)" by (simp only: clean_nls)
    qed (auto simp: doc_ok_def facts simp del: append.simps)
    with False show ?thesis by (simp add: fillOrRemovePlaceholder_def)
  qed
  have hb: "clean (?head @ ?brk @ sc_details1 sc)"
    using parts(8,9) cnl(1) by (cases "BreakingChanges c = []") (simp_all only: if_True if_False append_assoc, simp_all)
  have s4: "fillOrRemovePlaceholder (doc ?pre ((?head @ ?brk @ sc_details1 sc) @ ?O @ doc ?r4 (sc_after sc)))
      ?O (OtherChanges c) = doc ?pre ((?head @ ?brk @ sc_details1 sc) @ OtherChanges c @ doc ?r4 (sc_after sc))"
    unfolding fillOrRemovePlaceholder_def using content(3)
    by (simp only: if_False) (rule doc_replace, auto simp: doc_ok_def facts hb simp del: append.simps)
  have s5: "doc ?pre ((?head @ ?brk @ sc_details1 sc) @ OtherChanges c @ doc ?r4 (sc_after sc)) =
      sc_before sc @ (?S @ nl) @ doc [(filled_body sc c @ nl @ nl, ?E)] (sc_after sc)"
    by (simp add: filled_body_def)
  have "clean (filled_body sc c @ nl @ nl)"
    using body by (simp only: clean_nls)
  then have "\<not> sublist ?S (doc [(filled_body sc c @ nl @ nl, ?E)] (sc_after sc))"
    by (intro doc_absent) (auto simp: doc_ok_def facts clean_absent)
  then have absent: "\<not> sublist (?S @ nl) (doc [(filled_body sc c @ nl @ nl, ?E)] (sc_after sc))"
    using sublist_part [of ?S _ "[]" nl] by simp
  have "replace_all (sc_before sc @ (?S @ nl) @ doc [(filled_body sc c @ nl @ nl, ?E)] (sc_after sc))
      (?S @ nl) [] = sc_before sc @ [] @ doc [(filled_body sc c @ nl @ nl, ?E)] (sc_after sc)"
    using replace_all_once [OF marker_nl_head_unique [OF names(1)], of "sc_before sc"]
      clean_no_marker [OF bf names(1), of nl] replace_all_absent [OF absent] by simp
  then have s6: "replace_all (sc_before sc @ (?S @ nl) @ doc [(filled_body sc c @ nl @ nl, ?E)] (sc_after sc))
      (?S @ nl) [] = (sc_before sc @ filled_body sc c) @ (nl @ nl) @ ?E @ sc_after sc"
    by simp
  have "clean ((sc_before sc @ filled_body sc c) @ nl @ nl)"
    using before by (simp only: clean_nls)
  then have "replace_all ((sc_before sc @ filled_body sc c) @ (nl @ nl) @ ?E @ sc_after sc) ((nl @ nl) @ ?E) nl =
      (sc_before sc @ filled_body sc c) @ nl @ replace_all (sc_after sc) ((nl @ nl) @ ?E) nl"
    using names(2) clean_absent by (intro replace_all_prefixed marker_head_unique) auto
  moreover have "replace_all (sc_after sc) ((nl @ nl) @ ?E) nl = sc_after sc"
    using sublist_part [of ?E "sc_after sc" "nl @ nl" "[]"] clean_absent [OF after names(2)]
    by (intro replace_all_absent) simp
  ultimately have s7: "replace_all ((sc_before sc @ filled_body sc c) @ (nl @ nl) @ ?E @ sc_after sc)
      (nl @ nl @ ?E) nl = sc_before sc @ filled_body sc c @ nl @ sc_after sc"
    by (simp only: append_assoc)
  show ?thesis
    unfolding fill_text_def Let_def if_not_P [OF content(1)] s2 s3 s4 s5 s6 by (rule s7)
qed

section \<open>Properties\<close>

text \<open>What a run of \<open>FillUpstreamPlaceholders\<close> does to the file and to the other files.\<close>

lemma FillUpstreamPlaceholders_effect:
  assumes "read_file w path = Inr d" and "os_writable w path"
  shows "\<exists>w'. FillUpstreamPlaceholders w path c = Inr w' \<and> read_file w' path = Inr (fill_text d c) \<and>
    (\<forall>q. q \<noteq> path \<longrightarrow> read_file w' q = read_file w q) \<and> os_stdout w' = os_stdout w \<and> os_writable w' path"
proof -
  obtain w' where w': "write_file w path (fill_text d c) = Inr w'" "os_stdout w' = os_stdout w" "os_writable w' path"
    using assms(2) by (simp add: write_file_def)
  moreover from this have "FillUpstreamPlaceholders w path c = Inr w'"
    using assms(1) by (simp add: FillUpstreamPlaceholders_def)
  ultimately show ?thesis
    using osfs.read_modify_write [of w path d "\<lambda>d. fill_text d c" w'] assms(1) w' by auto
qed

text \<open>A text without markers is left alone, whatever the content, and so is its file.\<close>

lemma fill_text_no_markers:
  assumes "\<forall>m \<in> marker_names. \<not> sublist m s"
  shows "fill_text s c = s"
proof -
  have no: "\<not> sublist m s" if "m \<in> marker_names" for m using that assms by blast
  have line: "\<not> sublist (q @ m @ t) s" if "m \<in> marker_names" for q m t using sublist_part [OF no [OF that]] .
  have end_line: "\<not> sublist (nl @ nl @ upstreamEndMarker) s" and start_line: "\<not> sublist (upstreamStartMarker @ nl) s"
    using line [of upstreamEndMarker "nl @ nl" "[]"] line [of upstreamStartMarker "[]" nl]
    by (simp_all add: marker_names_def)
  have slot: "fillOrRemovePlaceholder s m x = s" if "m \<in> marker_names" for m x
    using no [OF that] line [OF that, of "nl @ nl" nl] by (simp add: fillOrRemovePlaceholder_def replace_all_absent)
  have "removeUpstreamSection s = s"
    using no [of upstreamStartMarker] by (simp add: removeUpstreamSection_def marker_names_def index_of_None_iff [THEN iffD2])
  moreover have "replace_all s upstreamVersionMarker x = s" for x
    by (rule replace_all_absent [OF no]) (simp add: marker_names_def)
  ultimately show ?thesis
    using end_line start_line by (simp add: fill_text_def slot marker_names_def replace_all_absent)
qed

lemma fill_again:
  assumes "read_file w path = Inr s" and "os_writable w path" and "\<forall>m \<in> marker_names. \<not> sublist m s"
  shows "FillUpstreamPlaceholders w path c = Inr w"
  using assms
  by (auto simp: FillUpstreamPlaceholders_def fill_text_no_markers write_file_def read_file_def fun_upd_idem
      split: option.splits if_splits)

text \<open>
  C5: filling the changelog scaffold in place: the file ends up with the text before the section,
  the intro with the version list in its slot, the release links, the breaking changes (or no
  stray blank line when there are none), the other changes, and the rest of the file, with all
  six markers gone; no other file changes, and filling again, with any content or none, changes nothing. The texts around the slots and the content may not
  themselves contain upstream markers.
\<close>

theorem FillUpstreamPlaceholders_scaffold:
  assumes "read_file w path = Inr (scaffold_text sc)" and "os_writable w path"
    and "clean (sc_before sc @ filled_body sc c)" and "clean (sc_after sc)"
    and "VersionIntro c \<noteq> []" and "CollectorVersions c \<noteq> []" and "OtherChanges c \<noteq> []"
  shows "\<exists>w'. FillUpstreamPlaceholders w path c = Inr w' \<and>
    read_file w' path = Inr (sc_before sc @ filled_body sc c @ nl @ sc_after sc) \<and>
    (\<forall>m \<in> marker_names. \<not> sublist m (sc_before sc @ filled_body sc c @ nl @ sc_after sc)) \<and>
    (\<forall>q. q \<noteq> path \<longrightarrow> read_file w' q = read_file w q) \<and>
    (\<forall>c'. FillUpstreamPlaceholders w' path c' = Inr w')"
proof -
  have "clean ((sc_before sc @ filled_body sc c) @ nl @ sc_after sc)"
    using clean_nl assms(3,4) by blast
  then have none: "\<forall>m \<in> marker_names. \<not> sublist m (sc_before sc @ filled_body sc c @ nl @ sc_after sc)"
    using clean_absent by (simp only: append_assoc) blast
  obtain w' where w': "FillUpstreamPlaceholders w path c = Inr w'" "os_writable w' path"
      "read_file w' path = Inr (sc_before sc @ filled_body sc c @ nl @ sc_after sc)"
      "\<forall>q. q \<noteq> path \<longrightarrow> read_file w' q = read_file w q"
    using FillUpstreamPlaceholders_effect [OF assms(1,2), of c] fill_text_scaffold [OF assms(3-7)] by auto
  show ?thesis by (intro exI [of _ w'] conjI allI w' none fill_again [OF w'(3,2) none])
qed

definition sample_scaffold :: scaffold where
  "sample_scaffold = \<lparr>sc_before = ''## v1'', sc_intro1 = ''includes '', sc_intro2 = '' of it'',
     sc_details1 = ''<details>'', sc_details2 = ''---'', sc_after = ''rest''\<rparr>"

definition sample_content :: UpstreamContent where
  "sample_content = \<lparr>VersionIntro = ''v0.1.0'', CollectorVersions = ''links'', BreakingChanges = [],
     OtherChanges = ''none''\<rparr>"

definition sample_os :: "string \<Rightarrow> os" where
  "sample_os text = \<lparr>os_files = [''CHANGELOG.md'' \<mapsto> text], os_readable = (\<lambda>_. True),
     os_writable = (\<lambda>_. True), os_env = Map.empty, os_stdout = []\<rparr>"

lemma sample_os_simps:
  "read_file (sample_os text) ''CHANGELOG.md'' = Inr text" "os_writable (sample_os text) p"
  by (simp_all add: sample_os_def read_file_def)

theorem FillUpstreamPlaceholders_scaffold_witness:
  "\<exists>w'. FillUpstreamPlaceholders (sample_os (scaffold_text sample_scaffold)) ''CHANGELOG.md''
      sample_content = Inr w' \<and>
    read_file w' ''CHANGELOG.md'' = Inr (sc_before sample_scaffold @
      filled_body sample_scaffold sample_content @ nl @ sc_after sample_scaffold)"
proof -
  have "clean (sc_before sample_scaffold @ filled_body sample_scaffold sample_content)"
    "clean (sc_after sample_scaffold)"
    by (simp_all add: clean_def sample_scaffold_def sample_content_def filled_body_def sublist_Cons_right)
  then show ?thesis
    using FillUpstreamPlaceholders_scaffold [OF sample_os_simps(1,2)]
    by (fastforce simp: sample_content_def)
qed

text \<open>
  Without an upstream release the whole section goes: everything from the start marker to the
  end marker is removed, and the text before and after it is joined by exactly one blank line.
\<close>

theorem FillUpstreamPlaceholders_remove:
  assumes "read_file w path = Inr (before @ upstreamStartMarker @ mid @ upstreamEndMarker @ rest)"
    and "os_writable w path"
    and "\<not> sublist upstreamStartMarker before"
    and "\<not> sublist upstreamEndMarker (before @ upstreamStartMarker @ mid)"
  shows "\<exists>w'. FillUpstreamPlaceholders w path zero_content = Inr w' \<and>
    read_file w' path =
      Inr (trim_right before ('' '' @ [CHR 0x09] @ nl) @ nl @ nl @ trim_left rest ('' '' @ [CHR 0x09] @ nl)) \<and>
    (\<forall>q. q \<noteq> path \<longrightarrow> read_file w' q = read_file w q)"
proof -
  let ?s = "before @ upstreamStartMarker @ mid @ upstreamEndMarker @ rest"
  have names: "upstreamStartMarker \<in> marker_names" "upstreamEndMarker \<in> marker_names"
    by (simp_all add: marker_names_def)
  have "index_of ?s upstreamStartMarker = Some (length before)"
    by (rule index_of_append_head_unique [OF marker_head_unique [OF names(1)] assms(3)])
  moreover have "index_of ?s upstreamEndMarker =
      Some (length before + length upstreamStartMarker + length mid)"
    using index_of_append_head_unique [OF marker_head_unique [OF names(2)] assms(4), of rest]
    by (simp add: add.assoc)
  ultimately have "fill_text ?s zero_content = trim_right before ('' '' @ [CHR 0x09] @ nl) @ nl @ nl @
      trim_left rest ('' '' @ [CHR 0x09] @ nl)"
    by (simp add: fill_text_def zero_content_def removeUpstreamSection_def Let_def)
  with FillUpstreamPlaceholders_effect [OF assms(1,2), of zero_content] show ?thesis by auto
qed

theorem FillUpstreamPlaceholders_remove_witness:
  "\<exists>w'. FillUpstreamPlaceholders (sample_os (''a'' @ upstreamStartMarker @ ''b'' @ upstreamEndMarker @
      '' c'')) ''CHANGELOG.md'' zero_content = Inr w' \<and>
    read_file w' ''CHANGELOG.md'' = Inr (''a'' @ nl @ nl @ ''c'')"
proof -
  have "\<not> sublist upstreamStartMarker ''a''"
    "\<not> sublist upstreamEndMarker (''a'' @ upstreamStartMarker @ ''b'')"
    by (simp_all add: marker_defs sublist_Cons_right)
  from FillUpstreamPlaceholders_remove [OF sample_os_simps(1,2) this, of "'' c''"]
  show ?thesis by (auto simp: trim_right_def trim_left_def)
qed

text \<open>
  The removal takes the first marker of each kind without comparing their positions. When an
  end marker precedes the start marker, nothing is removed and everything between the two
  markers is duplicated.
\<close>

theorem removeUpstreamSection_reversed:
  assumes "\<not> sublist upstreamEndMarker before"
    and "\<not> sublist upstreamStartMarker (before @ upstreamEndMarker @ mid)"
  shows "removeUpstreamSection (before @ upstreamEndMarker @ mid @ upstreamStartMarker @ rest) =
    trim_right (before @ upstreamEndMarker @ mid) ('' '' @ [CHR 0x09] @ nl) @ nl @ nl @
    trim_left (mid @ upstreamStartMarker @ rest) ('' '' @ [CHR 0x09] @ nl)"
proof -
  let ?s = "before @ upstreamEndMarker @ mid @ upstreamStartMarker @ rest"
  have names: "upstreamStartMarker \<in> marker_names" "upstreamEndMarker \<in> marker_names"
    by (simp_all add: marker_names_def)
  have "index_of ?s upstreamEndMarker = Some (length before)"
    by (rule index_of_append_head_unique [OF marker_head_unique [OF names(2)] assms(1)])
  moreover have "index_of ?s upstreamStartMarker =
      Some (length before + length upstreamEndMarker + length mid)"
    using index_of_append_head_unique [OF marker_head_unique [OF names(1)] assms(2), of rest]
    by (simp add: add.assoc)
  ultimately show ?thesis by (simp add: removeUpstreamSection_def Let_def)
qed

theorem removeUpstreamSection_reversed_witness:
  "removeUpstreamSection (''a'' @ upstreamEndMarker @ ''b'' @ upstreamStartMarker @ ''c'') =
   ''a'' @ upstreamEndMarker @ ''b'' @ nl @ nl @ ''b'' @ upstreamStartMarker @ ''c''"
proof -
  have "\<not> sublist upstreamEndMarker ''a''"
    "\<not> sublist upstreamStartMarker (''a'' @ upstreamEndMarker @ ''b'')"
    by (simp_all add: marker_defs sublist_Cons_right)
  from removeUpstreamSection_reversed [OF this, of "''c''"]
  show ?thesis by (simp add: trim_right_def trim_left_def marker_defs)
qed

end
