(* ===== verification/Changelog_Manifest.thy ===== *)
theory Changelog_Manifest
  imports Changelog_Config
begin

text \<open>
  \<^verbatim>\<open>internal/changelog-generator/manifest.go\<close>: the index from normalised to canonical component
  names, and the components of the distribution's manifest that are in it. The network (a GET
  of a URL gives an error, or a status and a body that may fail to be read) and the YAML
  decoder are parameters.
\<close>

record GoMod =
  GoMod_gomod :: string

record Manifest =
  Dist_Version :: string
  Receivers :: "GoMod list"
  Exporters :: "GoMod list"
  Extensions :: "GoMod list"
  Processors :: "GoMod list"
  Connectors :: "GoMod list"
  Providers :: "GoMod list"

record ChloggenConfig =
  Components :: "string list"

type_synonym http_get = "string \<Rightarrow> (nat \<times> string result) result"

definition strip_underscores :: "string \<Rightarrow> string" where
  "strip_underscores c = replace_all c ''_'' []"

definition fetch_chloggen_config :: "http_get \<Rightarrow> os \<Rightarrow> string \<Rightarrow> string result" where
  "fetch_chloggen_config get w urlOrPath =
     (if has_prefix urlOrPath ''http'' then
        (case get urlOrPath of
           Inl err \<Rightarrow> Inl (Wrapf ''fetching chloggen config %s: %w'' [urlOrPath] err)
         | Inr (status, body) \<Rightarrow>
             (case body of
                Inl err \<Rightarrow> Inl (Wrapf ''reading chloggen response %s: %w'' [urlOrPath] err)
              | Inr data \<Rightarrow> Inr data))
      else
        (case read_file w urlOrPath of
           Inl err \<Rightarrow> Inl (Wrapf ''reading chloggen config %s: %w'' [urlOrPath] err)
         | Inr data \<Rightarrow> Inr data))"

definition index_components :: "(string \<rightharpoonup> string) \<Rightarrow> string list \<Rightarrow> (string \<rightharpoonup> string)" where
  "index_components index cs = foldl (\<lambda>m c. m(strip_underscores c \<mapsto> c)) index cs"

fun chloggen_loop ::
    "http_get \<Rightarrow> (string \<Rightarrow> ChloggenConfig result) \<Rightarrow> os \<Rightarrow> (string \<rightharpoonup> string) \<Rightarrow> string list \<Rightarrow>
     (string \<rightharpoonup> string) result" where
  "chloggen_loop get unmarshal w index [] = Inr index"
| "chloggen_loop get unmarshal w index (u # urlsOrPaths) =
     (case fetch_chloggen_config get w u of
        Inl err \<Rightarrow> Inl err
      | Inr data \<Rightarrow>
          (case unmarshal data of
             Inl err \<Rightarrow> Inl (Wrapf ''parsing chloggen config %s: %w'' [u] err)
           | Inr cfg \<Rightarrow>
               chloggen_loop get unmarshal w (index_components index (Components cfg)) urlsOrPaths))"

definition ParseChloggenConfig ::
    "http_get \<Rightarrow> (string \<Rightarrow> ChloggenConfig result) \<Rightarrow> os \<Rightarrow> string list \<Rightarrow> (string \<rightharpoonup> string) result"
  where
  "ParseChloggenConfig get unmarshal w urlsOrPaths =
     chloggen_loop get unmarshal w Map.empty urlsOrPaths"

definition stripTypeSuffix :: "string \<Rightarrow> string \<Rightarrow> string" where
  "stripTypeSuffix name compType =
     (if has_suffix name compType then take (length name - length compType) name else name)"

definition gomodToComponentID :: "string \<Rightarrow> string \<Rightarrow> string" where
  "gomodToComponentID gomod compType =
     (case str_fields gomod of
        [] \<Rightarrow> []
      | path # _ \<Rightarrow>
          (let segments = split_on path ''/''
           in if length segments = 0 then []
              else compType @ ''/'' @ stripTypeSuffix (last segments) compType))"

fun addComponents ::
    "(string \<rightharpoonup> bool) \<Rightarrow> string \<Rightarrow> GoMod list \<Rightarrow> (string \<rightharpoonup> string) \<Rightarrow> (string \<rightharpoonup> bool)" where
  "addComponents dst compType [] index = dst"
| "addComponents dst compType (m # mods) index =
     (let derived = gomodToComponentID (GoMod_gomod m) compType
      in if derived = [] then addComponents dst compType mods index
         else case index (strip_underscores derived) of
                Some canonical \<Rightarrow> addComponents (dst(canonical \<mapsto> True)) compType mods index
              | None \<Rightarrow> addComponents dst compType mods index)"

definition ParseManifest ::
    "(string \<Rightarrow> Manifest result) \<Rightarrow> os \<Rightarrow> string \<Rightarrow> (string \<rightharpoonup> string) \<Rightarrow>
     ((string \<rightharpoonup> bool) \<times> string) result" where
  "ParseManifest unmarshal w path index =
     (case read_file w path of
        Inl err \<Rightarrow> Inl (Wrapf ''reading manifest: %w'' [] err)
      | Inr data \<Rightarrow>
          (case unmarshal data of
             Inl err \<Rightarrow> Inl (Wrapf ''parsing manifest: %w'' [] err)
           | Inr m \<Rightarrow>
               (let components = Map.empty;
                    components = addComponents components ''receiver'' (Receivers m) index;
                    components = addComponents components ''exporter'' (Exporters m) index;
                    components = addComponents components ''extension'' (Extensions m) index;
                    components = addComponents components ''processor'' (Processors m) index;
                    components = addComponents components ''connector'' (Connectors m) index
                in Inr (components, Dist_Version m))))"

section \<open>The index\<close>

text \<open>Normalising removes the underscores and nothing else.\<close>

lemma index_of_single: "index_of s [x] = (if x \<in> set s then Some (length (takeWhile (\<lambda>c. c \<noteq> x) s)) else None)"
  by (induction s) auto

lemma strip_underscores_filter: "strip_underscores c = filter (\<lambda>x. x \<noteq> CHR ''_'') c"
proof -
  have "replace_all s old [] = filter (\<lambda>x. x \<noteq> CHR ''_'') s" if "old = ''_''" for s old new
    using that
  proof (induction s old "[] :: string" rule: replace_all.induct)
    case (1 s old)
    let ?t = "takeWhile (\<lambda>c. c \<noteq> CHR ''_'') s"
    show ?case
    proof (cases "CHR ''_'' \<in> set s")
      case False
      then have "filter (\<lambda>x. x \<noteq> CHR ''_'') s = s" by (auto simp: filter_id_conv)
      then show ?thesis
        using "1.prems" False by (subst replace_all.simps) (simp add: index_of_single)
    next
      case True
      then obtain ys zs where s: "s = ys @ CHR ''_'' # zs" "CHR ''_'' \<notin> set ys"
        by (meson split_list_first)
      then have "takeWhile (\<lambda>c. c \<noteq> CHR ''_'') s = ys" by (simp add: takeWhile_append)
      with True have i: "index_of s old = Some (length ys)"
        using "1.prems" by (simp add: index_of_single)
      have "replace_all zs old [] = filter (\<lambda>x. x \<noteq> CHR ''_'') zs"
        using "1.hyps" [OF _ i] "1.prems" s by simp
      moreover have "filter (\<lambda>x. x \<noteq> CHR ''_'') ys = ys" using s(2) by (auto simp: filter_id_conv)
      ultimately show ?thesis using i "1.prems" s by (subst replace_all.simps) simp
    qed
  qed
  then show ?thesis by (simp add: strip_underscores_def)
qed

text \<open>Every entry of the index maps the normalised form of a component to that component.\<close>

definition index_ok :: "(string \<rightharpoonup> string) \<Rightarrow> bool" where
  "index_ok index \<longleftrightarrow> (\<forall>n c. index n = Some c \<longrightarrow> n = strip_underscores c)"

lemma index_ok_update: "index_ok index \<Longrightarrow> index_ok (index(strip_underscores c \<mapsto> c))"
  by (simp add: index_ok_def)

lemma index_components_ok: "index_ok index \<Longrightarrow> index_ok (index_components index cs)"
  unfolding index_components_def
  by (induction cs arbitrary: index) (simp_all add: index_ok_update)

lemma index_components_dom:
  "dom (index_components index cs) = dom index \<union> strip_underscores ` set cs"
  unfolding index_components_def by (induction cs arbitrary: index) simp_all

lemma chloggen_loop_ok:
  "chloggen_loop get um w index us = Inr index' \<Longrightarrow> index_ok index \<Longrightarrow> index_ok index'"
  by (induction us arbitrary: index) (auto split: sum.splits intro: index_components_ok)

section \<open>The manifest\<close>

definition derived_ids :: "string \<Rightarrow> GoMod list \<Rightarrow> string set" where
  "derived_ids compType mods = (\<lambda>m. gomodToComponentID (GoMod_gomod m) compType) ` set mods"

lemma addComponents_spec:
  "addComponents dst ct mods index c = Some True \<longleftrightarrow>
   dst c = Some True \<or> (\<exists>d \<in> derived_ids ct mods. d \<noteq> [] \<and> index (strip_underscores d) = Some c)"
  by (induction mods arbitrary: dst)
    (auto simp: Let_def derived_ids_def split: option.splits)

lemma rune_at_Cons_outside: "c \<notin> space_bytes \<Longrightarrow> rune_at space_runes (c # s) = None"
  unfolding rune_at_None_iff space_bytes_def by (auto simp: prefix_Cons)

lemma word_span_space:
  "set cs \<inter> space_bytes = {} \<Longrightarrow> word_span (cs @ '' '' @ rest) = (cs, '' '' @ rest)"
proof (induction cs)
  case Nil
  have "rune_at space_runes (CHR '' '' # rest) \<noteq> None"
    unfolding rune_at_None_iff by (simp add: space_runes_def)
  then show ?case by simp
next
  case (Cons c cs)
  then show ?case by (simp add: rune_at_Cons_outside)
qed

lemma first_word:
  assumes "p \<noteq> []" and "set p \<inter> space_bytes = {}"
  shows "\<exists>ws. str_fields (p @ '' '' @ rest) = p # ws"
proof -
  obtain c cs where p: "p = c # cs" using assms(1) by (cases p) auto
  with assms(2) have "drop_runes space_runes (p @ '' '' @ rest) = p @ '' '' @ rest"
    by (intro drop_runes_id) (simp add: rune_at_Cons_outside)
  then show ?thesis
    using word_span_space [of cs rest] assms(2) p by (subst str_fields.simps) simp
qed

lemma split_on_no_slash: "CHR ''/'' \<notin> set n \<Longrightarrow> split_on n ''/'' = [n]"
  by (subst split_on.simps) (simp add: index_of_single)

text \<open>
  A module path ending in a component's name and type, followed by a version, gives the
  component's id: "<path>/<name><type> <version>" becomes "<type>/<name>".
\<close>

theorem gomodToComponentID_path:
  assumes "set (path @ ''/'' @ name @ ty) \<inter> space_bytes = {}"
    and "CHR ''/'' \<notin> set (name @ ty)"
  shows "gomodToComponentID (path @ ''/'' @ name @ ty @ '' '' @ version) ty = ty @ ''/'' @ name"
proof -
  obtain ws where "str_fields ((path @ ''/'' @ name @ ty) @ '' '' @ version) =
      (path @ ''/'' @ name @ ty) # ws"
    using first_word [OF _ assms(1)] by blast
  moreover have "split_on (path @ ''/'' @ name @ ty) ''/'' = split_on path ''/'' @ [name @ ty]"
    using split_on_char_append [of path "CHR ''/''" "name @ ty"] split_on_no_slash [OF assms(2)] by simp
  moreover have "stripTypeSuffix (name @ ty) ty = name"
    by (simp add: stripTypeSuffix_def has_suffix_def suffix_def)
  ultimately show ?thesis by (simp add: gomodToComponentID_def Let_def)
qed

theorem gomodToComponentID_path_witness:
  "gomodToComponentID
     (''github.com/open-telemetry/opentelemetry-collector-contrib/receiver'' @ ''/'' @
      ''filelog'' @ ''receiver'' @ '' '' @ ''v0.145.0'') ''receiver'' = ''receiver/filelog''"
proof -
  let ?p = "''github.com/open-telemetry/opentelemetry-collector-contrib/receiver''"
  have "set (?p @ ''/'' @ ''filelog'' @ ''receiver'') \<inter> space_bytes = {}"
    by (simp add: space_bytes_eq)
  then show ?thesis using gomodToComponentID_path [of ?p "''filelog''" "''receiver''" "''v0.145.0''"]
    by simp
qed

text \<open>
  A successfully parsed manifest marks exactly the canonical names that the index holds for
  its receivers, exporters, extensions, processors and connectors; providers are ignored.
\<close>

theorem ParseManifest_components:
  assumes "ParseManifest unmarshal w path index = Inr (comps, v)"
  shows "\<exists>data m. read_file w path = Inr data \<and> unmarshal data = Inr m \<and> v = Dist_Version m \<and>
    (\<forall>c. comps c = Some True \<longleftrightarrow>
       (\<exists>d \<in> derived_ids ''receiver'' (Receivers m) \<union> derived_ids ''exporter'' (Exporters m) \<union>
              derived_ids ''extension'' (Extensions m) \<union> derived_ids ''processor'' (Processors m) \<union>
              derived_ids ''connector'' (Connectors m).
          d \<noteq> [] \<and> index (strip_underscores d) = Some c))"
proof -
  from assms obtain data m where d: "read_file w path = Inr data" "unmarshal data = Inr m"
      "v = Dist_Version m"
    and c: "comps = addComponents (addComponents (addComponents (addComponents
        (addComponents Map.empty ''receiver'' (Receivers m) index) ''exporter'' (Exporters m) index)
        ''extension'' (Extensions m) index) ''processor'' (Processors m) index)
        ''connector'' (Connectors m) index"
    by (auto simp: ParseManifest_def Let_def split: sum.splits)
  show ?thesis
    by (intro exI [of _ data] exI [of _ m] conjI d)
      (simp only: c addComponents_spec, auto)
qed

theorem ParseManifest_components_witness:
  "\<exists>comps v. ParseManifest (\<lambda>_. Inr \<lparr>Dist_Version = ''0.46.0'',
        Receivers = [\<lparr>GoMod_gomod = ''x/receiver/otlpreceiver v1''\<rparr>], Exporters = [], Extensions = [],
        Processors = [], Connectors = [], Providers = []\<rparr>)
      \<lparr>os_files = [''manifest.yaml'' \<mapsto> ''dist''], os_readable = (\<lambda>_. True), os_writable = (\<lambda>_. True),
       os_env = Map.empty, os_stdout = []\<rparr> ''manifest.yaml'' [''receiver/otlp'' \<mapsto> ''receiver/otlp''] =
     Inr (comps, v) \<and> v = ''0.46.0'' \<and> comps ''receiver/otlp'' = Some True"
proof -
  let ?m = "\<lparr>Dist_Version = ''0.46.0'',
        Receivers = [\<lparr>GoMod_gomod = ''x/receiver/otlpreceiver v1''\<rparr>], Exporters = [], Extensions = [],
        Processors = [], Connectors = [], Providers = []\<rparr>"
  let ?w = "\<lparr>os_files = [''manifest.yaml'' \<mapsto> ''dist''], os_readable = (\<lambda>_. True),
      os_writable = (\<lambda>_. True), os_env = Map.empty, os_stdout = []\<rparr>"
  let ?i = "[''receiver/otlp'' \<mapsto> ''receiver/otlp'']"
  have r: "read_file ?w ''manifest.yaml'' = Inr ''dist''" by (simp add: read_file_def)
  then obtain comps v where p: "ParseManifest (\<lambda>_. Inr ?m) ?w ''manifest.yaml'' ?i = Inr (comps, v)"
    by (auto simp: ParseManifest_def Let_def)
  have "gomodToComponentID ''x/receiver/otlpreceiver v1'' ''receiver'' = ''receiver/otlp''"
  proof -
    have "set (''x/receiver'' @ ''/'' @ ''otlp'' @ ''receiver'') \<inter> space_bytes = {}"
      by (simp add: space_bytes_eq)
    then show ?thesis
      using gomodToComponentID_path [of "''x/receiver''" "''otlp''" "''receiver''" "''v1''"] by simp
  qed
  then have "''receiver/otlp'' \<in> derived_ids ''receiver'' (Receivers ?m)"
    by (simp add: derived_ids_def)
  moreover have "?i (strip_underscores ''receiver/otlp'') = Some ''receiver/otlp''"
    by (simp add: strip_underscores_filter)
  moreover from ParseManifest_components [OF p] obtain m where m: "m = ?m" "v = Dist_Version m"
    and all: "\<forall>c. comps c = Some True \<longleftrightarrow>
       (\<exists>d \<in> derived_ids ''receiver'' (Receivers m) \<union> derived_ids ''exporter'' (Exporters m) \<union>
              derived_ids ''extension'' (Extensions m) \<union> derived_ids ''processor'' (Processors m) \<union>
              derived_ids ''connector'' (Connectors m).
          d \<noteq> [] \<and> ?i (strip_underscores d) = Some c)"
    by (auto simp: r)
  ultimately have "comps ''receiver/otlp'' = Some True"
    by (intro all [THEN spec, THEN iffD2] bexI [of _ "''receiver/otlp''"]) auto
  with p m show ?thesis by auto
qed

text \<open>The components a source lists, none when it cannot be fetched or decoded.\<close>

definition listed ::
    "http_get \<Rightarrow> (string \<Rightarrow> ChloggenConfig result) \<Rightarrow> os \<Rightarrow> string \<Rightarrow> string list" where
  "listed get unmarshal w u =
     (case fetch_chloggen_config get w u of
        Inl _ \<Rightarrow> []
      | Inr data \<Rightarrow> (case unmarshal data of Inl _ \<Rightarrow> [] | Inr cfg \<Rightarrow> Components cfg))"

lemma chloggen_loop_dom:
  "chloggen_loop get unmarshal w index us = Inr index' \<Longrightarrow>
   dom index' = dom index \<union> strip_underscores ` (\<Union>u \<in> set us. set (listed get unmarshal w u))"
proof (induction us arbitrary: index)
  case (Cons u us)
  then obtain data cfg where "fetch_chloggen_config get w u = Inr data" "unmarshal data = Inr cfg"
    and rest: "chloggen_loop get unmarshal w (index_components index (Components cfg)) us = Inr index'"
    by (auto split: sum.splits)
  then have "listed get unmarshal w u = Components cfg" by (simp add: listed_def)
  with Cons.IH [OF rest] show ?case by (simp add: index_components_dom image_Un Un_assoc)
qed simp

text \<open>
  When all sources were fetched and decoded, the index holds exactly the normalised names of
  the listed components, and each maps to a component it is the normalised form of.
\<close>

theorem ParseChloggenConfig_index:
  assumes "ParseChloggenConfig get unmarshal w us = Inr index"
  shows "dom index = strip_underscores ` (\<Union>u \<in> set us. set (listed get unmarshal w u)) \<and>
    (\<forall>n c. index n = Some c \<longrightarrow> n = strip_underscores c)"
proof -
  have "index_ok index"
    by (rule chloggen_loop_ok [OF assms [unfolded ParseChloggenConfig_def]]) (simp add: index_ok_def)
  then show ?thesis
    using chloggen_loop_dom [OF assms [unfolded ParseChloggenConfig_def]] by (simp add: index_ok_def)
qed

theorem ParseChloggenConfig_index_witness:
  "\<exists>index. ParseChloggenConfig (\<lambda>_. Inr (200, Inr [])) (\<lambda>_. Inr \<lparr>Components = [''receiver/file_log'']\<rparr>)
      \<lparr>os_files = Map.empty, os_readable = (\<lambda>_. True), os_writable = (\<lambda>_. True),
       os_env = Map.empty, os_stdout = []\<rparr> [''https://x''] = Inr index \<and>
     dom index = {''receiver/filelog''}"
proof -
  let ?w = "\<lparr>os_files = Map.empty, os_readable = (\<lambda>_. True), os_writable = (\<lambda>_. True),
       os_env = Map.empty, os_stdout = []\<rparr>"
  let ?get = "\<lambda>_. Inr (200, Inr [])" and ?um = "\<lambda>_. Inr \<lparr>Components = [''receiver/file_log'']\<rparr>"
  obtain index where p: "ParseChloggenConfig ?get ?um ?w [''https://x''] = Inr index"
    by (auto simp: ParseChloggenConfig_def fetch_chloggen_config_def has_prefix_def)
  have "listed ?get ?um ?w ''https://x'' = [''receiver/file_log'']"
    by (simp add: listed_def fetch_chloggen_config_def has_prefix_def)
  then have "dom index = {''receiver/filelog''}"
    using ParseChloggenConfig_index [OF p] by (simp add: strip_underscores_filter)
  with p show ?thesis by blast
qed

text \<open>
  The HTTP status of a fetched chloggen config is not looked at: whatever statuses the servers
  answer with, the outcome is the same, so an error page is decoded like a config.
\<close>

theorem ParseChloggenConfig_ignores_status:
  "ParseChloggenConfig (\<lambda>u. map_sum id (map_prod (status u) id) (get u)) unmarshal w us =
   ParseChloggenConfig get unmarshal w us"
proof -
  have "fetch_chloggen_config (\<lambda>u. map_sum id (map_prod (status u) id) (get u)) w u =
      fetch_chloggen_config get w u" for u
    by (cases "get u") (auto simp: fetch_chloggen_config_def)
  then have "chloggen_loop (\<lambda>u. map_sum id (map_prod (status u) id) (get u)) unmarshal w index us =
      chloggen_loop get unmarshal w index us" for index
    by (induction us arbitrary: index) (auto split: sum.split)
  then show ?thesis by (simp add: ParseChloggenConfig_def)
qed

end
