(* ===== verification/Github_Client.thy ===== *)
theory Github_Client
  imports Changelog_Entry Changelog_Version Go_Os "HOL-Library.Word" "HOL-Library.AList"
begin

text \<open>
  \<^verbatim>\<open>internal/changelog-generator/github.go\<close>: the client of the GitHub REST and GraphQL APIs.
  A request is sent in a history of what the client has done before (requests sent, time slept),
  and the outside world is what answers in such a history: a transport error, a body that cannot
  be read, or a response. Every operation of the client takes the history and returns it
  extended. A \<^verbatim>\<open>time.Duration\<close> is a signed 64-bit number of nanoseconds, with Go's wrap-around.
  Decoding JSON and YAML into the structs is a parameter.
\<close>

section \<open>State and environment\<close>

record githubClient =
  token :: string
  graphqlURL :: string

definition newGitHubClient :: "os \<Rightarrow> githubClient" where
  "newGitHubClient w =
     \<lparr>token = getenv w ''GITHUB_TOKEN'', graphqlURL = ''https://api.github.com/graphql''\<rparr>"

record PRInfo =
  BaseSHA :: string
  pr_UpstreamVersion :: string
  pr_Source :: string
  pr_RepoURL :: string
  Owner :: string
  Repo :: string

type_synonym header = "string \<rightharpoonup> string list"

record request =
  rq_method :: string
  rq_url :: string
  rq_body :: "string option"
  rq_header :: "(string \<times> string) list"

datatype reply =
    Transport_error go_error
  | Unreadable_body nat header go_error
  | Response nat header string

datatype event = Sent request | Slept "64 word"

type_synonym history = "event list"

text \<open>
  The environment: which URLs \<^verbatim>\<open>http.NewRequest\<close> refuses, what is answered to a request, the wall
  clock in nanoseconds since 1970, and the decoders of the three documents the client reads.
\<close>

record pr_json =
  Title :: string
  Base_SHA :: string
  Head_SHA :: string

record graphql_json =
  gq_object :: "(string \<times> string option) list option"
  gq_errors :: "string list"

record env =
  bad_url :: "string \<Rightarrow> go_error option"
  answer :: "history \<Rightarrow> request \<Rightarrow> reply"
  clock :: "history \<Rightarrow> int"
  json_pr :: "string \<Rightarrow> pr_json result"
  json_graphql :: "string \<Rightarrow> graphql_json result"
  json_marshal :: "string \<Rightarrow> (string \<times> string) list \<Rightarrow> string result"
  yaml_versions :: "string \<Rightarrow> (string \<rightharpoonup> string) result"
  yaml_entry :: "string \<Rightarrow> ChloggenEntry result"

section \<open>The retry delay\<close>

text \<open>\<^verbatim>\<open>http.Header.Get\<close>: the first value of the canonical form of the key.\<close>

fun canonical_key :: "bool \<Rightarrow> string \<Rightarrow> string" where
  "canonical_key up [] = []"
| "canonical_key up (c # cs) =
     (if up then to_upper c else to_lower c) # canonical_key (c = CHR ''-'') cs"

definition header_get :: "header \<Rightarrow> string \<Rightarrow> string" where
  "header_get h key =
     (case h (canonical_key True key) of Some (v # _) \<Rightarrow> v | _ \<Rightarrow> [])"

definition second :: "64 word" where
  "second = 1000000000"

text \<open>
  \<^verbatim>\<open>time.Until(time.Unix(ts, 0))\<close>: \<^verbatim>\<open>Unix\<close> adds the seconds from year 1 to 1970 in 64 bits, and the
  difference to now saturates at the ends of the range of a duration.
\<close>

definition until_unix :: "int \<Rightarrow> int \<Rightarrow> 64 word" where
  "until_unix now ts =
     (let sec = sint (word_of_int (ts + 62135596800) :: 64 word) - 62135596800;
          d = sec * 1000000000 - now
      in word_of_int (max (- (2 ^ 63)) (min (2 ^ 63 - 1) d)))"

definition clamp_wait :: "64 word \<Rightarrow> 64 word" where
  "clamp_wait wait =
     (if wait \<le>s 0 then 2 * second else if 30 * second <s wait then 30 * second else wait)"

definition reset_delay :: "int \<Rightarrow> header \<Rightarrow> 64 word" where
  "reset_delay now headers =
     (let raw = trim_space (header_get headers ''X-RateLimit-Reset'')
      in if raw \<noteq> []
         then (case atoi raw of
                 Inr ts \<Rightarrow> clamp_wait (until_unix now ts)
               | Inl _ \<Rightarrow> 2 * second)
         else 2 * second)"

definition retryDelay :: "int \<Rightarrow> header \<Rightarrow> 64 word" where
  "retryDelay now headers =
     (let raw = trim_space (header_get headers ''Retry-After'')
      in if raw \<noteq> []
         then (case atoi raw of
                 Inr seconds \<Rightarrow>
                   (let d = word_of_int seconds * second
                    in if d <s 0 then 2 * second
                       else if 30 * second <s d then 30 * second
                       else d)
               | Inl _ \<Rightarrow> reset_delay now headers)
         else reset_delay now headers)"

section \<open>Requests\<close>

definition new_request :: "githubClient \<Rightarrow> string \<Rightarrow> string \<Rightarrow> string option \<Rightarrow> bool \<Rightarrow> request" where
  "new_request c meth url body apiHeaders =
     \<lparr>rq_method = meth, rq_url = url, rq_body = body,
      rq_header =
        (if token c \<noteq> [] then [(''Authorization'', ''Bearer '' @ token c)] else []) @
        (if body \<noteq> None then [(''Content-Type'', ''application/json'')] else []) @
        (if apiHeaders
         then [(''Accept'', ''application/vnd.github+json''), (''X-GitHub-Api-Version'', ''2022-11-28'')]
         else [])\<rparr>"

definition maxAttempts :: nat where
  "maxAttempts = 2"

function do_loop ::
    "env \<Rightarrow> githubClient \<Rightarrow> string \<Rightarrow> string \<Rightarrow> string option \<Rightarrow> bool \<Rightarrow> history \<Rightarrow> nat \<Rightarrow>
     history \<times> string result" where
  "do_loop env c meth url body apiHeaders h attempt =
     (if attempt \<le> maxAttempts
      then (case bad_url env url of
              Some err \<Rightarrow> (h, Inl err)
            | None \<Rightarrow>
                (let req = new_request c meth url body apiHeaders;
                     h' = h @ [Sent req]
                 in case answer env h req of
                      Transport_error err \<Rightarrow> (h', Inl err)
                    | Unreadable_body _ _ readErr \<Rightarrow>
                        (h', Inl (Wrapf ''reading response body: %w'' [] readErr))
                    | Response code hdr respBody \<Rightarrow>
                        if code = 403 \<or> code = 429
                        then (if attempt < maxAttempts
                              then do_loop env c meth url body apiHeaders
                                     (h' @ [Slept (retryDelay (clock env h') hdr)]) (attempt + 1)
                              else (h', Inl (Errorf ''GitHub API rate limit or auth error (HTTP %d): %s''
                                               [show_nat code, respBody])))
                        else if code \<noteq> 200
                        then (h', Inl (Errorf ''unexpected HTTP %d from %s: %s''
                                         [show_nat code, url, respBody]))
                        else (h', Inr respBody)))
      else (h, Inl (Errorf ''exhausted retries for %s'' [url])))"
  by pat_completeness auto
termination
  by (relation "measure (\<lambda>(env, c, meth, url, body, ah, h, attempt). maxAttempts + 1 - attempt)") auto

declare do_loop.simps [simp del]

definition client_do ::
    "env \<Rightarrow> githubClient \<Rightarrow> history \<Rightarrow> string \<Rightarrow> string \<Rightarrow> string option \<Rightarrow> bool \<Rightarrow> history \<times> string result"
  where
  "client_do env c h meth url body apiHeaders = do_loop env c meth url body apiHeaders h 1"

definition client_get :: "env \<Rightarrow> githubClient \<Rightarrow> history \<Rightarrow> string \<Rightarrow> history \<times> string result" where
  "client_get env c h url = client_do env c h ''GET'' url None True"

definition client_getRaw :: "env \<Rightarrow> githubClient \<Rightarrow> history \<Rightarrow> string \<Rightarrow> history \<times> string result" where
  "client_getRaw env c h url = client_do env c h ''GET'' url None False"

definition client_post ::
    "env \<Rightarrow> githubClient \<Rightarrow> history \<Rightarrow> string \<Rightarrow> string result \<Rightarrow> history \<times> string result" where
  "client_post env c h url marshalled =
     (case marshalled of
        Inl err \<Rightarrow> (h, Inl (Wrapf ''marshalling request: %w'' [] err))
      | Inr body \<Rightarrow> client_do env c h ''POST'' url (Some body) True)"

section \<open>Pull requests\<close>

text \<open>
  The regular expression \<^verbatim>\<open>^https://github\.com/([^/]+)/([^/]+)/pull/(\d+)/?$\<close>: the part after the
  host is four segments between slashes, and an empty fifth one for the optional slash.
\<close>

definition match_pr_url :: "string \<Rightarrow> (string \<times> string \<times> string) option" where
  "match_pr_url s =
     (if \<not> has_prefix s ''https://github.com/'' then None
      else case split_on (drop (length ''https://github.com/'') s) ''/'' of
             o1 # r1 # p1 # n1 # rest \<Rightarrow>
               if o1 \<noteq> [] \<and> r1 \<noteq> [] \<and> p1 = ''pull'' \<and> n1 \<noteq> [] \<and> list_all is_digit n1 \<and>
                  (rest = [] \<or> rest = [[]])
               then Some (o1, r1, n1) else None
           | _ \<Rightarrow> None)"

definition parsePRURL :: "string \<Rightarrow> (string \<times> string \<times> int) result" where
  "parsePRURL rawURL =
     (case match_pr_url (trim_space rawURL) of
        None \<Rightarrow> Inl (Errorf ''invalid PR URL: %q'' [rawURL])
      | Some (owner, repo, num) \<Rightarrow>
          (case atoi num of
             Inl err \<Rightarrow> Inl (Wrapf ''invalid PR number %q: %w'' [num] err)
           | Inr n \<Rightarrow> Inr (owner, repo, n)))"

definition knownModuleSetKeys :: "string list" where
  "knownModuleSetKeys = [''beta'', ''contrib-base'', ''stable'']"

text \<open>The versions of the module sets of a \<^verbatim>\<open>versions.yaml\<close>.\<close>

type_synonym versionsYAML = "string \<rightharpoonup> string"

fun version_loop :: "semver \<Rightarrow> versionsYAML \<Rightarrow> string list \<Rightarrow> string result" where
  "version_loop sv sets [] =
     Inl (Errorf ''versions.yaml: could not find version under any of module-sets.{%s}''
            [join knownModuleSetKeys '', ''])"
| "version_loop sv sets (key # ks) =
     (let version = trim_space (case sets key of None \<Rightarrow> [] | Some v \<Rightarrow> v)
      in if version = [] then version_loop sv sets ks
         else let vc = canonicalVersion sv version
              in if \<not> IsValid sv vc
                 then Inl (Errorf ''invalid version %q in versions.yaml module-sets.%s'' [version, key])
                 else Inr vc)"

definition extractVersionFromVersionsYAML :: "env \<Rightarrow> semver \<Rightarrow> string \<Rightarrow> string result" where
  "extractVersionFromVersionsYAML env sv data =
     (case yaml_versions env data of
        Inl err \<Rightarrow> Inl (Wrapf ''parsing versions.yaml: %w'' [] err)
      | Inr sets \<Rightarrow> version_loop sv sets knownModuleSetKeys)"

definition versions_url :: "string \<Rightarrow> string \<Rightarrow> string \<Rightarrow> string" where
  "versions_url owner repo ref =
     ''https://raw.githubusercontent.com/'' @ owner @ ''/'' @ repo @ ''/'' @ ref @ ''/versions.yaml''"

definition pr_api_url :: "string \<Rightarrow> string \<Rightarrow> int \<Rightarrow> string" where
  "pr_api_url owner repo number =
     ''https://api.github.com/repos/'' @ owner @ ''/'' @ repo @ ''/pulls/'' @ itoa number"

definition fetchVersionFromVersionsFile ::
    "env \<Rightarrow> semver \<Rightarrow> githubClient \<Rightarrow> history \<Rightarrow> string \<Rightarrow> string \<Rightarrow> string \<Rightarrow> history \<times> string result"
  where
  "fetchVersionFromVersionsFile env sv c h owner repo ref =
     (let rawURL = versions_url owner repo ref;
          (h, data) = client_getRaw env c h rawURL
      in case data of
           Inl err \<Rightarrow> (h, Inl (Wrapf ''fetching versions.yaml: %w'' [] err))
         | Inr d \<Rightarrow> (h, extractVersionFromVersionsYAML env sv d))"

definition FetchPRInfo ::
    "env \<Rightarrow> semver \<Rightarrow> githubClient \<Rightarrow> history \<Rightarrow> string \<Rightarrow> history \<times> PRInfo result" where
  "FetchPRInfo env sv c h prURL =
     (case parsePRURL prURL of
        Inl err \<Rightarrow> (h, Inl err)
      | Inr (owner, repo, number) \<Rightarrow>
          (let apiURL = pr_api_url owner repo number;
               (h, got) = client_get env c h apiURL
           in case got of
                Inl err \<Rightarrow> (h, Inl (Wrapf ''fetching PR %s: %w'' [apiURL] err))
              | Inr body \<Rightarrow>
                  (case json_pr env body of
                     Inl err \<Rightarrow> (h, Inl (Wrapf ''parsing PR response: %w'' [] err))
                   | Inr pr \<Rightarrow>
                       if Base_SHA pr = [] then (h, Inl (Errorf ''PR base SHA is empty'' []))
                       else if Head_SHA pr = [] then (h, Inl (Errorf ''PR head SHA is empty'' []))
                       else let (h, ver) = fetchVersionFromVersionsFile env sv c h owner repo (Head_SHA pr)
                            in case ver of
                                 Inl err \<Rightarrow>
                                   (h, Inl (Wrapf ''reading versions.yaml for %s/%s at %s: %w''
                                              [owner, repo, take 8 (Head_SHA pr)] err))
                               | Inr version \<Rightarrow>
                                   (h, Inr \<lparr>BaseSHA = Base_SHA pr,
                                            pr_UpstreamVersion = version,
                                            pr_Source = (if contains repo ''contrib'' then ''contrib''
                                                         else ''core''),
                                            pr_RepoURL = ''https://github.com/'' @ owner @ ''/'' @ repo,
                                            Owner = owner,
                                            Repo = repo\<rparr>))))"

section \<open>Chloggen entries\<close>

definition chloggen_query :: string where
  "chloggen_query = nl @ join
     [''query($owner: String!, $repo: String!, $expr: String!) {'',
      ''  repository(owner: $owner, name: $repo) {'',
      ''    object(expression: $expr) {'',
      ''      ... on Tree {'',
      ''        entries {'',
      ''          name'',
      ''          object {'',
      ''            ... on Blob {'',
      ''              text'',
      ''            }'',
      ''          }'',
      ''        }'',
      ''      }'',
      ''    }'',
      ''  }'',
      ''}''] nl"

text \<open>
  The map of file names to contents, in the order of the first insertion of each name; a later
  file of the same name overwrites the content.
\<close>

fun files_loop :: "(string \<times> string) list \<Rightarrow> (string \<times> string option) list \<Rightarrow> (string \<times> string) list" where
  "files_loop files [] = files"
| "files_loop files ((name, obj) # es) =
     (if \<not> has_suffix name ''.yaml'' then files_loop files es
      else if name = ''TEMPLATE.yaml'' \<or> name = ''config.yaml'' then files_loop files es
      else case obj of
             None \<Rightarrow> files_loop files es
           | Some txt \<Rightarrow>
               if txt = [] then files_loop files es
               else files_loop (AList.update name txt files) es)"

definition fetchChloggenFiles ::
    "env \<Rightarrow> githubClient \<Rightarrow> history \<Rightarrow> string \<Rightarrow> string \<Rightarrow> string \<Rightarrow>
     history \<times> (string \<times> string) list result" where
  "fetchChloggenFiles env c h owner repo sha =
     (let variables = [(''owner'', owner), (''repo'', repo), (''expr'', sha @ '':.chloggen'')];
          (h, got) = client_post env c h (graphqlURL c) (json_marshal env chloggen_query variables)
      in case got of
           Inl err \<Rightarrow> (h, Inl err)
         | Inr body \<Rightarrow>
             (case json_graphql env body of
                Inl err \<Rightarrow> (h, Inl (Wrapf ''parsing GraphQL response: %w'' [] err))
              | Inr resp \<Rightarrow>
                  if length (gq_errors resp) > 0
                  then (h, Inl (Errorf ''GraphQL error: %s'' [hd (gq_errors resp)]))
                  else case gq_object resp of
                         None \<Rightarrow> (h, Inl (Errorf ''no .chloggen directory found at %s'' [take 8 sha]))
                       | Some es \<Rightarrow> (h, Inr (files_loop [] es))))"

text \<open>A Go map is ranged over in an order the runtime chooses: \<open>order\<close> picks it.\<close>

type_synonym map_order = "(string \<times> string) list \<Rightarrow> (string \<times> string) list"

fun entries_loop ::
    "env \<Rightarrow> PRInfo \<Rightarrow> ChangelogEntry list \<Rightarrow> (string \<times> string) list \<Rightarrow> ChangelogEntry list" where
  "entries_loop env info entries [] = entries"
| "entries_loop env info entries ((name, content) # files) =
     (case ParseChloggenEntry (yaml_entry env) content (pr_Source info) (pr_UpstreamVersion info)
             (pr_RepoURL info) of
        Inl err \<Rightarrow> entries_loop env info entries files
      | Inr None \<Rightarrow> entries_loop env info entries files
      | Inr (Some entry) \<Rightarrow> entries_loop env info (entries @ [entry]) files)"

definition FetchChloggenEntries ::
    "env \<Rightarrow> map_order \<Rightarrow> githubClient \<Rightarrow> history \<Rightarrow> PRInfo \<Rightarrow> history \<times> ChangelogEntry list result"
  where
  "FetchChloggenEntries env order c h info =
     (let (h, got) = fetchChloggenFiles env c h (Owner info) (Repo info) (BaseSHA info)
      in case got of
           Inl err \<Rightarrow>
             (h, Inl (Wrapf ''fetching .chloggen files for %s/%s@%s: %w''
                        [Owner info, Repo info, take 8 (BaseSHA info)] err))
         | Inr files \<Rightarrow> (h, Inr (entries_loop env info [] (order files))))"

section \<open>The delay is bounded\<close>

lemma clamp_wait_bounds: "0 \<le> sint (clamp_wait d) \<and> sint (clamp_wait d) \<le> 30000000000"
  by (auto simp: clamp_wait_def second_def word_sle_eq word_sless_alt)

lemma reset_delay_bounds: "0 \<le> sint (reset_delay now h) \<and> sint (reset_delay now h) \<le> 30000000000"
  using clamp_wait_bounds by (auto simp: reset_delay_def Let_def second_def split: sum.split)

text \<open>
  Whatever the response headers say, the pause before the retry is between 0 and 30 seconds:
  no header value, overflowing or negative ones included, makes the client sleep longer.
\<close>

theorem retryDelay_bounds: "0 \<le> sint (retryDelay now h) \<and> sint (retryDelay now h) \<le> 30000000000"
  using reset_delay_bounds
  by (auto simp: retryDelay_def Let_def second_def word_sless_alt not_less split: sum.split)

lemma header_get_retry: "header_get (h(''Retry-After'' := Some [v])) ''Retry-After'' = v"
  by (simp add: header_get_def to_upper_def to_lower_def Let_def)

lemma sint_of_seconds:
  assumes "0 \<le> n" and "n * 1000000000 < 2 ^ 63"
  shows "sint (word_of_int n * second) = n * 1000000000"
proof -
  have "word_of_int n * second = (word_of_int (n * 1000000000) :: 64 word)" by (simp add: second_def)
  moreover have "sint (word_of_int (n * 1000000000) :: 64 word) = n * 1000000000"
    unfolding sint_sbintrunc' using assms by (intro signed_take_bit_int_eq_self) simp_all
  ultimately show ?thesis by simp
qed

lemma trim_space_itoa: "0 \<le> n \<Longrightarrow> trim_space (itoa n) = itoa n"
proof (rule trim_space_id, rule no_outer_space_ends)
  assume "0 \<le> n"
  then have d: "itoa n \<noteq> []" "list_all is_digit (itoa n)"
    by (simp_all add: itoa_def show_nat_nonempty show_nat_digits)
  then have "is_digit (hd (itoa n))" "is_digit (last (itoa n))" by (simp_all add: list_all_iff)
  then show "hd (itoa n) \<notin> space_bytes" "last (itoa n) \<notin> space_bytes" by (simp_all only: digit_not_space not_False_eq_True)
qed

text \<open>
  A Retry-After header with a number of seconds is obeyed up to half a minute, for every
  number whose nanoseconds fit a duration.
\<close>

theorem retryDelay_seconds:
  assumes "0 \<le> n" and "n * 1000000000 < 2 ^ 63"
  shows "sint (retryDelay now (h(''Retry-After'' := Some [itoa n]))) = min n 30 * 1000000000"
proof -
  have "atoi (itoa n) = Inr n" using assms by (intro atoi_itoa) (simp add: int64_range_def)
  moreover have "itoa n \<noteq> []" using assms(1) by (simp add: itoa_def show_nat_nonempty)
  ultimately show ?thesis
    using sint_of_seconds [OF assms] assms(1)
    by (simp add: retryDelay_def header_get_retry trim_space_itoa Let_def word_sless_alt)
      (simp add: second_def min_def)
qed

theorem retryDelay_seconds_witness:
  "sint (retryDelay 0 (Map.empty(''Retry-After'' := Some [itoa 7]))) = 7000000000"
  using retryDelay_seconds [of 7 0 Map.empty] by simp

text \<open>
  The multiplication by a second wraps around before the comparison with half a minute: asked to
  wait 18446744074 seconds, the client waits less than a third of a second.
\<close>

theorem retryDelay_wraps:
  "sint (retryDelay now (h(''Retry-After'' := Some [itoa 18446744074]))) = 290448384"
proof -
  have "atoi (itoa 18446744074) = Inr 18446744074" by (intro atoi_itoa) (simp add: int64_range_def)
  moreover have "itoa 18446744074 \<noteq> []" by (simp add: itoa_def show_nat_nonempty)
  ultimately show ?thesis
    by (simp add: retryDelay_def header_get_retry trim_space_itoa Let_def second_def word_sless_alt)
qed

section \<open>At most one retry\<close>

definition rate_limited :: "reply \<Rightarrow> bool" where
  "rate_limited r \<longleftrightarrow> (case r of Response code _ _ \<Rightarrow> code = 403 \<or> code = 429 | _ \<Rightarrow> False)"

text \<open>What the answer to the last request means for the caller.\<close>

definition final_result :: "string \<Rightarrow> reply \<Rightarrow> string result" where
  "final_result url r =
     (case r of
        Transport_error err \<Rightarrow> Inl err
      | Unreadable_body _ _ err \<Rightarrow> Inl (Wrapf ''reading response body: %w'' [] err)
      | Response code _ body \<Rightarrow>
          if code = 200 then Inr body
          else if code = 403 \<or> code = 429
          then Inl (Errorf ''GitHub API rate limit or auth error (HTTP %d): %s'' [show_nat code, body])
          else Inl (Errorf ''unexpected HTTP %d from %s: %s'' [show_nat code, url, body]))"

text \<open>The history of one call: one request, or a request, a pause and the same request again.\<close>

definition call_events :: "env \<Rightarrow> history \<Rightarrow> request \<Rightarrow> history" where
  "call_events env h rq =
     (case answer env h rq of
        Response code hdr _ \<Rightarrow>
          if code = 403 \<or> code = 429
          then [Sent rq, Slept (retryDelay (clock env (h @ [Sent rq])) hdr), Sent rq]
          else [Sent rq]
      | _ \<Rightarrow> [Sent rq])"

lemma do_loop_last:
  assumes "bad_url env url = None"
  shows "do_loop env c meth url body ah h 2 =
    (h @ [Sent (new_request c meth url body ah)],
     final_result url (answer env h (new_request c meth url body ah)))"
  using assms
  by (subst do_loop.simps)
    (auto simp: maxAttempts_def final_result_def Let_def split: reply.split)

lemma client_do_refused:
  "bad_url env url = Some err \<Longrightarrow> client_do env c h meth url body ah = (h, Inl err)"
  unfolding client_do_def by (subst do_loop.simps) (simp add: maxAttempts_def)

lemma client_do_eq:
  assumes "bad_url env url = None"
  shows "client_do env c h meth url body ah =
    (let rq = new_request c meth url body ah; es = call_events env h rq
     in (h @ es, final_result url (answer env (h @ butlast es) rq)))"
  unfolding client_do_def using assms do_loop_last [OF assms]
  by (subst do_loop.simps)
    (auto simp: maxAttempts_def call_events_def final_result_def Let_def numeral_2_eq_2
       split: reply.split)

lemma client_do_cases:
  assumes "client_do env c h meth url body ah = (h', r)"
  shows "if bad_url env url \<noteq> None then h' = h \<and> (\<exists>err. r = Inl err)
    else let rq = new_request c meth url body ah; first = answer env h rq
         in if rate_limited first
            then \<exists>d. h' = h @ [Sent rq, Slept d, Sent rq] \<and> 0 \<le> sint d \<and> sint d \<le> 30000000000 \<and>
                   r = final_result url (answer env (h @ [Sent rq, Slept d]) rq)
            else h' = h @ [Sent rq] \<and> r = final_result url first"
proof (cases "bad_url env url")
  case None
  with assms have "h' = h @ call_events env h (new_request c meth url body ah)"
    "r = final_result url (answer env
       (h @ butlast (call_events env h (new_request c meth url body ah))) (new_request c meth url body ah))"
    by (auto simp: client_do_eq Let_def)
  with None show ?thesis
    using retryDelay_bounds
    by (cases "answer env h (new_request c meth url body ah)")
      (auto simp: call_events_def rate_limited_def Let_def)
next
  case (Some err)
  with assms show ?thesis by (auto simp: client_do_refused)
qed

text \<open>
  C8: a call sends its request once, and once more exactly when the first answer is a 403 or 429, after a
  pause of at most half a minute; the second answer is final. The body is returned exactly for
  a final 200, every other outcome is an error, and "exhausted retries" is never reached.
\<close>

theorem client_do_outcome:
  "case client_do env c h meth url body ah of (h', r) \<Rightarrow>
    if bad_url env url \<noteq> None then h' = h \<and> (\<exists>err. r = Inl err)
    else let rq = new_request c meth url body ah; first = answer env h rq
         in if rate_limited first
            then \<exists>d. h' = h @ [Sent rq, Slept d, Sent rq] \<and> 0 \<le> sint d \<and> sint d \<le> 30000000000 \<and>
                   r = final_result url (answer env (h @ [Sent rq, Slept d]) rq)
            else h' = h @ [Sent rq] \<and> r = final_result url first"
  using client_do_cases [of env c h meth url body ah]
  by (cases "client_do env c h meth url body ah") simp

section \<open>Pull request URLs\<close>

lemma match_pr_url_parts:
  "match_pr_url s = Some (ow, re, ds) \<longleftrightarrow>
   (\<exists>tl. s = ''https://github.com/'' @ ow @ ''/'' @ re @ ''/pull/'' @ ds @ tl \<and> tl \<in> {[], ''/''} \<and>
      ow \<noteq> [] \<and> CHR ''/'' \<notin> set ow \<and> re \<noteq> [] \<and> CHR ''/'' \<notin> set re \<and>
      ds \<noteq> [] \<and> list_all is_digit ds)"
  (is "?m \<longleftrightarrow> ?r")
proof
  assume ?m
  then obtain t where t: "s = ''https://github.com/'' @ t"
    by (auto simp: match_pr_url_def has_prefix_def prefix_def split: if_splits)
  with \<open>?m\<close> obtain rest where sp: "split_on t ''/'' = [ow, re, ''pull'', ds] @ rest"
    and rest: "rest = [] \<or> rest = [[]]"
    and ne: "ow \<noteq> []" "re \<noteq> []" "ds \<noteq> []" "list_all is_digit ds"
    by (auto simp: match_pr_url_def has_prefix_def split: list.splits if_splits)
  have "t = join ([ow, re, ''pull'', ds] @ rest) ''/''" using join_split_on [of t "''/''"] sp by simp
  moreover have "CHR ''/'' \<notin> set ow" "CHR ''/'' \<notin> set re"
    using split_on_char_parts [of _ t "CHR ''/''"] sp by simp_all
  ultimately show ?r using rest ne t by auto
next
  assume ?r
  then obtain tl where s: "s = ''https://github.com/'' @ ow @ ''/'' @ re @ ''/pull/'' @ ds @ tl"
    and tl: "tl = [] \<or> tl = ''/''"
    and ne: "ow \<noteq> []" "CHR ''/'' \<notin> set ow" "re \<noteq> []" "CHR ''/'' \<notin> set re" "ds \<noteq> []"
      "list_all is_digit ds"
    by auto
  let ?rest = "if tl = [] then [] else [[]]"
  let ?ps = "[ow, re, ''pull'', ds] @ ?rest"
  have dsl: "CHR ''/'' \<notin> set ds" using ne(6) digit_not_sign by (auto simp: list_all_iff)
  have "split_on (join ?ps ''/'') ''/'' = ?ps"
    using ne dsl by (intro split_on_join_char) auto
  moreover have "s = ''https://github.com/'' @ join ?ps ''/''" using s tl by auto
  ultimately show ?m using ne tl by (auto simp: match_pr_url_def has_prefix_def)
qed

lemma parsePRURL_iff:
  "parsePRURL url = Inr (ow, re, n) \<longleftrightarrow>
   (\<exists>ds tl. trim_space url = ''https://github.com/'' @ ow @ ''/'' @ re @ ''/pull/'' @ ds @ tl \<and>
      tl \<in> {[], ''/''} \<and> ow \<noteq> [] \<and> CHR ''/'' \<notin> set ow \<and> re \<noteq> [] \<and> CHR ''/'' \<notin> set re \<and>
      ds \<noteq> [] \<and> list_all is_digit ds \<and> n = int (digits_val ds) \<and> int (digits_val ds) < 2 ^ 63)"
proof -
  have "parsePRURL url = Inr (ow, re, n) \<longleftrightarrow>
      (\<exists>ds. match_pr_url (trim_space url) = Some (ow, re, ds) \<and> atoi ds = Inr n)"
    by (auto simp: parsePRURL_def split: option.splits sum.splits)
  also have "\<dots> \<longleftrightarrow> (\<exists>ds. match_pr_url (trim_space url) = Some (ow, re, ds) \<and>
      n = int (digits_val ds) \<and> int (digits_val ds) < 2 ^ 63)"
    using match_pr_url_parts by (auto simp: atoi_digits split: if_splits)
  finally show ?thesis unfolding match_pr_url_parts by blast
qed

text \<open>
  A PR URL is accepted exactly when, without outer white space, it is
  https://github.com/owner/repo/pull/number with an optional slash, where owner and repo are
  non-empty and slash-free and the number fits an int; and then its parts are returned.
\<close>

theorem parsePRURL_accepts:
  "parsePRURL url = Inr (ow, re, n) \<longleftrightarrow>
   (\<exists>ds tl. trim_space url = ''https://github.com/'' @ ow @ ''/'' @ re @ ''/pull/'' @ ds @ tl \<and>
      tl \<in> {[], ''/''} \<and> ow \<noteq> [] \<and> CHR ''/'' \<notin> set ow \<and> re \<noteq> [] \<and> CHR ''/'' \<notin> set re \<and>
      ds \<noteq> [] \<and> list_all is_digit ds \<and> n = int (digits_val ds) \<and> int (digits_val ds) < 2 ^ 63)"
  by (rule parsePRURL_iff)

section \<open>The released version\<close>

text \<open>
  The released version is the canonical form of the first non-blank one among the module sets beta,
  contrib-base and stable, in this order; a blank or missing entry is passed over, but an
  invalid one is an error even when a later set has a valid version.
\<close>

theorem extractVersion_first_set:
  assumes "yaml_versions env data = Inr sets"
  shows "case find (\<lambda>k. trim_space (case sets k of None \<Rightarrow> [] | Some v \<Rightarrow> v) \<noteq> [])
               [''beta'', ''contrib-base'', ''stable''] of
      None \<Rightarrow> \<exists>err. extractVersionFromVersionsYAML env sv data = Inl err
    | Some k \<Rightarrow>
        (\<exists>v. sets k = Some v \<and>
          (if IsValid sv (canonicalVersion sv (trim_space v))
           then extractVersionFromVersionsYAML env sv data = Inr (canonicalVersion sv (trim_space v))
           else \<exists>err. extractVersionFromVersionsYAML env sv data = Inl err))"
proof -
  have "case find (\<lambda>k. trim_space (case sets k of None \<Rightarrow> [] | Some v \<Rightarrow> v) \<noteq> []) ks of
      None \<Rightarrow> \<exists>err. version_loop sv sets ks = Inl err
    | Some k \<Rightarrow>
        (\<exists>v. sets k = Some v \<and>
          (if IsValid sv (canonicalVersion sv (trim_space v))
           then version_loop sv sets ks = Inr (canonicalVersion sv (trim_space v))
           else \<exists>err. version_loop sv sets ks = Inl err))" for ks
  proof (induction ks)
    case (Cons k ks)
    let ?v = "case sets k of None \<Rightarrow> [] | Some v \<Rightarrow> v"
    show ?case
    proof (cases "trim_space ?v = []")
      case True
      then have e: "version_loop sv sets (k # ks) = version_loop sv sets ks" by simp
      show ?thesis unfolding e using True Cons.IH by simp
    next
      case False
      then show ?thesis by (cases "sets k") (auto simp: Let_def)
    qed
  qed simp
  from this [of knownModuleSetKeys] show ?thesis
    using assms by (simp only: extractVersionFromVersionsYAML_def knownModuleSetKeys_def sum.case)
qed

definition sample_env :: env where
  "sample_env =
     \<lparr>bad_url = (\<lambda>_. None), answer = (\<lambda>h rq. Response 200 Map.empty (rq_url rq)), clock = (\<lambda>_. 0),
      json_pr = (\<lambda>_. Inr \<lparr>Title = ''prepare release'', Base_SHA = ''ba5e'', Head_SHA = ''4ead''\<rparr>),
      json_graphql = (\<lambda>_. Inr \<lparr>gq_object = Some [(''a.yaml'', Some ''A''), (''b.yaml'', Some ''B''),
        (''config.yaml'', Some ''C''), (''README.md'', Some ''D'')], gq_errors = []\<rparr>),
      json_marshal = (\<lambda>q vs. Inr q),
      yaml_versions = (\<lambda>_. Inr [''stable'' \<mapsto> ''v1.0.0'', ''beta'' \<mapsto> ''0.145.0'']),
      yaml_entry = (\<lambda>d. Inr \<lparr>raw_ChangeType = ''breaking'', raw_Component = d, raw_Note = ''n'',
        raw_Issues = [1], raw_Subtext = [], raw_ChangeLogs = []\<rparr>)\<rparr>"

theorem extractVersion_first_set_witness:
  "\<exists>v. [''stable'' \<mapsto> ''v1.0.0'', ''beta'' \<mapsto> ''0.145.0''] ''beta'' = Some v \<and>
     (if IsValid plain_semver (canonicalVersion plain_semver (trim_space v))
      then extractVersionFromVersionsYAML sample_env plain_semver [] =
        Inr (canonicalVersion plain_semver (trim_space v))
      else \<exists>err. extractVersionFromVersionsYAML sample_env plain_semver [] = Inl err)"
proof -
  have "trim_space ''0.145.0'' = ''0.145.0''"
    by (rule trim_space_id, rule no_outer_space_ends) (simp_all add: space_bytes_eq)
  then show ?thesis
    using extractVersion_first_set [of sample_env "[]" "[''stable'' \<mapsto> ''v1.0.0'', ''beta'' \<mapsto> ''0.145.0'']"
        plain_semver]
    by (simp add: sample_env_def)
qed

section \<open>Pull request metadata\<close>

lemma client_do_Inr:
  "client_do env c h meth url body ah = (h', Inr d) \<Longrightarrow>
   bad_url env url = None \<and> h' = h @ call_events env h (new_request c meth url body ah)"
  by (cases "bad_url env url") (auto simp: client_do_refused client_do_eq Let_def)

lemma version_loop_valid: "version_loop sv sets ks = Inr v \<Longrightarrow> IsValid sv v"
  by (induction ks) (auto simp: Let_def split: if_splits)

lemma fetchVersion_Inr:
  assumes "fetchVersionFromVersionsFile env sv c h ow re rf = (h', Inr v)"
  shows "IsValid sv v \<and> h' = h @ call_events env h (new_request c ''GET'' (versions_url ow re rf) None False)"
  using assms version_loop_valid
  by (auto simp: fetchVersionFromVersionsFile_def extractVersionFromVersionsYAML_def client_getRaw_def
      Let_def split: prod.splits sum.splits dest!: client_do_Inr)

text \<open>
  On success the metadata of a PR come from its URL and its own commits: the URL gives owner and
  repository, the base commit is non-empty, the version is a valid one read from versions.yaml
  at the head commit (not at the base), and the source is contrib exactly for a repository
  with contrib in its name. Only the two documents were requested, in this order.
\<close>

theorem FetchPRInfo_ok:
  assumes "FetchPRInfo env sv c h url = (h', Inr info)"
  shows "\<exists>n body pr. parsePRURL url = Inr (Owner info, Repo info, n) \<and>
    json_pr env body = Inr pr \<and> BaseSHA info = Base_SHA pr \<and> BaseSHA info \<noteq> [] \<and>
    IsValid sv (pr_UpstreamVersion info) \<and>
    pr_RepoURL info = ''https://github.com/'' @ Owner info @ ''/'' @ Repo info \<and>
    pr_Source info = (if contains (Repo info) ''contrib'' then ''contrib'' else ''core'') \<and>
    (let rq1 = new_request c ''GET'' (pr_api_url (Owner info) (Repo info) n) None True;
         rq2 = new_request c ''GET'' (versions_url (Owner info) (Repo info) (Head_SHA pr)) None False;
         h1 = h @ call_events env h rq1
     in h' = h1 @ call_events env h1 rq2)"
proof -
  from assms obtain ow re n where u: "parsePRURL url = Inr (ow, re, n)"
    by (auto simp: FetchPRInfo_def split: sum.splits prod.splits)
  from assms u obtain h1 body pr where g: "client_get env c h (pr_api_url ow re n) = (h1, Inr body)"
    and pr: "json_pr env body = Inr pr" "Base_SHA pr \<noteq> []" "Head_SHA pr \<noteq> []"
    by (auto simp: FetchPRInfo_def Let_def split: sum.splits prod.splits if_splits)
  from assms u g pr obtain v
    where f: "fetchVersionFromVersionsFile env sv c h1 ow re (Head_SHA pr) = (h', Inr v)"
      and i: "info = \<lparr>BaseSHA = Base_SHA pr, pr_UpstreamVersion = v,
        pr_Source = (if contains re ''contrib'' then ''contrib'' else ''core''),
        pr_RepoURL = ''https://github.com/'' @ ow @ ''/'' @ re, Owner = ow, Repo = re\<rparr>"
    by (auto simp: FetchPRInfo_def Let_def split: sum.splits prod.splits)
  have "h1 = h @ call_events env h (new_request c ''GET'' (pr_api_url ow re n) None True)"
    using g client_do_Inr unfolding client_get_def by blast
  with fetchVersion_Inr [OF f] u pr show ?thesis
    unfolding i Let_def by simp blast
qed

lemma sample_do: "client_do sample_env c h meth url body ah =
    (h @ [Sent (new_request c meth url body ah)], Inr url)"
  by (subst client_do_eq)
    (simp_all add: sample_env_def call_events_def final_result_def new_request_def Let_def)

lemma sample_url: "parsePRURL ''https://github.com/o/r/pull/7'' = Inr (''o'', ''r'', 7)"
proof -
  have "trim_space ''https://github.com/o/r/pull/7'' = ''https://github.com/o/r/pull/7''"
    by (rule trim_space_id, rule no_outer_space_ends) (simp_all add: space_bytes_eq)
  then show ?thesis
    by (subst parsePRURL_iff) (intro exI [of _ "''7''"] exI [of _ "[]"],
      simp add: is_digit_def digits_val_def digit_val_def)
qed

lemma sample_version: "extractVersionFromVersionsYAML sample_env
    (plain_semver\<lparr>IsValid := \<lambda>_. True, Canonical := \<lambda>v. v\<rparr>) d = Inr ''v0.145.0''"
proof -
  have "trim_space ''0.145.0'' = ''0.145.0''"
    by (rule trim_space_id, rule no_outer_space_ends) (simp_all add: space_bytes_eq)
  then show ?thesis
    by (simp add: extractVersionFromVersionsYAML_def sample_env_def knownModuleSetKeys_def
        canonicalVersion_def Let_def has_prefix_def)
qed

lemma sample_FetchPRInfo:
  "\<exists>h' info. FetchPRInfo sample_env (plain_semver\<lparr>IsValid := \<lambda>_. True, Canonical := \<lambda>v. v\<rparr>) c h
     ''https://github.com/o/r/pull/7'' = (h', Inr info)"
proof -
  have "json_pr sample_env x = Inr \<lparr>Title = ''prepare release'', Base_SHA = ''ba5e'', Head_SHA = ''4ead''\<rparr>"
    for x by (simp add: sample_env_def)
  then show ?thesis
    by (simp add: FetchPRInfo_def sample_url client_get_def client_getRaw_def sample_do
        fetchVersionFromVersionsFile_def sample_version Let_def)
qed

theorem FetchPRInfo_ok_witness:
  "\<exists>h' info n. FetchPRInfo sample_env (plain_semver\<lparr>IsValid := \<lambda>_. True, Canonical := \<lambda>v. v\<rparr>)
     \<lparr>token = [], graphqlURL = []\<rparr> [] ''https://github.com/o/r/pull/7'' = (h', Inr info) \<and>
     parsePRURL ''https://github.com/o/r/pull/7'' = Inr (Owner info, Repo info, n) \<and> BaseSHA info \<noteq> []"
  using sample_FetchPRInfo [of "\<lparr>token = [], graphqlURL = []\<rparr>" "[]"] FetchPRInfo_ok by blast

section \<open>The entries of a pull request\<close>

text \<open>The reference: the user-facing entry of one file of the directory listing, if it has one.\<close>

definition chloggen_file :: "string \<times> string option \<Rightarrow> (string \<times> string) option" where
  "chloggen_file f =
     (case f of (name, obj) \<Rightarrow>
        if has_suffix name ''.yaml'' \<and> name \<noteq> ''TEMPLATE.yaml'' \<and> name \<noteq> ''config.yaml'' \<and>
           obj \<noteq> None \<and> obj \<noteq> Some []
        then Some (name, the obj) else None)"

definition file_entry :: "env \<Rightarrow> PRInfo \<Rightarrow> string \<times> string \<Rightarrow> ChangelogEntry option" where
  "file_entry env info f =
     (case ParseChloggenEntry (yaml_entry env) (snd f) (pr_Source info) (pr_UpstreamVersion info)
             (pr_RepoURL info) of Inr (Some e) \<Rightarrow> Some e | _ \<Rightarrow> None)"

lemma entries_loop_eq:
  "entries_loop env info es fs = es @ List.map_filter (file_entry env info) fs"
  by (induction env info es fs rule: entries_loop.induct)
    (auto simp: file_entry_def List.map_filter_def split: sum.splits option.splits)

lemma update_fresh: "n \<notin> fst ` set fs \<Longrightarrow> AList.update n t fs = fs @ [(n, t)]"
  by (induction fs) auto

lemma files_loop_eq:
  assumes "distinct (map fst fs)" and "distinct (map fst es)" and "fst ` set fs \<inter> fst ` set es = {}"
  shows "files_loop fs es = fs @ List.map_filter chloggen_file es"
  using assms
  by (induction fs es rule: files_loop.induct)
    (auto simp: chloggen_file_def List.map_filter_def update_fresh split: option.splits)

lemma mset_map_filter: "mset xs = mset ys \<Longrightarrow> mset (List.map_filter f xs) = mset (List.map_filter f ys)"
  by (simp add: List.map_filter_def)

lemma fetchChloggenFiles_Inr:
  assumes "fetchChloggenFiles env c h ow re sha = (h', Inr files)"
  shows "\<exists>body resp fs. json_graphql env body = Inr resp \<and> gq_errors resp = [] \<and>
    gq_object resp = Some fs \<and> files = files_loop [] fs"
  using assms by (fastforce simp: fetchChloggenFiles_def Let_def split: prod.splits sum.splits
      option.splits if_splits)


definition sample_info :: PRInfo where
  "sample_info = \<lparr>BaseSHA = ''ba5e'', pr_UpstreamVersion = ''v0.145.0'', pr_Source = ''core'',
     pr_RepoURL = ''u'', Owner = ''o'', Repo = ''r''\<rparr>"

definition sample_client :: githubClient where
  "sample_client = \<lparr>token = ''t'', graphqlURL = ''g''\<rparr>"

lemma sample_chloggen_entry:
  "n \<in> {''A'', ''B''} \<Longrightarrow> \<exists>e. ParseChloggenEntry (yaml_entry sample_env) n src v u = Inr (Some e) \<and> Component e = n"
proof -
  have "trim_space ''breaking'' = ''breaking''" "trim_space ''A'' = ''A''" "trim_space ''B'' = ''B''"
    by (rule trim_space_id, rule no_outer_space_ends, simp_all add: space_bytes_eq)+
  then show "n \<in> {''A'', ''B''} \<Longrightarrow> \<exists>e. ParseChloggenEntry (yaml_entry sample_env) n src v u = Inr (Some e) \<and> Component e = n"
    by (auto simp: ParseChloggenEntry_def sample_env_def Let_def validChangeTypes_def change_type_defs
        isUserFacing_def)
qed

lemma sample_FetchChloggenEntries:
  "FetchChloggenEntries sample_env order c h info =
   (h @ [Sent (new_request c ''POST'' (graphqlURL c) (Some chloggen_query) True)],
    Inr (entries_loop sample_env info [] (order [(''a.yaml'', ''A''), (''b.yaml'', ''B'')])))"
proof -
  have post: "client_post sample_env c h (graphqlURL c) (json_marshal sample_env q vs) =
      (h @ [Sent (new_request c ''POST'' (graphqlURL c) (Some q) True)], Inr (graphqlURL c))" for q vs
  proof -
    have "json_marshal sample_env q vs = Inr q" by (simp add: sample_env_def)
    then show ?thesis by (simp add: client_post_def sample_do)
  qed
  have "files_loop [] [(''a.yaml'', Some ''A''), (''b.yaml'', Some ''B''),
        (''config.yaml'', Some ''C''), (''README.md'', Some ''D'')] = [(''a.yaml'', ''A''), (''b.yaml'', ''B'')]"
    by (simp add: has_suffix_def suffix_def)
  then show ?thesis
    unfolding FetchChloggenEntries_def fetchChloggenFiles_def post
    by (simp add: sample_env_def)
qed

lemma sample_entries:
  "\<exists>a b. Component a = ''A'' \<and> Component b = ''B'' \<and>
     entries_loop sample_env sample_info [] [(''a.yaml'', ''A''), (''b.yaml'', ''B'')] = [a, b] \<and>
     entries_loop sample_env sample_info [] [(''b.yaml'', ''B''), (''a.yaml'', ''A'')] = [b, a]"
proof -
  obtain a b where
    a: "ParseChloggenEntry (yaml_entry sample_env) ''A'' (pr_Source sample_info)
      (pr_UpstreamVersion sample_info) (pr_RepoURL sample_info) = Inr (Some a)" "Component a = ''A''"
    and b: "ParseChloggenEntry (yaml_entry sample_env) ''B'' (pr_Source sample_info)
      (pr_UpstreamVersion sample_info) (pr_RepoURL sample_info) = Inr (Some b)" "Component b = ''B''"
    using sample_chloggen_entry [of "''A''"] sample_chloggen_entry [of "''B''"] by blast
  then show ?thesis by (intro exI [of _ a] exI [of _ b]) simp
qed


text \<open>
  The order of the entries, and with it the order of the lines of the changelog, is left to the runtime:
  two iteration orders of the same map give different lists for the same pull request.
\<close>

theorem FetchChloggenEntries_order_visible:
  "snd (FetchChloggenEntries sample_env id sample_client [] sample_info) \<noteq>
   snd (FetchChloggenEntries sample_env rev sample_client [] sample_info)"
proof -
  obtain a b where "Component a = ''A''" "Component b = ''B''"
    and e: "entries_loop sample_env sample_info [] [(''a.yaml'', ''A''), (''b.yaml'', ''B'')] = [a, b]"
      "entries_loop sample_env sample_info [] [(''b.yaml'', ''B''), (''a.yaml'', ''A'')] = [b, a]"
    using sample_entries by blast
  then have "Component a \<noteq> Component b" by simp
  then have "a \<noteq> b" by blast
  then show ?thesis unfolding sample_FetchChloggenEntries id_apply rev.simps append.simps e by simp
qed

end
