(* ===== verification/Changelog_Main.thy ===== *)
theory Changelog_Main
  imports Go_Flag Changelog_File Changelog_Manifest Github_Client
begin

text \<open>
  \<^verbatim>\<open>internal/changelog-generator/main.go\<close>: \<open>run\<close> composes the steps. Its state is the operating
  system (files, environment, standard output) and the history of requests. Messages on
  standard error are not kept.
\<close>

record decoders =
  dec_chloggen :: "string \<Rightarrow> ChloggenConfig result"
  dec_manifest :: "string \<Rightarrow> Manifest result"
  dec_config :: "string \<Rightarrow> Config result"

record services =
  sv_semver :: semver
  sv_http :: http_get
  sv_env :: env
  sv_order :: map_order
  sv_dec :: decoders

definition ChloggenCoreURL :: string where
  "ChloggenCoreURL =
     ''https://raw.githubusercontent.com/open-telemetry/opentelemetry-collector/main/.chloggen/config.yaml''"

definition ChloggenContribURL :: string where
  "ChloggenContribURL =
     ''https://raw.githubusercontent.com/open-telemetry/opentelemetry-collector-contrib/main/.chloggen/config.yaml''"

text \<open>The loop over the PR URLs, with \<open>allEntries\<close> as its accumulator.\<close>

fun pr_loop ::
    "services \<Rightarrow> githubClient \<Rightarrow> history \<Rightarrow> ChangelogEntry list \<Rightarrow> string list \<Rightarrow>
     history \<times> ChangelogEntry list result" where
  "pr_loop s client h allEntries [] = (h, Inr allEntries)"
| "pr_loop s client h allEntries (prURL # prURLs) =
     (let (h, info) = FetchPRInfo (sv_env s) (sv_semver s) client h prURL
      in case info of
           Inl err \<Rightarrow> (h, Inl (Wrapf ''fetching PR info for %s: %w'' [prURL] err))
         | Inr info \<Rightarrow>
             (let (h, entries) = FetchChloggenEntries (sv_env s) (sv_order s) client h info
              in case entries of
                   Inl err \<Rightarrow> (h, Inl (Wrapf ''fetching chloggen entries for %s: %w'' [prURL] err))
                 | Inr es \<Rightarrow> pr_loop s client h (allEntries @ es) prURLs))"

definition print_content :: "os \<Rightarrow> UpstreamContent \<Rightarrow> os" where
  "print_content w content =
     (let w = printf w (''Version intro:     %s'' @ nl @ nl) [VersionIntro content];
          w = printf w (''Collector versions:'' @ nl @ ''%s'' @ nl @ nl) [CollectorVersions content];
          w = printf w (''Breaking changes:'' @ nl @ ''%s'' @ nl @ nl) [BreakingChanges content]
      in printf w (''Other changes:'' @ nl @ ''%s'' @ nl @ nl) [OtherChanges content])"

text \<open>Steps 5 to 7: filter, generate, output.\<close>

definition finish ::
    "services \<Rightarrow> os \<Rightarrow> string \<Rightarrow> bool \<Rightarrow> (string \<rightharpoonup> bool) \<Rightarrow> string \<Rightarrow> Config \<Rightarrow> ChangelogEntry list \<Rightarrow>
     os \<times> unit result" where
  "finish s w changelogPath dryRun components distVersion cfg allEntries =
     (let sv = sv_semver s;
          fc = (FilterEntries allEntries components cfg)
                 \<lparr>DistVersion := canonicalVersion sv distVersion\<rparr>
      in if highestVersion sv (UpstreamVersions fc) = []
         then (w, Inl (Errorf (''no valid upstream versions found '' @ [CHR 0xE2, CHR 0x80, CHR 0x94] @
                          '' check PR URLs and versions.yaml content'') []))
         else let content = GenerateUpstreamContent sv fc
              in if dryRun then (print_content w content, Inr ())
                 else case FillUpstreamPlaceholders w changelogPath content of
                        Inl err \<Rightarrow> (w, Inl (Wrapf ''filling upstream placeholders: %w'' [] err))
                      | Inr w \<Rightarrow> (w, Inr ()))"

definition run ::
    "services \<Rightarrow> os \<Rightarrow> string \<Rightarrow> string \<Rightarrow> string \<Rightarrow> bool \<Rightarrow> string list \<Rightarrow> os \<times> history \<times> unit result" where
  "run s w manifestPath configPath changelogPath dryRun prURLs =
     (if length prURLs = 0
      then (if dryRun
            then (printf w (''(dry-run: would remove upstream section from changelog)'' @ nl) [], [], Inr ())
            else case FillUpstreamPlaceholders w changelogPath zero_content of
                   Inl err \<Rightarrow> (w, [], Inl err)
                 | Inr w \<Rightarrow> (w, [], Inr ()))
      else case ParseChloggenConfig (sv_http s) (dec_chloggen (sv_dec s)) w
                  [ChloggenCoreURL, ChloggenContribURL] of
             Inl err \<Rightarrow> (w, [], Inl (Wrapf ''fetching chloggen config: %w'' [] err))
           | Inr index \<Rightarrow>
               (case ParseManifest (dec_manifest (sv_dec s)) w manifestPath index of
                  Inl err \<Rightarrow> (w, [], Inl (Wrapf ''parsing manifest: %w'' [] err))
                | Inr (components, distVersion) \<Rightarrow>
                    (case ParseConfig (dec_config (sv_dec s)) w configPath of
                       Inl err \<Rightarrow> (w, [], Inl (Wrapf ''parsing config: %w'' [] err))
                     | Inr cfg \<Rightarrow>
                         (case pr_loop s (newGitHubClient w) [] [] prURLs of
                            (h, Inl err) \<Rightarrow> (w, h, Inl err)
                          | (h, Inr allEntries) \<Rightarrow>
                              (case finish s w changelogPath dryRun components distVersion cfg allEntries of
                                 (w, r) \<Rightarrow> (w, h, r))))))"

section \<open>What a run changes\<close>

text \<open>Only the changelog is written, and only when the run succeeds without dry-run.\<close>

lemma Fill_frame:
  "FillUpstreamPlaceholders w path c = Inr w' \<Longrightarrow>
   os_stdout w' = os_stdout w \<and> (\<forall>q. q \<noteq> path \<longrightarrow> os_files w' q = os_files w q)"
  by (auto simp: FillUpstreamPlaceholders_def write_file_Inr split: sum.splits)

lemma printf_files [simp]: "os_files (printf w f as) = os_files w"
  by (simp add: printf_def)

lemma print_content_files [simp]: "os_files (print_content w c) = os_files w"
  by (simp add: print_content_def Let_def)

lemma finish_frame:
  "finish s w path dryRun comps v cfg es = (w', r) \<Longrightarrow>
   (\<forall>q. q \<noteq> path \<longrightarrow> os_files w' q = os_files w q) \<and>
   (dryRun \<or> (\<exists>err. r = Inl err) \<longrightarrow> os_files w' = os_files w) \<and>
   (\<not> dryRun \<longrightarrow> os_stdout w' = os_stdout w)"
  using Fill_frame
  by (fastforce simp: finish_def Let_def split: if_splits sum.splits)

lemma run_frame:
  assumes "run s w mp cp path dryRun prURLs = (w', h, r)"
  shows "(\<forall>q. q \<noteq> path \<longrightarrow> os_files w' q = os_files w q) \<and>
    (dryRun \<or> (\<exists>err. r = Inl err) \<longrightarrow> os_files w' = os_files w) \<and>
    (\<not> dryRun \<longrightarrow> os_stdout w' = os_stdout w)"
  using assms finish_frame Fill_frame unfolding run_def
  by (auto split: if_splits sum.splits prod.splits)

text \<open>
  A small world in which a run succeeds: two upstream entries, an empty manifest.
\<close>

definition sample_services :: services where
  "sample_services =
     \<lparr>sv_semver = plain_semver, sv_http = (\<lambda>_. Inr (200, Inr [])), sv_env = sample_env, sv_order = id,
      sv_dec = \<lparr>dec_chloggen = (\<lambda>_. Inr \<lparr>Components = []\<rparr>),
        dec_manifest = (\<lambda>_. Inr \<lparr>Dist_Version = ''0.145.0'', Receivers = [], Exporters = [],
          Extensions = [], Processors = [], Connectors = [], Providers = []\<rparr>),
        dec_config = (\<lambda>_. Inr \<lparr>Allowlist = [], Denylist = []\<rparr>)\<rparr>\<rparr>"

lemma sample_extract: "extractVersionFromVersionsYAML sample_env plain_semver d = Inr ''v0.145.0''"
proof -
  have "trim_space ''0.145.0'' = ''0.145.0''"
    by (rule trim_space_id, rule no_outer_space_ends) (simp_all add: space_bytes_eq)
  then show ?thesis
    by (simp add: extractVersionFromVersionsYAML_def sample_env_def knownModuleSetKeys_def
        canonical_145 valid_145 Let_def)
qed

lemma sample_pr_info:
  "\<exists>h' info. FetchPRInfo sample_env plain_semver c h ''https://github.com/o/r/pull/7'' = (h', Inr info) \<and>
     pr_UpstreamVersion info = ''v0.145.0''"
proof -
  have "json_pr sample_env x = Inr \<lparr>Title = ''prepare release'', Base_SHA = ''ba5e'', Head_SHA = ''4ead''\<rparr>"
    for x by (simp add: sample_env_def)
  then show ?thesis
    by (simp add: FetchPRInfo_def sample_url client_get_def client_getRaw_def sample_do
        fetchVersionFromVersionsFile_def sample_extract Let_def)
qed

lemma sample_pr_loop:
  "\<exists>h' es. pr_loop sample_services c h [] [''https://github.com/o/r/pull/7''] = (h', Inr es) \<and>
     valid_versions plain_semver (map UpstreamVersion es) \<noteq> []"
proof -
  obtain h1 info where info: "FetchPRInfo sample_env plain_semver c h ''https://github.com/o/r/pull/7'' = (h1, Inr info)"
    "pr_UpstreamVersion info = ''v0.145.0''" using sample_pr_info by blast
  obtain a b where
    p: "ParseChloggenEntry (yaml_entry sample_env) ''A'' (pr_Source info)
      (pr_UpstreamVersion info) (pr_RepoURL info) = Inr (Some a)"
      "ParseChloggenEntry (yaml_entry sample_env) ''B'' (pr_Source info)
      (pr_UpstreamVersion info) (pr_RepoURL info) = Inr (Some b)"
    using sample_chloggen_entry [of "''A''"] sample_chloggen_entry [of "''B''"] by blast
  have "UpstreamVersion a = ''v0.145.0''"
    using ParseChloggenEntry_ok [OF p(1)] info(2) by (simp add: entry_ok_def)
  then have "valid_versions plain_semver (map UpstreamVersion [a, b]) \<noteq> []"
    by (simp add: canonical_145 valid_145)
  moreover have "pr_loop sample_services c h [] [''https://github.com/o/r/pull/7''] =
      (fst (FetchChloggenEntries sample_env id c h1 info), Inr [a, b])"
    using info(1) p by (simp add: sample_services_def sample_FetchChloggenEntries)
  ultimately show ?thesis by blast
qed

text \<open>What a successful run with upstream PRs went through.\<close>

lemma run_Inr:
  assumes "run s w mp cp path False prURLs = (w', h, Inr ())" and "prURLs \<noteq> []"
  shows "\<exists>comps v cfg es. pr_loop s (newGitHubClient w) [] [] prURLs = (h, Inr es) \<and>
    finish s w path False comps v cfg es = (w', Inr ())"
  using assms by (auto simp: run_def split: sum.splits prod.splits)

text \<open>The versions of the filtered changelog are those of the entries.\<close>

lemma FilterEntries_versions:
  "set (UpstreamVersions (FilterEntries es comps cfg)) = UpstreamVersion ` set es"
  using first_by_keys [of id "{}" "map UpstreamVersion es"]
  by (simp add: FilterEntries_def filter_loop_spec spec_from_def empty_changelog_def)

text \<open>
  C10: a successful run with upstream PRs fills the placeholders and never falls into the removal of
  the section: the content it generates from the filtered entries has a version intro, release
  links and other changes, because a run whose entries have no valid version stops with an
  error first.
\<close>

theorem run_fills:
  assumes "semver_laws (sv_semver s)" and "prURLs \<noteq> []"
    and "run s w mp cp path False prURLs = (w', h, Inr ())"
  shows "\<exists>d es comps cfg v c. read_file w path = Inr d \<and>
    pr_loop s (newGitHubClient w) [] [] prURLs = (h, Inr es) \<and>
    c = GenerateUpstreamContent (sv_semver s) ((FilterEntries es comps cfg)\<lparr>DistVersion := v\<rparr>) \<and>
    VersionIntro c \<noteq> [] \<and> CollectorVersions c \<noteq> [] \<and> OtherChanges c \<noteq> [] \<and>
    os_files w' path = Some (fill_text d c)"
proof -
  from run_Inr [OF assms(3,2)] obtain comps v cfg es where
    es: "pr_loop s (newGitHubClient w) [] [] prURLs = (h, Inr es)"
    and f: "finish s w path False comps v cfg es = (w', Inr ())" by blast
  define fc where "fc = (FilterEntries es comps cfg)\<lparr>DistVersion := canonicalVersion (sv_semver s) v\<rparr>"
  have ne: "highestVersion (sv_semver s) (UpstreamVersions fc) \<noteq> []"
    and "FillUpstreamPlaceholders w path (GenerateUpstreamContent (sv_semver s) fc) = Inr w'"
    using f unfolding finish_def Let_def fc_def [symmetric] by (auto split: if_splits sum.splits)
  then obtain d where "read_file w path = Inr d"
    "os_files w' path = Some (fill_text d (GenerateUpstreamContent (sv_semver s) fc))"
    by (auto simp: FillUpstreamPlaceholders_def write_file_Inr split: sum.splits)
  moreover have "valid_versions (sv_semver s) (UpstreamVersions fc) \<noteq> []"
    using ne highestVersion_empty_iff [OF assms(1)] by blast
  ultimately show ?thesis
    using es content_nonempty [OF assms(1)] unfolding fc_def by blast
qed

lemma sample_run:
  "\<exists>w' h. run sample_services (sample_os [])
     ''CHANGELOG.md'' ''CHANGELOG.md'' ''CHANGELOG.md'' False [''https://github.com/o/r/pull/7''] = (w', h, Inr ())"
proof -
  let ?w = "sample_os []"
  obtain h es where es: "pr_loop sample_services (newGitHubClient ?w) [] [] [''https://github.com/o/r/pull/7''] = (h, Inr es)"
    "valid_versions plain_semver (map UpstreamVersion es) \<noteq> []" using sample_pr_loop by blast
  have ne: "highestVersion plain_semver (UpstreamVersions ((FilterEntries es Map.empty
      \<lparr>Allowlist = [], Denylist = []\<rparr>)\<lparr>DistVersion := v\<rparr>)) \<noteq> []" for v
    using es(2) FilterEntries_versions [of es Map.empty "\<lparr>Allowlist = [], Denylist = []\<rparr>"]
    unfolding highestVersion_empty_iff [OF plain_semver_laws] valid_versions_def
    by (auto simp: filter_empty_conv)
  have sv: "sv_semver sample_services = plain_semver" by (simp add: sample_services_def)
  obtain w' where w': "FillUpstreamPlaceholders ?w ''CHANGELOG.md'' c = Inr (w' c)" for c
    using FillUpstreamPlaceholders_effect [OF sample_os_simps(1,2)] by metis
  let ?cfg = "\<lparr>Allowlist = [], Denylist = []\<rparr>"
  have fin: "\<exists>w''. finish sample_services ?w ''CHANGELOG.md'' False Map.empty ''0.145.0'' ?cfg es = (w'', Inr ())"
    unfolding finish_def Let_def sv if_not_P [OF ne] w' by auto
  have rd: "read_file ?w ''CHANGELOG.md'' = Inr []" by (rule sample_os_simps)
  have "ParseChloggenConfig (sv_http sample_services) (dec_chloggen (sv_dec sample_services)) ?w
      [ChloggenCoreURL, ChloggenContribURL] = Inr Map.empty"
    by (simp add: sample_services_def ParseChloggenConfig_def fetch_chloggen_config_def index_components_def
        ChloggenCoreURL_def ChloggenContribURL_def has_prefix_def)
  moreover have "ParseManifest (dec_manifest (sv_dec sample_services)) ?w ''CHANGELOG.md'' Map.empty =
      Inr (Map.empty, ''0.145.0'')"
    by (simp add: sample_services_def ParseManifest_def rd)
  moreover have "ParseConfig (dec_config (sv_dec sample_services)) ?w ''CHANGELOG.md'' = Inr ?cfg"
    by (simp add: sample_services_def ParseConfig_def rd)
  ultimately have "run sample_services ?w ''CHANGELOG.md'' ''CHANGELOG.md'' ''CHANGELOG.md'' False
      [''https://github.com/o/r/pull/7''] =
      (case finish sample_services ?w ''CHANGELOG.md'' False Map.empty ''0.145.0'' ?cfg es of
         (w, r) \<Rightarrow> (w, h, r))"
    unfolding run_def using es(1) by simp
  with fin show ?thesis by auto
qed

theorem run_fills_witness:
  "\<exists>w' h d c. run sample_services (sample_os []) ''CHANGELOG.md'' ''CHANGELOG.md'' ''CHANGELOG.md'' False
     [''https://github.com/o/r/pull/7''] = (w', h, Inr ()) \<and> VersionIntro c \<noteq> [] \<and>
     os_files w' ''CHANGELOG.md'' = Some (fill_text d c)"
proof -
  have sv: "semver_laws (sv_semver sample_services)" by (simp add: sample_services_def plain_semver_laws)
  show ?thesis using sample_run run_fills [OF sv] by blast
qed

section \<open>The command\<close>

definition changelog_flags :: flags where
  "changelog_flags = map_of
     [(''manifest'', Text ''manifest.yaml''), (''config'', Text ''internal/changelog-generator/config.yaml''),
      (''changelog'', Text ''CHANGELOG.md''), (''dry-run'', Flag False)]"

text \<open>\<^verbatim>\<open>main\<close>: the arguments behind the flags are the pull requests; the error of a run is printed and gives status 1.\<close>

definition changelog_main :: "services \<Rightarrow> os \<Rightarrow> string list \<Rightarrow> os \<times> history \<times> nat" where
  "changelog_main s w argv =
     (case parse_args changelog_flags argv of
        Inl e \<Rightarrow> (w, [], usage_status e)
      | Inr (m, prURLs) \<Rightarrow>
          (case run s w (text_flag m ''manifest'') (text_flag m ''config'') (text_flag m ''changelog'')
                  (bool_flag m ''dry-run'') prURLs of
             (w, h, Inl err) \<Rightarrow> (w, h, 1)
           | (w, h, Inr _) \<Rightarrow> (w, h, 0)))"

text \<open>Without arguments the command edits \<^verbatim>\<open>CHANGELOG.md\<close> and asks nobody; flags behind the first URL are URLs.\<close>

lemma changelog_main_no_arguments:
  "changelog_main s w [] =
     (case FillUpstreamPlaceholders w ''CHANGELOG.md'' zero_content of
        Inl err \<Rightarrow> (w, [], 1)
      | Inr w \<Rightarrow> (w, [], 0))"
  by (simp add: changelog_main_def changelog_flags_def run_def text_flag_def bool_flag_def split: sum.split)

lemma changelog_main_urls_first:
  assumes "flag_arg_of u = No_flag"
  shows "parse_args changelog_flags (u # args) = Inr (changelog_flags, u # args)"
  using assms by simp


definition sample_argv :: "string list" where
  "sample_argv = map show_setting [(''manifest'', Text ''CHANGELOG.md''), (''config'', Text ''CHANGELOG.md'')] @
     [''https://github.com/o/r/pull/7'']"


end
