(* ===== verification/Go_Url.thy ===== *)
theory Go_Url
  imports Go_Strings
begin

text \<open>
  What the provider of configurations uses of Go's package \<^verbatim>\<open>net/url\<close>: cutting the fragment off a URL and
  decoding it (\<^verbatim>\<open>url.Parse\<close>), and parsing a query (\<^verbatim>\<open>url.ParseQuery\<close>). Parsing the part of a URL before the fragment
  is a parameter of \<open>url_Parse\<close>.
\<close>

section \<open>Escapes\<close>

definition hex_val :: "char \<Rightarrow> nat option" where
  "hex_val c =
     (let n = (of_char c :: nat)
      in if 48 \<le> n \<and> n \<le> 57 then Some (n - 48)
         else if 97 \<le> n \<and> n \<le> 102 then Some (n - 87)
         else if 65 \<le> n \<and> n \<le> 70 then Some (n - 55)
         else None)"

definition escape_error :: "string \<Rightarrow> go_error" where
  "escape_error s = Errorf ''invalid URL escape %q'' [take 3 s]"

text \<open>
  \<^verbatim>\<open>unescape\<close> in the mode of a query, in which a plus sign is a space, or of a fragment; the error is
  that of the first malformed escape.
\<close>

fun unescape :: "bool \<Rightarrow> string \<Rightarrow> string result" where
  "unescape query [] = Inr []"
| "unescape query (c # s) =
     (if c = CHR ''%''
      then (case s of
              a # b # r \<Rightarrow>
                (case (hex_val a, hex_val b) of
                   (Some i, Some j) \<Rightarrow> map_sum id ((#) (char_of (16 * i + j))) (unescape query r)
                 | _ \<Rightarrow> Inl (escape_error (c # s)))
            | _ \<Rightarrow> Inl (escape_error (c # s)))
      else map_sum id ((#) (if query \<and> c = CHR ''+'' then CHR '' '' else c)) (unescape query s))"

text \<open>\<^verbatim>\<open>strings.Cut\<close> at a single byte: what is before it, and what is behind it, if it occurs.\<close>

definition cut :: "char \<Rightarrow> string \<Rightarrow> string \<times> string option" where
  "cut c s =
     (let k = takeWhile (\<lambda>x. x \<noteq> c) s; r = dropWhile (\<lambda>x. x \<noteq> c) s
      in (k, case r of [] \<Rightarrow> None | _ # v \<Rightarrow> Some v))"

section \<open>Queries\<close>

type_synonym url_values = "string \<rightharpoonup> string list"

definition params_has :: "url_values \<Rightarrow> string \<Rightarrow> bool" where
  "params_has params key \<longleftrightarrow> params key \<noteq> None"

definition params_get :: "url_values \<Rightarrow> string \<Rightarrow> string" where
  "params_get params key = (case params key of Some (v # _) \<Rightarrow> v | _ \<Rightarrow> [])"

definition add_value :: "string \<Rightarrow> string \<Rightarrow> url_values \<Rightarrow> url_values" where
  "add_value k v m = m(k \<mapsto> (case m k of None \<Rightarrow> [] | Some vs \<Rightarrow> vs) @ [v])"

definition err_semicolon :: go_error where
  "err_semicolon = Errorf ''invalid semicolon separator in query'' []"

text \<open>
  One setting of a query. A semicolon replaces the error there was, a malformed escape is kept only if there was none;
  settings behind an error are still read.
\<close>

definition query_setting :: "url_values \<times> go_error option \<Rightarrow> string \<Rightarrow> url_values \<times> go_error option" where
  "query_setting st s =
     (case st of (m, err) \<Rightarrow>
        if CHR '';'' \<in> set s then (m, Some err_semicolon)
        else if s = [] then (m, err)
        else (case cut (CHR ''='') s of
                (k, v) \<Rightarrow>
                  (case unescape True k of
                     Inl e \<Rightarrow> (m, if err = None then Some e else err)
                   | Inr key \<Rightarrow>
                       (case unescape True (case v of None \<Rightarrow> [] | Some v \<Rightarrow> v) of
                          Inl e \<Rightarrow> (m, if err = None then Some e else err)
                        | Inr val \<Rightarrow> (add_value key val m, err)))))"

definition max_params :: nat where "max_params = 10000"

definition ParseQuery :: "string \<Rightarrow> url_values result" where
  "ParseQuery query =
     (if length (split_on query ''&'') > max_params
      then Inl (Errorf ''number of URL query parameters exceeded limit'' [])
      else case foldl query_setting (Map.empty, None) (split_on query ''&'') of
             (m, None) \<Rightarrow> Inr m
           | (m, Some err) \<Rightarrow> Inl err)"

section \<open>URLs\<close>

text \<open>
  A parsed URL is a scheme, a fragment and the rest, which the program never looks at. The
  fragment begins at the first number sign and is decoded.
\<close>

record parsed_url =
  Scheme :: string
  Opaque :: string
  Fragment :: string

definition url_Parse :: "(string \<Rightarrow> parsed_url result) \<Rightarrow> string \<Rightarrow> parsed_url result" where
  "url_Parse parse_base raw =
     (case cut (CHR ''#'') raw of
        (u, frag) \<Rightarrow>
          (case parse_base u of
             Inl err \<Rightarrow> Inl (Wrapf ''parse %q: %w'' [u] err)
           | Inr url \<Rightarrow>
               (case frag of
                  None \<Rightarrow> Inr url
                | Some [] \<Rightarrow> Inr url
                | Some f \<Rightarrow>
                    (case unescape False f of
                       Inl err \<Rightarrow> Inl (Wrapf ''parse %q: %w'' [raw] err)
                     | Inr f \<Rightarrow> Inr (url\<lparr>Fragment := f\<rparr>)))))"

section \<open>Queries made of settings\<close>

text \<open>Text that means itself: no escape, no separator, no plus sign.\<close>

definition plain :: "string \<Rightarrow> bool" where
  "plain s \<longleftrightarrow> list_all (\<lambda>c. c \<notin> set ''%+&;=#'') s"

lemma unescape_plain: "plain s \<Longrightarrow> unescape query s = Inr s"
  by (induction s) (auto simp: plain_def)

lemma cut_plain:
  assumes "c \<notin> set k"
  shows "cut c (k @ c # v) = (k, Some v)" and "cut c k = (k, None)"
proof -
  have "\<forall>x \<in> set k. x \<noteq> c" using assms by auto
  then show "cut c (k @ c # v) = (k, Some v)" "cut c k = (k, None)"
    by (simp_all add: cut_def takeWhile_append2 dropWhile_append2 takeWhile_eq_all_conv [THEN iffD2]
        dropWhile_eq_Nil_conv [THEN iffD2] Let_def)
qed

definition setting :: "string \<times> string \<Rightarrow> string" where
  "setting kv = fst kv @ ''='' @ snd kv"

definition settings :: "(string \<times> string) list \<Rightarrow> string" where
  "settings kvs = join (map setting kvs) ''&''"

definition plain_settings :: "(string \<times> string) list \<Rightarrow> bool" where
  "plain_settings kvs \<longleftrightarrow> list_all (\<lambda>(k, v). k \<noteq> [] \<and> plain k \<and> plain v) kvs"

lemma plain_chars: "plain s \<Longrightarrow> c \<in> set ''%+&;=#'' \<Longrightarrow> c \<notin> set s"
  by (auto simp: plain_def list_all_iff)

lemma query_setting_plain:
  assumes "k \<noteq> []" and "plain k" and "plain v"
  shows "query_setting (m, err) (setting (k, v)) = (add_value k v m, err)"
proof -
  have "CHR ''='' \<notin> set k" using assms(2) by (rule plain_chars) simp
  moreover have "CHR '';'' \<notin> set (setting (k, v))"
    using plain_chars [OF assms(2), of "CHR '';''"] plain_chars [OF assms(3), of "CHR '';''"]
    by (simp add: setting_def)
  ultimately show ?thesis
    using assms by (simp add: query_setting_def setting_def cut_plain unescape_plain)
qed

lemma settings_split:
  assumes "plain_settings kvs" and "kvs \<noteq> []"
  shows "split_on (settings kvs) ''&'' = map setting kvs"
proof -
  have "CHR ''&'' \<notin> set (setting kv)" if "kv \<in> set kvs" for kv
  proof -
    obtain k v where kv: "kv = (k, v)" by (cases kv)
    with that assms(1) have "plain k" "plain v" by (auto simp: plain_settings_def list_all_iff)
    then show ?thesis
      using plain_chars [of k "CHR ''&''"] plain_chars [of v "CHR ''&''"] kv by (simp add: setting_def)
  qed
  then show ?thesis unfolding settings_def using assms(2) by (intro split_on_join_char) auto
qed

definition values_of :: "(string \<times> string) list \<Rightarrow> url_values" where
  "values_of kvs = foldl (\<lambda>m (k, v). add_value k v m) Map.empty kvs"

lemma foldl_settings:
  "plain_settings kvs \<Longrightarrow>
   foldl query_setting (m, err) (map setting kvs) = (foldl (\<lambda>m (k, v). add_value k v m) m kvs, err)"
proof (induction kvs arbitrary: m)
  case (Cons kv kvs)
  then show ?case by (cases kv) (simp add: plain_settings_def query_setting_plain)
qed simp

lemma ParseQuery_settings:
  assumes "plain_settings kvs" and "length kvs \<le> max_params"
  shows "ParseQuery (settings kvs) = Inr (values_of kvs)"
proof (cases "kvs = []")
  case True
  have "split_on [] ''&'' = [[]]" by (rule split_on_char_free) simp
  with True show ?thesis
    by (simp add: ParseQuery_def settings_def values_of_def query_setting_def max_params_def)
next
  case False
  with assms show ?thesis
    by (simp add: ParseQuery_def settings_split foldl_settings values_of_def)
qed

text \<open>Reading back: the values of a key are those it was set to, in order.\<close>

lemma add_value_at:
  "add_value a v m k = (if k = a then Some ((case m a of None \<Rightarrow> [] | Some vs \<Rightarrow> vs) @ [v]) else m k)"
  by (simp add: add_value_def)

lemma add_value_get:
  "foldl (\<lambda>m (k, v). add_value k v m) m kvs k =
     (if filter (\<lambda>kv. fst kv = k) kvs = [] then m k
      else Some ((case m k of None \<Rightarrow> [] | Some vs \<Rightarrow> vs) @ map snd (filter (\<lambda>kv. fst kv = k) kvs)))"
proof (induction kvs arbitrary: m)
  case (Cons kv kvs)
  obtain a b where kv: "kv = (a, b)" by (cases kv)
  have "add_value a b m k = (if k = a then Some ((case m a of None \<Rightarrow> [] | Some vs \<Rightarrow> vs) @ [b]) else m k)"
    by (rule add_value_at)
  then show ?case
    unfolding kv foldl_Cons prod.case Cons.IH by (cases "k = a") (simp_all split: option.split)
qed simp

lemma values_of_has: "params_has (values_of kvs) k \<longleftrightarrow> k \<in> fst ` set kvs"
  by (auto simp: params_has_def values_of_def add_value_get filter_empty_conv)

lemma values_of_get:
  assumes "k \<in> fst ` set kvs"
  shows "params_get (values_of kvs) k = the (map_of kvs k)"
proof -
  obtain v kvs' where f: "filter (\<lambda>kv. fst kv = k) kvs = (k, v) # kvs'"
  proof (cases "filter (\<lambda>kv. fst kv = k) kvs")
    case Nil
    with assms show ?thesis by (auto simp: filter_empty_conv)
  next
    case (Cons x xs)
    then have "x \<in> set (filter (\<lambda>kv. fst kv = k) kvs)" by simp
    then have "x = (k, snd x)" by auto
    with Cons that [of "snd x" xs] show ?thesis by simp
  qed
  moreover from f have "map_of kvs k = Some v"
    by (induction kvs) (auto split: if_splits)
  ultimately show ?thesis by (simp add: params_get_def values_of_def add_value_get)
qed

text \<open>A URL with a plain fragment.\<close>

lemma url_Parse_plain:
  assumes "CHR ''#'' \<notin> set u" and "list_all (\<lambda>c. c \<noteq> CHR ''%'') f" and "f \<noteq> []"
    and "parse_base u = Inr url"
  shows "url_Parse parse_base (u @ ''#'' @ f) = Inr (url\<lparr>Fragment := f\<rparr>)"
proof -
  have "unescape False f = Inr f"
    using assms(2) by (induction f) simp_all
  moreover have "cut (CHR ''#'') (u @ ''#'' @ f) = (u, Some f)" using cut_plain [OF assms(1)] by simp
  moreover obtain c f' where "f = c # f'" using assms(3) by (cases f) auto
  ultimately show ?thesis
    using assms(4) by (simp add: url_Parse_def)
qed

end
