(* ===== verification/Go_Duration.thy ===== *)
theory Go_Duration
  imports Go_Strings "HOL-Library.Word"
begin

text \<open>
  \<^verbatim>\<open>time.ParseDuration\<close> of Go, which the configurations of the provider go through: a sign and a sum of
  terms, each a decimal number with a unit, in nanoseconds of a 64-bit integer. The sum of the terms is a
  64-bit word, so that it wraps where Go's does. A fraction is multiplied in floating point: what a fraction
  \<open>f / 10^k\<close> of a unit is in nanoseconds is a parameter, which numbers without a fraction never ask for.
\<close>

section \<open>Numbers\<close>

text \<open>The integer part; None when it exceeds \<open>2^63\<close>.\<close>

fun leading_int :: "nat \<Rightarrow> string \<Rightarrow> (nat \<times> string) option" where
  "leading_int x [] = Some (x, [])"
| "leading_int x (c # cs) =
     (if \<not> is_digit c then Some (x, c # cs)
      else if x > 2 ^ 63 div 10 then None
      else let x = 10 * x + digit_val c in if x > 2 ^ 63 then None else leading_int x cs)"

text \<open>The digits of a fraction and how many there are; those that would exceed the range are skipped.\<close>

fun leading_fraction :: "nat \<Rightarrow> nat \<Rightarrow> bool \<Rightarrow> string \<Rightarrow> nat \<times> nat \<times> string" where
  "leading_fraction x k overflow [] = (x, k, [])"
| "leading_fraction x k overflow (c # cs) =
     (if \<not> is_digit c then (x, k, c # cs)
      else if overflow \<or> x > (2 ^ 63 - 1) div 10 then leading_fraction x k True cs
      else let y = 10 * x + digit_val c
           in if y > 2 ^ 63 then leading_fraction x k True cs else leading_fraction y (Suc k) False cs)"

definition units :: "(string \<times> nat) list" where
  "units = [(''ns'', 1), (''us'', 1000), ([CHR 0xC2, CHR 0xB5, CHR ''s''], 1000),
     ([CHR 0xCE, CHR 0xBC, CHR ''s''], 1000), (''ms'', 1000000), (''s'', 1000000000),
     (''m'', 60000000000), (''h'', 3600000000000)]"

definition unit_ns :: "string \<Rightarrow> nat option" where
  "unit_ns u = map_of units u"

section \<open>The parser\<close>

definition in_number :: "char \<Rightarrow> bool" where
  "in_number c \<longleftrightarrow> c = CHR ''.'' \<or> is_digit c"

definition err_duration :: "string \<Rightarrow> go_error" where
  "err_duration orig = Errorf ''time: invalid duration %q'' [orig]"

text \<open>A fraction of a number: its digits, how many, what is left, and whether there was a digit.\<close>

definition fraction_part :: "string \<Rightarrow> nat \<times> nat \<times> string \<times> bool" where
  "fraction_part s =
     (case s of
        CHR ''.'' # r \<Rightarrow> (case leading_fraction 0 0 False r of (f, k, r') \<Rightarrow> (f, k, r', length r' \<noteq> length r))
      | _ \<Rightarrow> (0, 0, s, False))"

text \<open>One term: its nanoseconds and what is left of the string.\<close>

definition parse_term :: "(nat \<Rightarrow> nat \<Rightarrow> nat \<Rightarrow> nat) \<Rightarrow> string \<Rightarrow> string \<Rightarrow> (64 word \<times> string) result" where
  "parse_term fraction_ns orig s =
     (if s = [] \<or> \<not> in_number (hd s) then Inl (err_duration orig)
      else case leading_int 0 s of
             None \<Rightarrow> Inl (err_duration orig)
           | Some (v, s1) \<Rightarrow>
               (case fraction_part s1 of
                  (f, k, s2, post) \<Rightarrow>
                    (let u = takeWhile (\<lambda>c. \<not> in_number c) s2;
                         s3 = dropWhile (\<lambda>c. \<not> in_number c) s2
                     in if length s1 = length s \<and> \<not> post then Inl (err_duration orig)
                        else if u = [] then Inl (Errorf ''time: missing unit in duration %q'' [orig])
                        else case unit_ns u of
                               None \<Rightarrow> Inl (Errorf ''time: unknown unit %q in duration %q'' [u, orig])
                             | Some unit \<Rightarrow>
                                 (if v > 2 ^ 63 div unit then Inl (err_duration orig)
                                  else let w = word_of_nat (v * unit)
                                       in if f = 0 then Inr (w, s3)
                                          else let w = w + word_of_nat (fraction_ns f unit k)
                                               in if w > 2 ^ 63 then Inl (err_duration orig)
                                                  else Inr (w, s3)))))"

lemma leading_int_suffix: "leading_int x s = Some (v, r) \<Longrightarrow> length r \<le> length s"
  by (induction x s rule: leading_int.induct) (auto simp: Let_def split: if_splits)

lemma leading_fraction_suffix: "leading_fraction x k b s = (f, k', r) \<Longrightarrow> length r \<le> length s"
  by (induction x k b s rule: leading_fraction.induct) (auto simp: Let_def split: if_splits)

lemma fraction_part_suffix: "fraction_part s = (f, k, r, p) \<Longrightarrow> length r \<le> length s"
  by (auto simp: fraction_part_def split: list.splits char.splits bool.splits prod.splits
      dest: leading_fraction_suffix)

lemma parse_term_shorter: "parse_term fr orig s = Inr (w, r) \<Longrightarrow> length r < length s"
proof -
  assume p: "parse_term fr orig s = Inr (w, r)"
  obtain v s1 where 1: "leading_int 0 s = Some (v, s1)"
    using p by (auto simp: parse_term_def split: if_splits option.splits)
  obtain f k s2 q where 2: "fraction_part s1 = (f, k, s2, q)" by (cases "fraction_part s1") auto
  have r: "r = dropWhile (\<lambda>c. \<not> in_number c) s2" "takeWhile (\<lambda>c. \<not> in_number c) s2 \<noteq> []"
    using p 1 2 by (auto simp: parse_term_def Let_def split: if_splits option.splits)
  have "length r < length s2"
    using r takeWhile_dropWhile_id [of "\<lambda>c. \<not> in_number c" s2]
    by (metis length_append length_greater_0_conv less_add_same_cancel2)
  with leading_int_suffix [OF 1] fraction_part_suffix [OF 2] show ?thesis by linarith
qed

function parse_terms :: "(nat \<Rightarrow> nat \<Rightarrow> nat \<Rightarrow> nat) \<Rightarrow> string \<Rightarrow> 64 word \<Rightarrow> string \<Rightarrow> 64 word result" where
  "parse_terms fr orig d s =
     (if s = [] then Inr d
      else case parse_term fr orig s of
             Inl err \<Rightarrow> Inl err
           | Inr (v, s') \<Rightarrow>
               (if d + v > 2 ^ 63 then Inl (err_duration orig) else parse_terms fr orig (d + v) s'))"
  by pat_completeness auto
termination
  by (relation "measure (\<lambda>(fr, orig, d, s). length s)") (auto dest: parse_term_shorter)

declare parse_terms.simps [simp del]

definition ParseDuration :: "(nat \<Rightarrow> nat \<Rightarrow> nat \<Rightarrow> nat) \<Rightarrow> string \<Rightarrow> int result" where
  "ParseDuration fr s =
     (let neg = (take 1 s = ''-'');
          t = (if take 1 s = ''-'' \<or> take 1 s = ''+'' then drop 1 s else s)
      in if t = ''0'' then Inr 0
         else if t = [] then Inl (err_duration s)
         else case parse_terms fr s 0 t of
                Inl err \<Rightarrow> Inl err
              | Inr d \<Rightarrow> if neg then Inr (sint (- d))
                        else if d > 2 ^ 63 - 1 then Inl (err_duration s)
                        else Inr (uint d))"

section \<open>Durations without fractions\<close>

definition int_value :: "nat \<Rightarrow> string \<Rightarrow> nat" where
  "int_value x ds = foldl (\<lambda>n c. 10 * n + digit_val c) x ds"

lemma int_value_ge: "x \<le> int_value x ds"
proof (induction ds arbitrary: x)
  case (Cons c ds)
  have "x \<le> 10 * x + digit_val c" by simp
  also have "\<dots> \<le> int_value (10 * x + digit_val c) ds" by (rule Cons.IH)
  finally show ?case by (simp add: int_value_def)
qed (simp add: int_value_def)

lemma leading_int_digits:
  assumes "list_all is_digit ds" and "r = [] \<or> \<not> is_digit (hd r)" and "int_value x ds \<le> 2 ^ 63"
  shows "leading_int x (ds @ r) = Some (int_value x ds, r)"
  using assms
proof (induction ds arbitrary: x)
  case Nil
  then show ?case by (cases r) (simp_all add: int_value_def)
next
  case (Cons c ds)
  have v: "int_value x (c # ds) = int_value (10 * x + digit_val c) ds" by (simp add: int_value_def)
  then have "10 * x + digit_val c \<le> 2 ^ 63" using int_value_ge Cons.prems(3) by (metis order.trans)
  then have "\<not> 2 ^ 63 div 10 < x" by simp
  moreover have "leading_int (10 * x + digit_val c) (ds @ r) = Some (int_value (10 * x + digit_val c) ds, r)"
    by (rule Cons.IH) (use Cons.prems v in simp_all)
  ultimately show ?case
    using Cons.prems(1) \<open>10 * x + digit_val c \<le> 2 ^ 63\<close> unfolding v by (simp add: Let_def)
qed

lemma digits_val_int_value: "digits_val ds = int_value 0 ds"
  by (simp add: digits_val_def int_value_def)

lemma units_ok:
  assumes "unit_ns u = Some n"
  shows "u \<noteq> [] \<and> list_all (\<lambda>c. \<not> in_number c) u \<and> 0 < n"
proof -
  let ?P = "\<lambda>(u, n). u \<noteq> [] \<and> list_all (\<lambda>c. \<not> in_number c) u \<and> 0 < n"
  have "list_all ?P units" by (simp add: units_def in_number_def is_digit_def)
  moreover have "(u, n) \<in> set units" using assms unfolding unit_ns_def by (rule map_of_SomeD)
  ultimately have "?P (u, n)" by (rule list_all_iff [THEN iffD1, THEN bspec])
  then show ?thesis by simp
qed

lemma parse_term_int:
  assumes u: "unit_ns u = Some unit" and n: "n * unit \<le> 2 ^ 63"
    and r: "r = [] \<or> in_number (hd r)"
  shows "parse_term fr orig (show_nat n @ u @ r) = Inr (word_of_nat (n * unit), r)"
proof -
  obtain c us where uc: "u = c # us" using units_ok [OF u] by (cases u) auto
  then have c: "\<not> in_number c" using units_ok [OF u] by simp
  have "1 \<le> unit" using units_ok [OF u] by simp
  then have "n \<le> 2 ^ 63" using n by (metis mult_le_mono2 mult.right_neutral order.trans)
  then have li: "leading_int 0 (show_nat n @ u @ r) = Some (n, u @ r)"
    using leading_int_digits [OF show_nat_digits, of "u @ r" 0 n] c uc
    by (simp add: digits_val_int_value [symmetric] digits_val_show_nat in_number_def)
  have fp: "fraction_part (u @ r) = (0, 0, u @ r, False)"
    using c uc by (auto simp: fraction_part_def in_number_def split: char.splits bool.splits)
  have hd: "in_number (hd (show_nat n @ u @ r))" "show_nat n @ u @ r \<noteq> []"
    using show_nat_nonempty [of n] show_nat_digits [of n]
    by (cases "show_nat n"; simp add: in_number_def)+
  have tw: "takeWhile (\<lambda>c. \<not> in_number c) (u @ r) = u" "dropWhile (\<lambda>c. \<not> in_number c) (u @ r) = r"
    using units_ok [OF u] r
    by (cases r; simp add: list_all_iff takeWhile_append2 dropWhile_append2)+
  have le: "\<not> 2 ^ 63 div unit < n"
    using n \<open>1 \<le> unit\<close> by (simp add: not_less less_eq_div_iff_mult_less_eq)
  have len: "length (u @ r) \<noteq> length (show_nat n @ u @ r)" using show_nat_nonempty [of n] by simp
  have ne: "u \<noteq> []" using uc by simp
  show ?thesis
    using hd len ne le
    by (simp only: parse_term_def li fp tw u Let_def option.case prod.case if_False de_Morgan_disj not_not
        simp_thms HOL.if_True)
qed

text \<open>A duration written as a list of numbers with units.\<close>

definition show_terms :: "(nat \<times> string) list \<Rightarrow> string" where
  "show_terms ts = concat (map (\<lambda>(n, u). show_nat n @ u) ts)"

definition terms_ns :: "(nat \<times> string) list \<Rightarrow> nat" where
  "terms_ns ts = sum_list (map (\<lambda>(n, u). n * the (unit_ns u)) ts)"

lemma word_bound:
  assumes "n \<le> 2 ^ 63"
  shows "unat (word_of_nat n :: 64 word) = n"
proof -
  have "n < 2 ^ 64" using assms by simp
  then show ?thesis by (simp add: unat_of_nat take_bit_nat_eq_self)
qed

lemma word_not_over: "n \<le> 2 ^ 63 \<Longrightarrow> \<not> (2 ^ 63 :: 64 word) < word_of_nat n"
  using word_bound [of n] by (simp add: word_less_nat_alt)

lemma parse_terms_show:
  assumes "\<forall>(n, u) \<in> set ts. unit_ns u \<noteq> None" and "d + terms_ns ts \<le> 2 ^ 63"
  shows "parse_terms fr orig (word_of_nat d) (show_terms ts) = Inr (word_of_nat (d + terms_ns ts))"
  using assms
proof (induction ts arbitrary: d)
  case Nil
  then show ?case by (simp add: show_terms_def terms_ns_def parse_terms.simps)
next
  case (Cons t ts)
  obtain n u where t: "t = (n, u)" by (cases t)
  then obtain unit where u: "unit_ns u = Some unit" using Cons.prems(1) by auto
  have sum: "terms_ns (t # ts) = n * unit + terms_ns ts" using t u by (simp add: terms_ns_def)
  have hd: "show_terms ts = [] \<or> in_number (hd (show_terms ts))"
  proof (cases ts)
    case (Cons t' ts')
    then show ?thesis
      using show_nat_nonempty [of "fst t'"] show_nat_digits [of "fst t'"]
      by (cases t'; cases "show_nat (fst t')") (simp_all add: show_terms_def in_number_def)
  qed (simp add: show_terms_def)
  have pt: "parse_term fr orig (show_terms (t # ts)) = Inr (word_of_nat (n * unit), show_terms ts)"
    using parse_term_int [OF u _ hd] Cons.prems(2) sum t by (simp add: show_terms_def)
  have ne: "show_terms (t # ts) \<noteq> []" using t show_nat_nonempty [of n] by (simp add: show_terms_def)
  have IH: "parse_terms fr orig (word_of_nat (d + n * unit)) (show_terms ts) =
      Inr (word_of_nat (d + n * unit + terms_ns ts))"
    using Cons.IH [of "d + n * unit"] Cons.prems sum by simp
  have "\<not> (2 ^ 63 :: 64 word) < word_of_nat (d + n * unit)"
    by (rule word_not_over) (use Cons.prems(2) sum in simp)
  then have "\<not> (2 ^ 63 :: 64 word) < word_of_nat d + word_of_nat (n * unit)" by simp
  moreover have "word_of_nat d + word_of_nat (n * unit) = (word_of_nat (d + n * unit) :: 64 word)" by simp
  ultimately show ?case
    using pt ne IH by (subst parse_terms.simps) (simp only: if_False sum.case prod.case sum add.assoc)
qed

lemma show_terms_start:
  assumes "ts \<noteq> []"
  shows "\<exists>c cs. show_terms ts = c # cs \<and> is_digit c"
proof -
  obtain n u ts' where "ts = (n, u) # ts'" using assms by (cases ts) auto
  then show ?thesis
    using show_nat_nonempty [of n] show_nat_digits [of n] by (cases "show_nat n") (auto simp: show_terms_def)
qed

lemma show_terms_not_0:
  assumes "ts \<noteq> []" and "\<forall>(n, u) \<in> set ts. unit_ns u \<noteq> None"
  shows "show_terms ts \<noteq> ''0''"
proof -
  obtain n u ts' where ts: "ts = (n, u) # ts'" using assms by (cases ts) auto
  then obtain unit where "unit_ns u = Some unit" using assms(2) by auto
  then have "u \<noteq> []" using units_ok by blast
  then have "2 \<le> length (show_nat n) + length u"
    using show_nat_nonempty [of n] by (cases u; cases "show_nat n") simp_all
  then have "2 \<le> length (show_terms ts)" using ts by (simp add: show_terms_def)
  then show ?thesis by auto
qed

lemma ParseDuration_terms:
  assumes "ts \<noteq> []" and "\<forall>(n, u) \<in> set ts. unit_ns u \<noteq> None" and "terms_ns ts < 2 ^ 63"
  shows "ParseDuration fr (show_terms ts) = Inr (int (terms_ns ts))"
proof -
  obtain c cs where s: "show_terms ts = c # cs" "is_digit c" using show_terms_start [OF assms(1)] by blast
  then have sign: "take 1 (show_terms ts) \<noteq> ''-''" "take 1 (show_terms ts) \<noteq> ''+''"
    using digit_not_sign by auto
  have p: "parse_terms fr (show_terms ts) 0 (show_terms ts) = Inr (word_of_nat (terms_ns ts))"
    using parse_terms_show [of ts 0] assms by simp
  have v: "uint (word_of_nat (terms_ns ts) :: 64 word) = int (terms_ns ts)"
    using word_bound [of "terms_ns ts"] assms(3) by (simp add: uint_nat)
  have "\<not> (2 ^ 63 - 1 :: 64 word) < word_of_nat (terms_ns ts)"
    using word_bound [of "terms_ns ts"] assms(3) by (simp add: word_less_nat_alt)
  moreover have "show_terms ts \<noteq> ''0''" "show_terms ts \<noteq> []" using show_terms_not_0 [OF assms(1,2)] s by simp_all
  ultimately show ?thesis
    using p v sign by (simp only: ParseDuration_def Let_def if_False sum.case simp_thms)
qed

lemma ParseDuration_negative:
  assumes "ts \<noteq> []" and "\<forall>(n, u) \<in> set ts. unit_ns u \<noteq> None" and "terms_ns ts < 2 ^ 63"
  shows "ParseDuration fr (CHR ''-'' # show_terms ts) = Inr (- int (terms_ns ts))"
proof -
  obtain c cs where s: "show_terms ts = c # cs" "is_digit c" using show_terms_start [OF assms(1)] by blast
  have p: "parse_terms fr (CHR ''-'' # show_terms ts) 0 (show_terms ts) = Inr (word_of_nat (terms_ns ts))"
    using parse_terms_show [of ts 0] assms by simp
  have "sint (- word_of_nat (terms_ns ts) :: 64 word) = - int (terms_ns ts)"
  proof -
    have "sint (- word_of_nat (terms_ns ts) :: 64 word) = signed_take_bit 63 (- int (terms_ns ts))"
      using sint_sbintrunc' [where 'a = 64 and bin = "- int (terms_ns ts)"] by simp
    also have "\<dots> = - int (terms_ns ts)"
      using assms(3) by (intro signed_take_bit_int_eq_self) simp_all
    finally show ?thesis .
  qed
  then show ?thesis
    using p s show_terms_not_0 [OF assms(1,2)] by (auto simp: ParseDuration_def Let_def)
qed

text \<open>Two terms of \<open>2^63\<close> nanoseconds add up to none: the sum wraps and the bound is not exceeded.\<close>

lemma ParseDuration_wraps:
  "ParseDuration fr ''9223372036854775808ns9223372036854775808ns'' = Inr 0"
proof -
  let ?t = "''9223372036854775808ns''"
  have *: "parse_term fr orig (?t @ r) = Inr (2 ^ 63, r)" if "r = [] \<or> in_number (hd r)" for orig r
  proof -
    have d: "digit_char 0 = CHR ''0''" "digit_char 2 = CHR ''2''" "digit_char 3 = CHR ''3''" "digit_char 4 = CHR ''4''"
      "digit_char 5 = CHR ''5''" "digit_char 6 = CHR ''6''" "digit_char 7 = CHR ''7''" "digit_char 8 = CHR ''8''"
      "digit_char 9 = CHR ''9''"
      by code_simp+
    have "show_nat (2 ^ 63) = ''9223372036854775808''" by (simp add: show_nat.simps d)
    then show ?thesis using parse_term_int [of "''ns''" 1 "2 ^ 63" r fr orig] that
      by (simp add: unit_ns_def units_def)
  qed
  have "in_number (hd ?t)" by (simp add: in_number_def is_digit_def)
  then have 1: "parse_term fr (?t @ ?t) (?t @ ?t) = Inr (2 ^ 63, ?t)" using * by blast
  have 2: "parse_term fr (?t @ ?t) ?t = Inr (2 ^ 63, [])" using * [of "[]"] by simp
  have "parse_terms fr (?t @ ?t) 0 (?t @ ?t) = Inr 0"
    using 1 2 by (simp add: parse_terms.simps)
  then show ?thesis by (simp add: ParseDuration_def)
qed

end
