(* ===== verification/Eec_Config.thy ===== *)
theory Eec_Config
  imports Go_Os Go_Url Go_Duration
begin

text \<open>
  \<^verbatim>\<open>internal/confmap/provider/eecprovider/config.go\<close>: the options in the fragment of the provider's
  URI. The query parameters are a map from a key to its values; durations are in nanoseconds. The parameter
  \<open>fr\<close> is the floating point product of \<^verbatim>\<open>time.ParseDuration\<close>.
\<close>

definition RefreshInterval :: string where "RefreshInterval = ''refresh-interval''"
definition Timeout :: string where "Timeout = ''timeout''"
definition AuthFile :: string where "AuthFile = ''auth-file''"
definition AuthEnv :: string where "AuthEnv = ''auth-env''"
definition Insecure :: string where "Insecure = ''insecure''"

lemmas option_defs = RefreshInterval_def Timeout_def AuthFile_def AuthEnv_def Insecure_def

record config =
  refreshInterval :: int
  timeout :: int
  authToken :: string
  insecure :: bool

definition second_ns :: int where
  "second_ns = 1000000000"

text \<open>The steps of \<open>parseConfig\<close>, in order; each takes the configuration so far.\<close>

definition parse_intervals ::
    "(nat \<Rightarrow> nat \<Rightarrow> nat \<Rightarrow> nat) \<Rightarrow> url_values \<Rightarrow> config \<Rightarrow> config result" where
  "parse_intervals fr params cfg =
     (case (if params_has params RefreshInterval
            then (case ParseDuration fr (params_get params RefreshInterval) of
                    Inl err \<Rightarrow> Inl err
                  | Inr d \<Rightarrow> Inr (cfg\<lparr>refreshInterval := d\<rparr>))
            else Inr cfg) of
        Inl err \<Rightarrow> Inl err
      | Inr cfg \<Rightarrow>
          (if params_has params Timeout
           then (case ParseDuration fr (params_get params Timeout) of
                   Inl err \<Rightarrow> Inl err
                 | Inr d \<Rightarrow> Inr (cfg\<lparr>timeout := d\<rparr>))
           else Inr cfg))"

definition parse_auth :: "os \<Rightarrow> url_values \<Rightarrow> config \<Rightarrow> config result" where
  "parse_auth w params cfg =
     (if params_has params AuthFile \<and> params_has params AuthEnv
      then Inl (Errorf ''cannot pass both auth-file and auth-env'' [])
      else case (if params_has params AuthFile
                 then (case read_file w (params_get params AuthFile) of
                         Inl err \<Rightarrow> Inl err
                       | Inr by \<Rightarrow> Inr (cfg\<lparr>authToken := by\<rparr>))
                 else Inr cfg) of
             Inl err \<Rightarrow> Inl err
           | Inr cfg \<Rightarrow>
               (if params_has params AuthEnv
                then let e = getenv w (params_get params AuthEnv)
                     in if e = []
                        then Inl (Errorf ''auth token environment variable %q is not set''
                                    [params_get params AuthEnv])
                        else Inr (cfg\<lparr>authToken := e\<rparr>)
                else Inr cfg))"

definition parse_insecure :: "url_values \<Rightarrow> config \<Rightarrow> config result" where
  "parse_insecure params cfg =
     (if params_has params Insecure
      then let insecureParam = params_get params Insecure
           in if insecureParam = ''true'' then Inr (cfg\<lparr>insecure := True\<rparr>)
              else if insecureParam \<noteq> ''false''
              then Inl (Errorf ''valid values for %q are {true, false}; got %q'' [Insecure, insecureParam])
              else Inr cfg
      else Inr cfg)"

definition parseConfig :: "(nat \<Rightarrow> nat \<Rightarrow> nat \<Rightarrow> nat) \<Rightarrow> os \<Rightarrow> url_values \<Rightarrow> config result" where
  "parseConfig fr w params =
     (let cfg = \<lparr>refreshInterval = 10 * second_ns, timeout = 8 * second_ns, authToken = [],
                 insecure = False\<rparr>
      in case parse_intervals fr params cfg of
           Inl err \<Rightarrow> Inl err
         | Inr cfg \<Rightarrow>
             (case parse_auth w params cfg of
                Inl err \<Rightarrow> Inl err
              | Inr cfg \<Rightarrow> parse_insecure params cfg))"

section \<open>What the options mean\<close>

text \<open>An option's value, or its default when it is not given.\<close>

definition option_or :: "url_values \<Rightarrow> string \<Rightarrow> (string \<Rightarrow> 'a result) \<Rightarrow> 'a \<Rightarrow> 'a result" where
  "option_or params key parse dflt =
     (if params_has params key then parse (params_get params key) else Inr dflt)"

lemma parse_intervals_Inr:
  "parse_intervals fr params cfg = Inr cfg' \<longleftrightarrow>
   (\<exists>r t. option_or params RefreshInterval (ParseDuration fr) (refreshInterval cfg) = Inr r \<and>
      option_or params Timeout (ParseDuration fr) (timeout cfg) = Inr t \<and>
      cfg' = cfg\<lparr>refreshInterval := r, timeout := t\<rparr>)"
  by (auto simp: parse_intervals_def option_or_def split: sum.splits)

text \<open>The token: a file's contents or a non-empty environment variable, never both.\<close>

definition token_of :: "os \<Rightarrow> url_values \<Rightarrow> string result" where
  "token_of w params =
     (case (params_has params AuthFile, params_has params AuthEnv) of
        (True, True) \<Rightarrow> Inl (Errorf ''cannot pass both auth-file and auth-env'' [])
      | (True, False) \<Rightarrow> read_file w (params_get params AuthFile)
      | (False, True) \<Rightarrow>
          (if getenv w (params_get params AuthEnv) = []
           then Inl (Errorf ''auth token environment variable %q is not set'' [params_get params AuthEnv])
           else Inr (getenv w (params_get params AuthEnv)))
      | (False, False) \<Rightarrow> Inr [])"

lemma parse_auth_eq:
  "parse_auth w params cfg =
   (if \<not> params_has params AuthFile \<and> \<not> params_has params AuthEnv then Inr cfg
    else map_sum id (\<lambda>t. cfg\<lparr>authToken := t\<rparr>) (token_of w params))"
  by (auto simp: parse_auth_def token_of_def Let_def split: sum.splits)

lemma parse_insecure_Inr:
  "parse_insecure params cfg = Inr cfg' \<longleftrightarrow>
   (params_has params Insecure \<longrightarrow> params_get params Insecure \<in> {''true'', ''false''}) \<and>
   cfg' = (if params_has params Insecure \<and> params_get params Insecure = ''true''
           then cfg\<lparr>insecure := True\<rparr> else cfg)"
  by (auto simp: parse_insecure_def Let_def)

text \<open>The two values of a flag.\<close>

definition flag_of :: "string \<Rightarrow> bool result" where
  "flag_of s =
     (if s = ''true'' then Inr True else if s = ''false'' then Inr False
      else Inl (Errorf ''valid values for %q are {true, false}; got %q'' [Insecure, s]))"

text \<open>
  C26: a configuration is accepted exactly when both durations parse (where given), the token can be
  obtained from one source and insecure, if given, is true or false; and then it holds those
  values, with a refresh interval of ten seconds, a timeout of eight, no token and TLS as the
  defaults.
\<close>

theorem parseConfig_accepts:
  "parseConfig fr w params = Inr cfg \<longleftrightarrow>
   option_or params RefreshInterval (ParseDuration fr) 10000000000 = Inr (refreshInterval cfg) \<and>
   option_or params Timeout (ParseDuration fr) 8000000000 = Inr (timeout cfg) \<and>
   token_of w params = Inr (authToken cfg) \<and>
   option_or params Insecure flag_of False = Inr (insecure cfg)"
proof -
  let ?d = "\<lparr>refreshInterval = 10000000000, timeout = 8000000000, authToken = [], insecure = False\<rparr>"
  have "parseConfig fr w params = Inr cfg \<longleftrightarrow>
      (\<exists>c1 c2. parse_intervals fr params ?d = Inr c1 \<and> parse_auth w params c1 = Inr c2 \<and>
         parse_insecure params c2 = Inr cfg)"
    by (auto simp: parseConfig_def second_ns_def split: sum.splits)
  also have "\<dots> \<longleftrightarrow> (\<exists>r t a. option_or params RefreshInterval (ParseDuration fr) 10000000000 = Inr r \<and>
      option_or params Timeout (ParseDuration fr) 8000000000 = Inr t \<and> token_of w params = Inr a \<and>
      parse_insecure params \<lparr>refreshInterval = r, timeout = t, authToken = a, insecure = False\<rparr> = Inr cfg)"
    unfolding parse_intervals_Inr parse_auth_eq
    by (cases "token_of w params")
      (auto simp: token_of_def split: if_splits)
  also have "\<dots> \<longleftrightarrow> option_or params RefreshInterval (ParseDuration fr) 10000000000 = Inr (refreshInterval cfg) \<and>
     option_or params Timeout (ParseDuration fr) 8000000000 = Inr (timeout cfg) \<and>
     token_of w params = Inr (authToken cfg) \<and>
     (params_has params Insecure \<longrightarrow> params_get params Insecure \<in> {''true'', ''false''}) \<and>
     insecure cfg = (params_has params Insecure \<and> params_get params Insecure = ''true'')"
    by (cases cfg) (auto simp: parse_insecure_Inr)
  finally show ?thesis by (auto simp: option_or_def flag_of_def)
qed

section \<open>Fragments\<close>

text \<open>A duration as an option gives it: a sign and numbers with units.\<close>

definition duration_text :: "bool \<Rightarrow> (nat \<times> string) list \<Rightarrow> string" where
  "duration_text neg ts = (if neg then CHR ''-'' # show_terms ts else show_terms ts)"

definition duration_ns :: "bool \<Rightarrow> (nat \<times> string) list \<Rightarrow> int" where
  "duration_ns neg ts = (if neg then - int (terms_ns ts) else int (terms_ns ts))"

definition valid_terms :: "(nat \<times> string) list \<Rightarrow> bool" where
  "valid_terms ts \<longleftrightarrow> ts \<noteq> [] \<and> (\<forall>(n, u) \<in> set ts. unit_ns u \<noteq> None) \<and> terms_ns ts < 2 ^ 63"

lemma ParseDuration_text: "valid_terms ts \<Longrightarrow> ParseDuration fr (duration_text neg ts) = Inr (duration_ns neg ts)"
  by (simp add: valid_terms_def duration_text_def duration_ns_def ParseDuration_terms ParseDuration_negative)

lemma plain_append [simp]: "plain (a @ b) \<longleftrightarrow> plain a \<and> plain b"
  by (simp add: plain_def)

lemma plain_digits: "list_all is_digit s \<Longrightarrow> plain s"
  unfolding plain_def by (erule list.pred_mono_strong) (auto simp: is_digit_def)

lemma plain_unit:
  assumes "unit_ns u \<noteq> None"
  shows "plain u"
proof -
  have "list_all (\<lambda>(u, n). plain u) units" by (simp add: units_def plain_def)
  moreover obtain n where "(u, n) \<in> set units"
    using assms unfolding unit_ns_def by (auto dest: map_of_SomeD)
  ultimately show ?thesis by (auto simp: list_all_iff)
qed

lemma plain_show_terms: "\<forall>(n, u) \<in> set ts. unit_ns u \<noteq> None \<Longrightarrow> plain (show_terms ts)"
proof (induction ts)
  case (Cons t ts)
  then show ?case
    by (cases t) (auto simp: show_terms_def plain_digits show_nat_digits plain_unit)
qed (simp add: show_terms_def plain_def)

lemma plain_duration: "valid_terms ts \<Longrightarrow> plain (duration_text neg ts)"
proof -
  assume "valid_terms ts"
  then have "plain (show_terms ts)" by (intro plain_show_terms) (simp add: valid_terms_def)
  moreover have "plain (CHR ''-'' # s) = plain s" for s by (simp add: plain_def)
  ultimately show ?thesis by (simp add: duration_text_def)
qed

definition flag_text :: "bool \<Rightarrow> string" where
  "flag_text b = (if b then ''true'' else ''false'')"

lemma plain_names: "plain RefreshInterval" "plain Timeout" "plain AuthEnv" "plain AuthFile" "plain Insecure"
    "plain (flag_text b)"
  by (simp_all add: option_defs plain_def flag_text_def)

lemma values_params:
  "k \<in> fst ` set kvs \<Longrightarrow> option_or (values_of kvs) k f d = f (the (map_of kvs k))"
  "k \<notin> fst ` set kvs \<Longrightarrow> option_or (values_of kvs) k f d = Inr d"
  by (simp_all add: option_or_def values_of_has values_of_get)

definition option_list :: "bool \<times> (nat \<times> string) list \<Rightarrow> bool \<times> (nat \<times> string) list \<Rightarrow> string \<Rightarrow> bool \<Rightarrow>
    (string \<times> string) list" where
  "option_list refresh tmo env_name ins =
     [(RefreshInterval, duration_text (fst refresh) (snd refresh)), (Timeout, duration_text (fst tmo) (snd tmo)),
      (AuthEnv, env_name), (Insecure, flag_text ins)]"

text \<open>
  C15: a fragment that gives every option as text is read back as the configuration it describes: durations as any
  sums of numbers with units, also negative ones, to the nanosecond, the token from the environment, and the flag.
\<close>

theorem fragment_roundtrip:
  assumes "valid_terms (snd refresh)" and "valid_terms (snd tmo)" and "plain env_name" and "getenv w env_name \<noteq> []"
  shows "\<exists>params. ParseQuery (settings (option_list refresh tmo env_name ins)) = Inr params \<and>
    parseConfig fr w params =
      Inr \<lparr>refreshInterval = duration_ns (fst refresh) (snd refresh), timeout = duration_ns (fst tmo) (snd tmo),
           authToken = getenv w env_name, insecure = ins\<rparr>"
proof (intro exI conjI)
  let ?kvs = "option_list refresh tmo env_name ins"
  have "plain_settings ?kvs"
    using assms plain_duration plain_names
    by (simp add: plain_settings_def option_list_def) (simp add: option_defs)
  then show "ParseQuery (settings ?kvs) = Inr (values_of ?kvs)"
    by (rule ParseQuery_settings) (simp add: option_list_def max_params_def)
  have keys: "AuthFile \<notin> fst ` set ?kvs" "RefreshInterval \<in> fst ` set ?kvs" "Timeout \<in> fst ` set ?kvs"
    "AuthEnv \<in> fst ` set ?kvs" "Insecure \<in> fst ` set ?kvs"
    by (simp_all add: option_list_def) (simp add: option_defs)
  have vals: "map_of ?kvs RefreshInterval = Some (duration_text (fst refresh) (snd refresh))"
    "map_of ?kvs Timeout = Some (duration_text (fst tmo) (snd tmo))"
    "map_of ?kvs AuthEnv = Some env_name" "map_of ?kvs Insecure = Some (flag_text ins)"
    by (simp_all add: option_list_def option_defs)
  have "token_of w (values_of ?kvs) = Inr (getenv w env_name)"
    using assms(4) by (simp add: token_of_def values_of_has values_of_get keys vals)
  moreover have "flag_of (flag_text ins) = Inr ins" by (simp add: flag_of_def flag_text_def)
  ultimately show "parseConfig fr w (values_of ?kvs) =
      Inr \<lparr>refreshInterval = duration_ns (fst refresh) (snd refresh), timeout = duration_ns (fst tmo) (snd tmo),
           authToken = getenv w env_name, insecure = ins\<rparr>"
    unfolding parseConfig_accepts by (simp add: values_params keys vals ParseDuration_text assms)
qed

definition token_os :: os where
  "token_os = \<lparr>os_files = Map.empty, os_readable = (\<lambda>_. True), os_writable = (\<lambda>_. True),
     os_env = [''EEC_TOKEN'' \<mapsto> ''t1''], os_stdout = []\<rparr>"

theorem fragment_roundtrip_witness:
  "\<exists>params. ParseQuery (settings (option_list (True, [(1, ''h''), (30, ''m'')]) (False, [(5, ''s'')]) ''EEC_TOKEN'' True)) = Inr params \<and>
    parseConfig (\<lambda>f u k. f * u div 10 ^ k) token_os params =
      Inr \<lparr>refreshInterval = -5400000000000, timeout = 5000000000, authToken = ''t1'', insecure = True\<rparr>"
  using fragment_roundtrip [of "(True, [(1, ''h''), (30, ''m'')])" "(False, [(5, ''s'')])" "''EEC_TOKEN''" token_os True "\<lambda>f u k. f * u div 10 ^ k"]
  by (simp add: valid_terms_def unit_ns_def units_def terms_ns_def duration_ns_def token_os_def getenv_def plain_def)

text \<open>
  The fragment of a URL is decoded when the URL is parsed and its settings are decoded again as those of a query: a
  token file \<^verbatim>\<open>/etc/a+b\<close>, escaped once as in a query, is looked for as \<^verbatim>\<open>/etc/a b\<close>, and an escaped
  percent sign makes the query malformed.
\<close>

lemma fragment_decoded_twice:
  assumes "parse_base ''eec:h'' = Inr url"
  shows "\<exists>u. url_Parse parse_base ''eec:h#auth-file=/etc/a%2Bb'' = Inr u \<and>
      map_sum id (\<lambda>m. params_get m AuthFile) (ParseQuery (Fragment u)) = Inr ''/etc/a b''"
    and "map_sum id (\<lambda>m. params_get m AuthFile) (ParseQuery ''auth-file=/etc/a%2Bb'') = Inr ''/etc/a+b''"
    and "\<exists>u. url_Parse parse_base ''eec:h#auth-file=/etc/a%25'' = Inr u \<and>
      ParseQuery (Fragment u) = Inl (escape_error ''%'')"
proof -
  have [simp]: "char_of (43 :: nat) = CHR ''+''" "char_of (37 :: nat) = CHR ''%''" by code_simp+
  have s: "split_on ''auth-file=/etc/a+b'' ''&'' = [''auth-file=/etc/a+b'']"
    "split_on ''auth-file=/etc/a%2Bb'' ''&'' = [''auth-file=/etc/a%2Bb'']"
    "split_on ''auth-file=/etc/a%'' ''&'' = [''auth-file=/etc/a%'']"
    by (simp_all add: split_on_char_free)
  show "\<exists>u. url_Parse parse_base ''eec:h#auth-file=/etc/a%2Bb'' = Inr u \<and>
      map_sum id (\<lambda>m. params_get m AuthFile) (ParseQuery (Fragment u)) = Inr ''/etc/a b''"
    using assms by (simp add: url_Parse_def cut_def hex_val_def ParseQuery_def s query_setting_def max_params_def
        add_value_def params_get_def AuthFile_def)
  show "map_sum id (\<lambda>m. params_get m AuthFile) (ParseQuery ''auth-file=/etc/a%2Bb'') = Inr ''/etc/a+b''"
    by (simp add: cut_def hex_val_def ParseQuery_def s query_setting_def max_params_def
        add_value_def params_get_def AuthFile_def)
  show "\<exists>u. url_Parse parse_base ''eec:h#auth-file=/etc/a%25'' = Inr u \<and>
      ParseQuery (Fragment u) = Inl (escape_error ''%'')"
    using assms by (simp add: url_Parse_def cut_def hex_val_def ParseQuery_def s query_setting_def max_params_def
        escape_error_def)
qed

end
