(* ===== verification/Eec_Provider.thy ===== *)
theory Eec_Provider
  imports Eec_Config
begin

text \<open>
  \<^verbatim>\<open>internal/confmap/provider/eecprovider\<close>: \<^verbatim>\<open>provider.go\<close>, \<^verbatim>\<open>watcher.go\<close> and \<^verbatim>\<open>yaml.go\<close> as a
  state machine. The state is the provider, the goroutines of its watchers, the calls of
  \<^verbatim>\<open>Retrieve\<close> in progress, and the trace of what was observable; the steps are the pieces of code
  between two points where a goroutine waits (for the ticker, for an answer), so every
  interleaving of retrievals, polls, cancellations and the shutdown is a sequence of steps.
\<close>

section \<open>Environment\<close>

text \<open>
  Parsing what is before the fragment of a URL and printing a URL, the floating point product of durations,
  the hash, the certificate pool and the YAML library are parameters.
\<close>

record ('y, 'c) eec_env =
  parse_base :: "string \<Rightarrow> parsed_url result"
  url_string :: "parsed_url \<Rightarrow> string"
  fraction_ns :: "nat \<Rightarrow> nat \<Rightarrow> nat \<Rightarrow> nat"
  clean_path :: "string \<Rightarrow> string"
  system_pool :: "string list result"
  valid_pem :: "string \<Rightarrow> bool"
  request_error :: "string \<Rightarrow> go_error option"
  sha256 :: "string \<Rightarrow> string"
  yaml_unmarshal :: "string \<Rightarrow> 'y result"
  new_retrieved :: "'y \<Rightarrow> 'c result"

datatype http_outcome =
    No_response go_error
  | Bad_body nat go_error
  | Answered nat string

section \<open>State\<close>

definition EECScheme :: string where "EECScheme = ''eec''"
definition FirstRequestHeaderKey :: string where "FirstRequestHeaderKey = ''X-Otelcol-First-Request''"
definition ConfigChangedHeaderKey :: string where "ConfigChangedHeaderKey = ''X-Otelcol-Config-Changed''"

definition AuthHeaderKey :: string where [simp]: "AuthHeaderKey = ''Authorization''"

text \<open>\<^verbatim>\<open>fmt.Sprintf\<close> with the format of API tokens.\<close>

definition ApiTokenPrefixFormat :: "string \<Rightarrow> string" where [simp]: "ApiTokenPrefixFormat tok = ''Api-Token '' @ tok"

datatype http_client = Plain_client | Tls_client bool "string list"

record eec_request =
  er_url :: string
  er_header :: "(string \<times> string) list"

record provider =
  caCertPath :: string
  insecureSkipVerify :: bool
  shutdown :: bool
  watcherCancelMap :: "string \<rightharpoonup> nat"
  newConfig :: "string \<rightharpoonup> string"

text \<open>
  A watcher goroutine: started, waiting in the select, polling (a request is under way), or
  returned. Its context is cancelled by the function the provider keeps for its URL.
\<close>

datatype phase = Started | Waiting | Polling | Returned

record watcher =
  w_url :: string
  w_token :: string
  w_interval :: int
  configHash :: string
  configChanged :: string
  w_phase :: phase
  w_cancelled :: bool

text \<open>A call of \<open>Retrieve\<close> that waits for its request, or has the bytes of the configuration.\<close>

datatype progress = Fetching | Have string

record retrieval =
  r_url :: string
  r_cfg :: config
  r_client :: http_client
  r_watch :: bool
  r_progress :: progress

text \<open>
  What is observable: a request of a retrieval (None) or a watcher, a configuration served from
  the cache, a failed retrieval, a watcher put to work on a configuration, the configuration a
  retrieval returns, and the change event a watcher sends.
\<close>

datatype 'c obs =
    Requested "nat option" eec_request
  | Served_cached string string
  | Failed go_error
  | Watching nat string string
  | Retrieved string "'c result"
  | Changed nat string string

record 'c sys =
  prov :: provider
  watchers :: "watcher list"
  retrievals :: "retrieval list"
  trace :: "'c obs list"
  crashed :: bool

definition newProvider :: provider where
  "newProvider = \<lparr>caCertPath = [], insecureSkipVerify = False, shutdown = False,
     watcherCancelMap = Map.empty, newConfig = Map.empty\<rparr>"

definition NewFactory :: "unit \<Rightarrow> provider" where
  "NewFactory = (\<lambda>_. newProvider)"

definition provider_Scheme :: "provider \<Rightarrow> string" where
  "provider_Scheme p = EECScheme"

definition init_sys :: "provider \<Rightarrow> 'c sys" where
  "init_sys p = \<lparr>prov = p, watchers = [], retrievals = [], trace = [], crashed = False\<rparr>"

definition observe :: "'c obs \<Rightarrow> 'c sys \<Rightarrow> 'c sys" where
  "observe ob s = s\<lparr>trace := trace s @ [ob]\<rparr>"

section \<open>Retrieve\<close>

definition createClient :: "('y, 'c) eec_env \<Rightarrow> os \<Rightarrow> provider \<Rightarrow> bool \<Rightarrow> http_client result" where
  "createClient env w p ins =
     (if ins then Inr Plain_client
      else case system_pool env of
             Inl err \<Rightarrow> Inl (Wrapf ''unable to create a cert pool: %w'' [] err)
           | Inr pool \<Rightarrow>
               (if caCertPath p \<noteq> []
                then (case read_file w (clean_path env (caCertPath p)) of
                        Inl err \<Rightarrow> Inl (Wrapf ''unable to read CA from %q URI: %w'' [caCertPath p] err)
                      | Inr cert \<Rightarrow>
                          if \<not> valid_pem env cert
                          then Inl (Errorf ''unable to add CA from uri: %s into the cert pool'' [caCertPath p])
                          else Inr (Tls_client (insecureSkipVerify p) (pool @ [cert])))
                else Inr (Tls_client (insecureSkipVerify p) pool)))"

definition newContextBoundRequest ::
    "('y, 'c) eec_env \<Rightarrow> string \<Rightarrow> string \<Rightarrow> eec_request result" where
  "newContextBoundRequest env url tok =
     (case request_error env url of
        Some err \<Rightarrow> Inl err
      | None \<Rightarrow>
          Inr \<lparr>er_url = url,
               er_header = (if tok \<noteq> [] then [(AuthHeaderKey, ApiTokenPrefixFormat tok)] else [])\<rparr>)"

definition add_header :: "eec_request \<Rightarrow> string \<Rightarrow> string \<Rightarrow> eec_request" where
  "add_header rq k v = rq\<lparr>er_header := er_header rq @ [(k, v)]\<rparr>"

definition getConfigBytes :: "string \<Rightarrow> http_outcome \<Rightarrow> string result" where
  "getConfigBytes url outcome =
     (case outcome of
        No_response err \<Rightarrow>
          Inl (Wrapf ''unable to download the file via HTTP GET for uri %q: %w '' [url] err)
      | Bad_body code err \<Rightarrow>
          (if code \<noteq> 200
           then Inl (Errorf ''failed to load resource from uri %q. status code: %d'' [[], show_nat code])
           else Inl (Wrapf ''fail to read the response body from uri %q: %w'' [[]] err))
      | Answered code body \<Rightarrow>
          (if code \<noteq> 200
           then Inl (Errorf ''failed to load resource from uri %q. status code: %d'' [[], show_nat code])
           else Inr body))"

text \<open>The first part of \<open>Retrieve\<close>: the URL to request, the configuration and the client.\<close>

definition retrieve_target ::
    "('y, 'c) eec_env \<Rightarrow> os \<Rightarrow> provider \<Rightarrow> string \<Rightarrow> (string \<times> config \<times> http_client) result" where
  "retrieve_target env w p uri =
     (if \<not> has_prefix uri (EECScheme @ '':'')
      then Inl (Errorf ''%q uri is not supported by %q provider'' [uri, EECScheme])
      else case url_Parse (parse_base env) uri of
             Inl err \<Rightarrow> Inl err
           | Inr parsedUrl \<Rightarrow>
               (case ParseQuery (Fragment parsedUrl) of
                  Inl err \<Rightarrow> Inl err
                | Inr params \<Rightarrow>
                    (case parseConfig (fraction_ns env) w params of
                       Inl err \<Rightarrow> Inl err
                     | Inr cfg \<Rightarrow>
                         (let parsedUrl = parsedUrl\<lparr>Fragment := []\<rparr>
                          in case createClient env w p (insecure cfg) of
                               Inl err \<Rightarrow> Inl (Wrapf ''unable to configure http transport layer: %w'' [] err)
                             | Inr client \<Rightarrow>
                                 (let parsedUrl = (if insecure cfg then parsedUrl\<lparr>Scheme := ''http''\<rparr>
                                                   else parsedUrl\<lparr>Scheme := ''https''\<rparr>)
                                  in Inr (url_string env parsedUrl, cfg, client))))))"

text \<open>
  The second part: a configuration the watcher has cached is taken from the cache and removed
  there; otherwise the request is sent, marked as a first request.
\<close>

definition begin_retrieve :: "('y, 'c) eec_env \<Rightarrow> os \<Rightarrow> string \<Rightarrow> bool \<Rightarrow> 'c sys \<Rightarrow> 'c sys" where
  "begin_retrieve env w uri has_watcher s =
     (case retrieve_target env w (prov s) uri of
        Inl err \<Rightarrow> observe (Failed err) s
      | Inr (url, cfg, client) \<Rightarrow>
          (let r = \<lparr>r_url = url, r_cfg = cfg, r_client = client, r_watch = has_watcher,
                    r_progress = Fetching\<rparr>
           in case newConfig (prov s) url of
                Some b \<Rightarrow>
                  observe (Served_cached url b)
                    (s\<lparr>prov := (prov s)\<lparr>newConfig := (newConfig (prov s))(url := None)\<rparr>,
                       retrievals := retrievals s @ [r\<lparr>r_progress := Have b\<rparr>]\<rparr>)
              | None \<Rightarrow>
                  (case newContextBoundRequest env url (authToken cfg) of
                     Inl err \<Rightarrow> observe (Failed err) s
                   | Inr req \<Rightarrow>
                       (let req = add_header req FirstRequestHeaderKey ''true'';
                            req = add_header req ConfigChangedHeaderKey ''false''
                        in observe (Requested None req) (s\<lparr>retrievals := retrievals s @ [r]\<rparr>)))))"

definition drop_nth :: "nat \<Rightarrow> 'a list \<Rightarrow> 'a list" where
  "drop_nth k xs = take k xs @ drop (Suc k) xs"

text \<open>The answer to the request of a retrieval: an error ends the call, a body lets it continue.\<close>

definition complete_fetch :: "nat \<Rightarrow> http_outcome \<Rightarrow> 'c sys \<Rightarrow> 'c sys" where
  "complete_fetch k outcome s =
     (let r = retrievals s ! k
      in case getConfigBytes (r_url r) outcome of
           Inl err \<Rightarrow> observe (Failed err) (s\<lparr>retrievals := drop_nth k (retrievals s)\<rparr>)
         | Inr body \<Rightarrow> s\<lparr>retrievals := (retrievals s)[k := r\<lparr>r_progress := Have body\<rparr>]\<rparr>)"

definition cancel_watcher :: "nat \<Rightarrow> 'c sys \<Rightarrow> 'c sys" where
  "cancel_watcher i s = s\<lparr>watchers := (watchers s)[i := (watchers s ! i)\<lparr>w_cancelled := True\<rparr>]\<rparr>"

text \<open>
  Registering a watcher, under the mutex: a watcher already kept for the URL is cancelled, then
  the new one is kept and its goroutine started.
\<close>

definition register_watcher :: "('y, 'c) eec_env \<Rightarrow> retrieval \<Rightarrow> string \<Rightarrow> 'c sys \<Rightarrow> 'c sys" where
  "register_watcher env r body s =
     (let url = r_url r;
          s = (case watcherCancelMap (prov s) url of
                 Some i \<Rightarrow> cancel_watcher i s
               | None \<Rightarrow> s);
          i = length (watchers s);
          s = s\<lparr>prov := (prov s)\<lparr>watcherCancelMap := (watcherCancelMap (prov s))(url \<mapsto> i)\<rparr>,
                watchers := watchers s @
                  [\<lparr>w_url = url, w_token = authToken (r_cfg r), w_interval = refreshInterval (r_cfg r),
                    configHash = sha256 env body, configChanged = ''true'',
                    w_phase = Started, w_cancelled = False\<rparr>]\<rparr>
      in observe (Watching i url body) s)"

definition NewRetrievedFromYAML :: "('y, 'c) eec_env \<Rightarrow> string \<Rightarrow> 'c result" where
  "NewRetrievedFromYAML env yamlBytes =
     (case yaml_unmarshal env yamlBytes of
        Inl err \<Rightarrow> Inl err
      | Inr rawConf \<Rightarrow> new_retrieved env rawConf)"

text \<open>The last part of \<open>Retrieve\<close>, once the bytes are there.\<close>

definition finish_retrieve :: "('y, 'c) eec_env \<Rightarrow> nat \<Rightarrow> string \<Rightarrow> 'c sys \<Rightarrow> 'c sys" where
  "finish_retrieve env k body s =
     (let r = retrievals s ! k;
          s = s\<lparr>retrievals := drop_nth k (retrievals s)\<rparr>;
          s = (if r_watch r \<and> refreshInterval (r_cfg r) \<noteq> 0 then register_watcher env r body s else s)
      in observe (Retrieved (r_url r) (NewRetrievedFromYAML env body)) s)"

section \<open>The watcher\<close>

definition set_watcher :: "nat \<Rightarrow> watcher \<Rightarrow> 'c sys \<Rightarrow> 'c sys" where
  "set_watcher i x s = s\<lparr>watchers := (watchers s)[i := x]\<rparr>"

text \<open>\<^verbatim>\<open>time.NewTicker\<close> panics for an interval that is not positive, which ends the process.\<close>

definition watcher_start :: "nat \<Rightarrow> 'c sys \<Rightarrow> 'c sys" where
  "watcher_start i s =
     (let x = watchers s ! i
      in if w_interval x \<le> 0 then s\<lparr>crashed := True\<rparr>
         else set_watcher i (x\<lparr>w_phase := Waiting\<rparr>) s)"

text \<open>
  A tick: the request is built with the header that says whether the configuration changed,
  which is "true" for the first request of a watcher only; an error of building it ends the
  tick.
\<close>

definition watcher_tick :: "('y, 'c) eec_env \<Rightarrow> nat \<Rightarrow> 'c sys \<Rightarrow> 'c sys" where
  "watcher_tick env i s =
     (let x = watchers s ! i
      in case newContextBoundRequest env (w_url x) (w_token x) of
           Inl err \<Rightarrow> s
         | Inr req \<Rightarrow>
             (let req = add_header req FirstRequestHeaderKey ''false'';
                  req = add_header req ConfigChangedHeaderKey (configChanged x);
                  x = (if configChanged x = ''true'' then x\<lparr>configChanged := ''false''\<rparr> else x)
              in observe (Requested (Some i) req) (set_watcher i (x\<lparr>w_phase := Polling\<rparr>) s)))"

text \<open>
  The answer to a poll: an error or an unchanged hash goes back to waiting; a changed one is
  cached for the URL, announced, and ends the watcher.
\<close>

definition watcher_answer :: "('y, 'c) eec_env \<Rightarrow> nat \<Rightarrow> http_outcome \<Rightarrow> 'c sys \<Rightarrow> 'c sys" where
  "watcher_answer env i outcome s =
     (let x = watchers s ! i
      in case getConfigBytes (w_url x) outcome of
           Inl err \<Rightarrow> set_watcher i (x\<lparr>w_phase := Waiting\<rparr>) s
         | Inr body \<Rightarrow>
             (if configHash x \<noteq> sha256 env body
              then observe (Changed i (w_url x) body)
                     (set_watcher i (x\<lparr>w_phase := Returned\<rparr>)
                       (s\<lparr>prov := (prov s)\<lparr>newConfig := (newConfig (prov s))(w_url x \<mapsto> body)\<rparr>\<rparr>))
              else set_watcher i (x\<lparr>w_phase := Waiting\<rparr>) s))"

text \<open>The two other cases of the select: the shutdown channel is closed, the context is done.\<close>

definition watcher_stop :: "nat \<Rightarrow> 'c sys \<Rightarrow> 'c sys" where
  "watcher_stop i s = set_watcher i ((watchers s ! i)\<lparr>w_phase := Returned\<rparr>) s"

text \<open>Closing the channel a second time panics.\<close>

definition Shutdown :: "'c sys \<Rightarrow> 'c sys" where
  "Shutdown s =
     (if shutdown (prov s) then s\<lparr>crashed := True\<rparr>
      else s\<lparr>prov := (prov s)\<lparr>shutdown := True\<rparr>\<rparr>)"

section \<open>Runs\<close>

text \<open>
  A step of the system. The context a caller passes to \<open>Retrieve\<close> may be cancelled at any time,
  which cancels the watcher's context as well; the select of a watcher may take a tick even
  when its context is done or the provider shut down, as Go's select does.
\<close>

inductive step :: "('y, 'c) eec_env \<Rightarrow> 'c sys \<Rightarrow> 'c sys \<Rightarrow> bool" for env where
  step_retrieve: "\<not> crashed s \<Longrightarrow> step env s (begin_retrieve env w uri has_watcher s)"
| step_fetched: "\<not> crashed s \<Longrightarrow> k < length (retrievals s) \<Longrightarrow> r_progress (retrievals s ! k) = Fetching \<Longrightarrow>
     step env s (complete_fetch k outcome s)"
| step_finish: "\<not> crashed s \<Longrightarrow> k < length (retrievals s) \<Longrightarrow> r_progress (retrievals s ! k) = Have body \<Longrightarrow>
     step env s (finish_retrieve env k body s)"
| step_start: "\<not> crashed s \<Longrightarrow> i < length (watchers s) \<Longrightarrow> w_phase (watchers s ! i) = Started \<Longrightarrow>
     step env s (watcher_start i s)"
| step_tick: "\<not> crashed s \<Longrightarrow> i < length (watchers s) \<Longrightarrow> w_phase (watchers s ! i) = Waiting \<Longrightarrow>
     step env s (watcher_tick env i s)"
| step_answer: "\<not> crashed s \<Longrightarrow> i < length (watchers s) \<Longrightarrow> w_phase (watchers s ! i) = Polling \<Longrightarrow>
     step env s (watcher_answer env i outcome s)"
| step_stop: "\<not> crashed s \<Longrightarrow> i < length (watchers s) \<Longrightarrow> w_phase (watchers s ! i) = Waiting \<Longrightarrow>
     shutdown (prov s) \<or> w_cancelled (watchers s ! i) \<Longrightarrow> step env s (watcher_stop i s)"
| step_cancel: "\<not> crashed s \<Longrightarrow> i < length (watchers s) \<Longrightarrow> step env s (cancel_watcher i s)"
| step_shutdown: "\<not> crashed s \<Longrightarrow> step env s (Shutdown s)"

inductive_cases stepE: "step env s s'"

inductive reachable :: "('y, 'c) eec_env \<Rightarrow> provider \<Rightarrow> 'c sys \<Rightarrow> bool" for env p where
  reach_init: "reachable env p (init_sys p)"
| reach_step: "reachable env p s \<Longrightarrow> step env s s' \<Longrightarrow> reachable env p s'"

section \<open>The moves behind the steps\<close>

text \<open>
  Every step is one of seven moves of the watchers, the cancel map, the cache and the trace; the
  invariants are proved about the moves. Messages that concern no watcher and no cache are
  quiet: the first request of a retrieval, a failure, a returned configuration.
\<close>

definition first_request :: "eec_request \<Rightarrow> bool" where
  "first_request rq \<longleftrightarrow> (\<exists>hs. er_header rq =
     hs @ [(FirstRequestHeaderKey, ''true''), (ConfigChangedHeaderKey, ''false'')] \<and>
     fst ` set hs \<subseteq> {''Authorization''})"

definition poll_request :: "string \<Rightarrow> eec_request \<Rightarrow> bool" where
  "poll_request changed rq \<longleftrightarrow> (\<exists>hs. er_header rq =
     hs @ [(FirstRequestHeaderKey, ''false''), (ConfigChangedHeaderKey, changed)] \<and>
     fst ` set hs \<subseteq> {''Authorization''})"

definition quiet :: "'c obs \<Rightarrow> bool" where
  "quiet ob \<longleftrightarrow>
     (case ob of
        Requested None rq \<Rightarrow> first_request rq
      | Failed _ \<Rightarrow> True
      | Retrieved _ _ \<Rightarrow> True
      | _ \<Rightarrow> False)"

definition same_prov :: "'c sys \<Rightarrow> 'c sys \<Rightarrow> bool" where
  "same_prov s s' \<longleftrightarrow> watcherCancelMap (prov s') = watcherCancelMap (prov s) \<and>
     newConfig (prov s') = newConfig (prov s)"

definition cancel_kept :: "'c sys \<Rightarrow> string \<Rightarrow> watcher list" where
  "cancel_kept s url =
     (case watcherCancelMap (prov s) url of
        None \<Rightarrow> watchers s
      | Some i \<Rightarrow> (watchers s)[i := (watchers s ! i)\<lparr>w_cancelled := True\<rparr>])"

inductive move :: "('y, 'c) eec_env \<Rightarrow> 'c sys \<Rightarrow> 'c sys \<Rightarrow> bool" for env where
  m_quiet: "watchers s' = watchers s \<Longrightarrow> same_prov s s' \<Longrightarrow> trace s' = trace s @ obs \<Longrightarrow>
     \<forall>ob \<in> set obs. quiet ob \<Longrightarrow> move env s s'"
| m_cached: "watchers s' = watchers s \<Longrightarrow> watcherCancelMap (prov s') = watcherCancelMap (prov s) \<Longrightarrow>
     newConfig (prov s) url = Some b \<Longrightarrow> newConfig (prov s') = (newConfig (prov s))(url := None) \<Longrightarrow>
     trace s' = trace s @ [Served_cached url b] \<Longrightarrow> move env s s'"
| m_register: "watchers s' = cancel_kept s url @ [x] \<Longrightarrow> w_url x = url \<Longrightarrow>
     configHash x = sha256 env b \<Longrightarrow> configChanged x = ''true'' \<Longrightarrow> w_phase x = Started \<Longrightarrow>
     \<not> w_cancelled x \<Longrightarrow>
     watcherCancelMap (prov s') = (watcherCancelMap (prov s))(url \<mapsto> length (watchers s)) \<Longrightarrow>
     newConfig (prov s') = newConfig (prov s) \<Longrightarrow>
     trace s' = trace s @ [Watching (length (watchers s)) url b, Retrieved url r] \<Longrightarrow> move env s s'"
| m_phase: "i < length (watchers s) \<Longrightarrow> w_phase (watchers s ! i) \<noteq> Returned \<Longrightarrow>
     watchers s' = (watchers s)[i := (watchers s ! i)\<lparr>w_phase := ph\<rparr>] \<Longrightarrow> same_prov s s' \<Longrightarrow>
     trace s' = trace s \<Longrightarrow> move env s s'"
| m_cancel: "i < length (watchers s) \<Longrightarrow>
     watchers s' = (watchers s)[i := (watchers s ! i)\<lparr>w_cancelled := True\<rparr>] \<Longrightarrow> same_prov s s' \<Longrightarrow>
     trace s' = trace s \<Longrightarrow> move env s s'"
| m_poll: "i < length (watchers s) \<Longrightarrow> w_phase (watchers s ! i) = Waiting \<Longrightarrow>
     watchers s' = (watchers s)[i := (watchers s ! i)\<lparr>configChanged :=
       (if configChanged (watchers s ! i) = ''true'' then ''false'' else configChanged (watchers s ! i)),
       w_phase := Polling\<rparr>] \<Longrightarrow> same_prov s s' \<Longrightarrow>
     poll_request (configChanged (watchers s ! i)) rq \<Longrightarrow>
     trace s' = trace s @ [Requested (Some i) rq] \<Longrightarrow> move env s s'"
| m_change: "i < length (watchers s) \<Longrightarrow> w_phase (watchers s ! i) = Polling \<Longrightarrow>
     configHash (watchers s ! i) \<noteq> sha256 env b \<Longrightarrow>
     watchers s' = (watchers s)[i := (watchers s ! i)\<lparr>w_phase := Returned\<rparr>] \<Longrightarrow>
     watcherCancelMap (prov s') = watcherCancelMap (prov s) \<Longrightarrow>
     newConfig (prov s') = (newConfig (prov s))(w_url (watchers s ! i) \<mapsto> b) \<Longrightarrow>
     trace s' = trace s @ [Changed i (w_url (watchers s ! i)) b] \<Longrightarrow> move env s s'"

lemma bound_request_headers:
  "newContextBoundRequest env url tok = Inr rq \<Longrightarrow> fst ` set (er_header rq) \<subseteq> {''Authorization''}"
  by (auto simp: newContextBoundRequest_def split: option.splits if_splits)

lemma move_quiet1:
  "watchers s' = watchers s \<Longrightarrow> same_prov s s' \<Longrightarrow> trace s' = trace s @ [ob] \<Longrightarrow> quiet ob \<Longrightarrow> move env s s'"
  by (rule m_quiet [of _ _ "[ob]"]) auto

lemma move_silent:
  "watchers s' = watchers s \<Longrightarrow> same_prov s s' \<Longrightarrow> trace s' = trace s \<Longrightarrow> move env s s'"
  by (rule m_quiet [of _ _ "[]"]) auto

lemma begin_retrieve_move: "move env s (begin_retrieve env w uri hw s)"
proof (cases "retrieve_target env w (prov s) uri")
  case (Inl err)
  then show ?thesis
    by (intro move_quiet1 [of _ _ "Failed err"])
      (simp_all add: begin_retrieve_def observe_def same_prov_def quiet_def)
next
  case (Inr t)
  obtain url cfg client where t: "t = (url, cfg, client)" by (cases t)
  show ?thesis
  proof (cases "newConfig (prov s) url")
    case (Some b)
    with Inr t show ?thesis
      by (intro m_cached [of _ s url b]) (simp_all add: begin_retrieve_def observe_def Let_def)
  next
    case None
    show ?thesis
    proof (cases "newContextBoundRequest env url (authToken cfg)")
      case (Inl err)
      with None Inr t show ?thesis
        by (intro move_quiet1 [of _ _ "Failed err"])
          (simp_all add: begin_retrieve_def observe_def same_prov_def quiet_def Let_def)
    next
      case (Inr rq)
      let ?rq = "add_header (add_header rq FirstRequestHeaderKey ''true'') ConfigChangedHeaderKey ''false''"
      have "quiet (Requested None ?rq)"
        using bound_request_headers [OF Inr] by (simp add: quiet_def first_request_def add_header_def)
      with Inr None \<open>retrieve_target env w (prov s) uri = Inr t\<close> t show ?thesis
        by (intro move_quiet1 [of _ _ "Requested None ?rq"])
          (simp_all add: begin_retrieve_def observe_def same_prov_def Let_def)
    qed
  qed
qed

lemma complete_fetch_move: "move env s (complete_fetch k outcome s)"
proof (cases "getConfigBytes (r_url (retrievals s ! k)) outcome")
  case (Inl err)
  then show ?thesis
    by (intro move_quiet1 [of _ _ "Failed err"])
      (simp_all add: complete_fetch_def observe_def same_prov_def quiet_def Let_def)
next
  case (Inr body)
  then show ?thesis
    by (intro move_silent) (simp_all add: complete_fetch_def same_prov_def Let_def)
qed

lemma finish_retrieve_move: "move env s (finish_retrieve env k body s)"
proof (cases "r_watch (retrievals s ! k) \<and> refreshInterval (r_cfg (retrievals s ! k)) \<noteq> 0")
  case False
  then have "finish_retrieve env k body s =
      observe (Retrieved (r_url (retrievals s ! k)) (NewRetrievedFromYAML env body))
        (s\<lparr>retrievals := drop_nth k (retrievals s)\<rparr>)"
    unfolding finish_retrieve_def Let_def by (simp only: if_False)
  then show ?thesis
    by (intro move_quiet1 [of _ _ "Retrieved (r_url (retrievals s ! k)) (NewRetrievedFromYAML env body)"])
      (simp_all add: observe_def same_prov_def quiet_def)
next
  case True
  let ?r = "retrievals s ! k"
  have "length (cancel_kept s (r_url ?r)) = length (watchers s)"
    by (simp add: cancel_kept_def split: option.split)
  then show ?thesis
    using True
    by (intro m_register [where url = "r_url ?r" and b = body and r = "NewRetrievedFromYAML env body" and
        x = "\<lparr>w_url = r_url ?r, w_token = authToken (r_cfg ?r), w_interval = refreshInterval (r_cfg ?r),
          configHash = sha256 env body, configChanged = ''true'', w_phase = Started, w_cancelled = False\<rparr>"])
      (simp_all add: finish_retrieve_def register_watcher_def observe_def cancel_watcher_def
        cancel_kept_def Let_def split: option.splits)
qed

lemma step_move: "step env s s' \<Longrightarrow> move env s s'"
proof (induction rule: step.induct)
  case (step_start s i)
  then show ?case
    by (cases "w_interval (watchers s ! i) \<le> 0")
      (auto simp: watcher_start_def set_watcher_def same_prov_def Let_def intro: move_silent m_phase)
next
  case (step_tick s i)
  let ?x = "watchers s ! i"
  show ?case
  proof (cases "newContextBoundRequest env (w_url ?x) (w_token ?x)")
    case (Inl err)
    then show ?thesis by (intro move_silent) (simp_all add: watcher_tick_def same_prov_def Let_def)
  next
    case (Inr rq)
    let ?rq = "add_header (add_header rq FirstRequestHeaderKey ''false'') ConfigChangedHeaderKey (configChanged ?x)"
    have "poll_request (configChanged ?x) ?rq"
      using bound_request_headers [OF Inr] by (simp add: poll_request_def add_header_def)
    with Inr step_tick show ?thesis
      by (intro m_poll [of i s _ ?rq])
        (simp_all add: watcher_tick_def set_watcher_def observe_def same_prov_def Let_def)
  qed
next
  case (step_answer s i outcome)
  let ?x = "watchers s ! i"
  show ?case
  proof (cases "getConfigBytes (w_url ?x) outcome")
    case (Inl err)
    with step_answer show ?thesis
      by (intro m_phase [of i s _ Waiting])
        (simp_all add: watcher_answer_def set_watcher_def same_prov_def Let_def)
  next
    case (Inr body)
    show ?thesis
    proof (cases "configHash ?x = sha256 env body")
      case True
      with Inr step_answer show ?thesis
        by (intro m_phase [of i s _ Waiting])
          (simp_all add: watcher_answer_def set_watcher_def same_prov_def Let_def)
    next
      case False
      with Inr step_answer show ?thesis
        by (intro m_change [of i s env body])
          (simp_all add: watcher_answer_def set_watcher_def observe_def Let_def)
    qed
  qed
next
  case (step_stop s i)
  then show ?case
    by (intro m_phase [of i s _ Returned]) (simp_all add: watcher_stop_def set_watcher_def same_prov_def)
next
  case (step_cancel s i)
  then show ?case
    by (intro m_cancel [of i]) (simp_all add: cancel_watcher_def same_prov_def)
next
  case (step_shutdown s)
  then show ?case by (intro move_silent) (simp_all add: Shutdown_def same_prov_def)
qed (rule begin_retrieve_move complete_fetch_move finish_retrieve_move)+

section \<open>Invariants\<close>

lemma cancel_kept_length [simp]: "length (cancel_kept s url) = length (watchers s)"
  by (simp add: cancel_kept_def split: option.split)

lemma cancel_kept_nth:
  "j < length (watchers s) \<Longrightarrow> cancel_kept s url ! j =
     (watchers s ! j)\<lparr>w_cancelled := w_cancelled (watchers s ! j) \<or> watcherCancelMap (prov s) url = Some j\<rparr>"
proof -
  have id: "x\<lparr>w_cancelled := w_cancelled x\<rparr> = x" for x :: watcher by simp
  assume "j < length (watchers s)"
  then show ?thesis
  proof (cases "watcherCancelMap (prov s) url")
    case (Some i)
    then show ?thesis
      using id [of "watchers s ! j"] \<open>j < length (watchers s)\<close>
      by (cases "i = j") (simp_all add: cancel_kept_def)
  qed (simp add: cancel_kept_def id)
qed

text \<open>The cancel map: it points to a watcher of the URL, and to every watcher that is not cancelled.\<close>

definition inv_map :: "'c sys \<Rightarrow> bool" where
  "inv_map s \<longleftrightarrow>
     (\<forall>url i. watcherCancelMap (prov s) url = Some i \<longrightarrow> i < length (watchers s) \<and> w_url (watchers s ! i) = url) \<and>
     (\<forall>i < length (watchers s). \<not> w_cancelled (watchers s ! i) \<longrightarrow>
        watcherCancelMap (prov s) (w_url (watchers s ! i)) = Some i)"

lemma move_inv_map: "move env s s' \<Longrightarrow> inv_map s \<Longrightarrow> inv_map s'"
proof (induction rule: move.induct)
  case (m_register s' s url x b r)
  show ?case
    unfolding inv_map_def
  proof (intro conjI allI impI)
    fix u i assume "watcherCancelMap (prov s') u = Some i"
    then have "(u = url \<and> i = length (watchers s)) \<or> (u \<noteq> url \<and> watcherCancelMap (prov s) u = Some i)"
      using m_register(7) by (auto split: if_splits)
    with m_register show "i < length (watchers s')" "w_url (watchers s' ! i) = u"
      by (auto simp: inv_map_def nth_append cancel_kept_nth less_Suc_eq)
  next
    fix i assume i: "i < length (watchers s')" "\<not> w_cancelled (watchers s' ! i)"
    show "watcherCancelMap (prov s') (w_url (watchers s' ! i)) = Some i"
    proof (cases "i = length (watchers s)")
      case True
      with m_register show ?thesis by (simp add: nth_append)
    next
      case False
      with i(1) m_register(1) have l: "i < length (watchers s)" by simp
      then have n: "watchers s' ! i = (watchers s ! i)\<lparr>w_cancelled := w_cancelled (watchers s ! i) \<or>
          watcherCancelMap (prov s) url = Some i\<rparr>"
        using m_register(1) cancel_kept_nth by (simp add: nth_append)
      with i(2) have "\<not> w_cancelled (watchers s ! i)" "watcherCancelMap (prov s) url \<noteq> Some i" by auto
      moreover have "watcherCancelMap (prov s) (w_url (watchers s ! i)) = Some i"
        using m_register.prems l calculation(1) by (simp add: inv_map_def)
      ultimately show ?thesis using n m_register(7) by auto
    qed
  qed
qed (auto simp: inv_map_def same_prov_def nth_list_update)

text \<open>The headers a watcher has sent so far.\<close>

definition header_of :: "eec_request \<Rightarrow> string \<Rightarrow> string option" where
  "header_of rq k = map_of (er_header rq) k"

definition poll_flags :: "nat \<Rightarrow> 'c obs list \<Rightarrow> string option list" where
  "poll_flags i tr = concat (map (\<lambda>ob. case ob of
     Requested (Some j) rq \<Rightarrow> if j = i then [header_of rq ConfigChangedHeaderKey] else [] | _ \<Rightarrow> []) tr)"

lemma poll_flags_simps [simp]:
  "poll_flags i [] = []"
  "poll_flags i (tr @ tr') = poll_flags i tr @ poll_flags i tr'"
  "poll_flags i (ob # tr) = (case ob of
     Requested (Some j) rq \<Rightarrow> if j = i then [header_of rq ConfigChangedHeaderKey] else [] | _ \<Rightarrow> []) @ poll_flags i tr"
  by (simp_all add: poll_flags_def)

lemma poll_flags_quiet: "\<forall>ob \<in> set obs. quiet ob \<Longrightarrow> poll_flags i obs = []"
  by (induction obs) (auto simp: quiet_def split: obs.splits option.splits)

lemma request_headers:
  assumes "fst ` set hs \<subseteq> {''Authorization''}"
    and "er_header rq = hs @ [(FirstRequestHeaderKey, f), (ConfigChangedHeaderKey, c)]"
  shows "header_of rq FirstRequestHeaderKey = Some f" "header_of rq ConfigChangedHeaderKey = Some c"
proof -
  have "map_of hs FirstRequestHeaderKey = None" "map_of hs ConfigChangedHeaderKey = None"
    using assms(1) by (auto simp: map_of_eq_None_iff FirstRequestHeaderKey_def ConfigChangedHeaderKey_def)
  with assms(2) show "header_of rq FirstRequestHeaderKey = Some f" "header_of rq ConfigChangedHeaderKey = Some c"
    by (simp_all add: header_of_def map_add_def FirstRequestHeaderKey_def ConfigChangedHeaderKey_def)
qed

lemma poll_request_flag: "poll_request c rq \<Longrightarrow> header_of rq ConfigChangedHeaderKey = Some c"
  using request_headers by (auto simp: poll_request_def)

definition flags_ok :: "string option list \<Rightarrow> bool" where
  "flags_ok fs \<longleftrightarrow> fs = [] \<or> (\<exists>n. fs = Some ''true'' # replicate n (Some ''false''))"

definition inv_flags :: "'c sys \<Rightarrow> bool" where
  "inv_flags s \<longleftrightarrow>
     (\<forall>i < length (watchers s).
        (configChanged (watchers s ! i) = ''true'' \<and> poll_flags i (trace s) = []) \<or>
        (configChanged (watchers s ! i) = ''false'' \<and> poll_flags i (trace s) \<noteq> [] \<and>
         flags_ok (poll_flags i (trace s)))) \<and>
     (\<forall>i \<ge> length (watchers s). poll_flags i (trace s) = [])"

lemma flags_ok_snoc: "flags_ok fs \<Longrightarrow> fs \<noteq> [] \<Longrightarrow> flags_ok (fs @ [Some ''false''])"
  unfolding flags_ok_def by (auto simp: replicate_append_same intro: exI [of _ "Suc n" for n])

lemma move_inv_flags: "move env s s' \<Longrightarrow> inv_flags s \<Longrightarrow> inv_flags s'"
proof (induction rule: move.induct)
  case (m_quiet s' s obs)
  then show ?case by (simp add: inv_flags_def poll_flags_quiet)
next
  case (m_register s' s url x b r)
  then show ?case by (auto simp: inv_flags_def nth_append cancel_kept_nth less_Suc_eq)
next
  case (m_poll i s s' rq)
  have f: "poll_flags j (trace s') = poll_flags j (trace s) @
      (if j = i then [Some (configChanged (watchers s ! i))] else [])" for j
    using m_poll(5,6) poll_request_flag by simp
  show ?case
    unfolding inv_flags_def f
  proof (intro conjI allI impI)
    fix j assume "j < length (watchers s')"
    with m_poll have "j < length (watchers s)" by simp
    let ?fs = "poll_flags j (trace s) @ (if j = i then [Some (configChanged (watchers s ! i))] else [])"
    have old: "(configChanged (watchers s ! j) = ''true'' \<and> poll_flags j (trace s) = []) \<or>
        (configChanged (watchers s ! j) = ''false'' \<and> poll_flags j (trace s) \<noteq> [] \<and>
         flags_ok (poll_flags j (trace s)))"
      using m_poll.prems \<open>j < length (watchers s)\<close> by (simp add: inv_flags_def)
    show "configChanged (watchers s' ! j) = ''true'' \<and> ?fs = [] \<or>
        configChanged (watchers s' ! j) = ''false'' \<and> ?fs \<noteq> [] \<and> flags_ok ?fs"
    proof (cases "j = i")
      case True
      with old m_poll(1,3) show ?thesis
        using flags_ok_snoc [of "poll_flags i (trace s)"] by (auto simp: flags_ok_def [of "[Some ''true'']"])
    next
      case False
      with old m_poll(3) show ?thesis by simp
    qed
  qed (use m_poll in \<open>auto simp: inv_flags_def\<close>)
qed (auto simp: inv_flags_def nth_list_update)

text \<open>Change events and what watchers were put to work on.\<close>

definition changes :: "nat \<Rightarrow> 'c obs list \<Rightarrow> 'c obs list" where
  "changes i tr = filter (\<lambda>ob. case ob of Changed j _ _ \<Rightarrow> j = i | _ \<Rightarrow> False) tr"

lemma changes_simps [simp]:
  "changes i [] = []"
  "changes i (tr @ tr') = changes i tr @ changes i tr'"
  "changes i (ob # tr) = (case ob of Changed j _ _ \<Rightarrow> if j = i then [ob] else [] | _ \<Rightarrow> []) @ changes i tr"
  by (auto simp: changes_def split: obs.split)

lemma changes_quiet: "\<forall>ob \<in> set obs. quiet ob \<Longrightarrow> changes i obs = []"
  by (induction obs) (auto simp: quiet_def split: obs.splits option.splits)

lemma quiet_set: "\<forall>ob \<in> set obs. quiet ob \<Longrightarrow>
    Changed i u b \<notin> set obs \<and> Watching i u b \<notin> set obs \<and> Served_cached u b \<notin> set obs"
proof -
  assume "\<forall>ob \<in> set obs. quiet ob"
  then have "ob \<notin> set obs" if "\<not> quiet ob" for ob using that by blast
  then show ?thesis by (simp add: quiet_def)
qed

definition inv_changes :: "('y, 'c) eec_env \<Rightarrow> 'c sys \<Rightarrow> bool" where
  "inv_changes env s \<longleftrightarrow>
     (\<forall>i. length (changes i (trace s)) \<le> 1 \<and>
        (changes i (trace s) \<noteq> [] \<longrightarrow> i < length (watchers s) \<and> w_phase (watchers s ! i) = Returned)) \<and>
     (\<forall>i u b. Changed i u b \<in> set (trace s) \<longrightarrow> i < length (watchers s) \<and>
        w_url (watchers s ! i) = u \<and> configHash (watchers s ! i) \<noteq> sha256 env b) \<and>
     (\<forall>i u b. Watching i u b \<in> set (trace s) \<longrightarrow> i < length (watchers s) \<and>
        w_url (watchers s ! i) = u \<and> configHash (watchers s ! i) = sha256 env b)"

lemma move_inv_changes: "move env s s' \<Longrightarrow> inv_changes env s \<Longrightarrow> inv_changes env s'"
proof (induction rule: move.induct)
  case (m_quiet s' s obs)
  then show ?case by (auto simp: inv_changes_def changes_quiet dest: quiet_set)
next
  case (m_register s' s url x b r)
  then show ?case by (auto simp: inv_changes_def nth_append cancel_kept_nth less_Suc_eq)
next
  case (m_change i s b s')
  then show ?case by (auto simp: inv_changes_def nth_list_update)
qed (auto simp: inv_changes_def nth_list_update)

text \<open>The cache: what it holds was announced, and nothing announced is served twice.\<close>

definition served :: "string \<Rightarrow> 'c obs list \<Rightarrow> nat" where
  "served u tr = length (filter (\<lambda>ob. case ob of Served_cached v _ \<Rightarrow> v = u | _ \<Rightarrow> False) tr)"

definition announced :: "string \<Rightarrow> 'c obs list \<Rightarrow> nat" where
  "announced u tr = length (filter (\<lambda>ob. case ob of Changed _ v _ \<Rightarrow> v = u | _ \<Rightarrow> False) tr)"

lemma served_simps [simp]:
  "served u [] = 0" "served u (tr @ tr') = served u tr + served u tr'"
  "served u (ob # tr) = (case ob of Served_cached v _ \<Rightarrow> if v = u then 1 else 0 | _ \<Rightarrow> 0) + served u tr"
  by (auto simp: served_def split: obs.split)

lemma announced_simps [simp]:
  "announced u [] = 0" "announced u (tr @ tr') = announced u tr + announced u tr'"
  "announced u (ob # tr) = (case ob of Changed _ v _ \<Rightarrow> if v = u then 1 else 0 | _ \<Rightarrow> 0) + announced u tr"
  by (auto simp: announced_def split: obs.split)

lemma served_quiet: "\<forall>ob \<in> set obs. quiet ob \<Longrightarrow> served u obs = 0 \<and> announced u obs = 0"
  by (induction obs) (auto simp: quiet_def split: obs.splits option.splits)

definition inv_cache :: "'c sys \<Rightarrow> bool" where
  "inv_cache s \<longleftrightarrow>
     (\<forall>u. served u (trace s) + (if newConfig (prov s) u = None then 0 else 1) \<le> announced u (trace s)) \<and>
     (\<forall>u b. newConfig (prov s) u = Some b \<or> Served_cached u b \<in> set (trace s) \<longrightarrow>
        (\<exists>i. Changed i u b \<in> set (trace s)))"

lemma move_inv_cache: "move env s s' \<Longrightarrow> inv_cache s \<Longrightarrow> inv_cache s'"
proof (induction rule: move.induct)
  case (m_quiet s' s obs)
  then show ?case by (auto simp: inv_cache_def served_quiet same_prov_def dest: quiet_set) blast+
next
  case (m_cached s' s url b)
  have "served u (trace s) + (if newConfig (prov s) u = None then 0 else 1) \<le> announced u (trace s)" for u
    using m_cached.prems by (simp add: inv_cache_def)
  note le = this
  have "served u (trace s') + (if newConfig (prov s') u = None then 0 else 1) \<le> announced u (trace s')" for u
    using le [of u] m_cached(3-5) by (cases "u = url") simp_all
  with m_cached show ?case by (auto simp: inv_cache_def)
next
  case (m_change i s b s')
  have "served u (trace s) + (if newConfig (prov s) u = None then 0 else 1) \<le> announced u (trace s)" for u
    using m_change.prems by (simp add: inv_cache_def)
  moreover have "served u (trace s) \<le> announced u (trace s)" for u
    using m_change.prems by (auto simp: inv_cache_def intro: add_leD1)
  ultimately show ?case
    using m_change by (auto simp: inv_cache_def) blast
qed (auto simp: inv_cache_def same_prov_def)

definition inv_first :: "'c sys \<Rightarrow> bool" where
  "inv_first s \<longleftrightarrow> (\<forall>src rq. Requested src rq \<in> set (trace s) \<longrightarrow>
     header_of rq FirstRequestHeaderKey = Some (if src = None then ''true'' else ''false'') \<and>
     (src = None \<longrightarrow> header_of rq ConfigChangedHeaderKey = Some ''false''))"

lemma move_inv_first: "move env s s' \<Longrightarrow> inv_first s \<Longrightarrow> inv_first s'"
proof (induction rule: move.induct)
  case (m_quiet s' s obs)
  have "header_of rq FirstRequestHeaderKey = Some (if src = None then ''true'' else ''false'') \<and>
      header_of rq ConfigChangedHeaderKey = Some ''false''" if "Requested src rq \<in> set obs" for src rq
  proof -
    from bspec [OF m_quiet(4) that] have "src = None" "first_request rq" by (auto simp: quiet_def split: option.splits)
    then show ?thesis using request_headers by (auto simp: first_request_def)
  qed
  with m_quiet show ?case by (auto simp: inv_first_def)
next
  case (m_poll i s s' rq)
  then have "header_of rq FirstRequestHeaderKey = Some ''false''"
    using request_headers(1) by (auto simp: poll_request_def)
  with m_poll show ?case by (auto simp: inv_first_def)
qed (auto simp: inv_first_def)

definition inv :: "('y, 'c) eec_env \<Rightarrow> 'c sys \<Rightarrow> bool" where
  "inv env s \<longleftrightarrow> inv_map s \<and> inv_flags s \<and> inv_changes env s \<and> inv_cache s \<and> inv_first s"

lemma inv_init: "watcherCancelMap p = Map.empty \<Longrightarrow> newConfig p = Map.empty \<Longrightarrow> inv env (init_sys p)"
  by (simp add: inv_def inv_map_def inv_flags_def inv_changes_def inv_cache_def inv_first_def init_sys_def)

lemma step_inv: "step env s s' \<Longrightarrow> inv env s \<Longrightarrow> inv env s'"
  unfolding inv_def
  by (meson step_move move_inv_map move_inv_flags move_inv_changes move_inv_cache move_inv_first)

lemma reachable_inv:
  "reachable env p s \<Longrightarrow> watcherCancelMap p = Map.empty \<Longrightarrow> newConfig p = Map.empty \<Longrightarrow> inv env s"
  by (induction rule: reachable.induct) (simp_all add: inv_init step_inv)

lemma reachable_new: "reachable env newProvider s \<Longrightarrow> inv env s"
  by (erule reachable_inv) (simp_all add: newProvider_def)

section \<open>A sample run\<close>

definition sample_eec :: "(string, string) eec_env" where
  "sample_eec =
     \<lparr>parse_base = (\<lambda>u. Inr \<lparr>Scheme = ''eec'', Opaque = u, Fragment = []\<rparr>), url_string = Opaque,
      fraction_ns = (\<lambda>_ _ _. 0), clean_path = id,
      system_pool = Inr [], valid_pem = (\<lambda>_. True), request_error = (\<lambda>_. None), sha256 = id,
      yaml_unmarshal = Inr, new_retrieved = Inr\<rparr>"

definition idle_os :: os where
  "idle_os = \<lparr>os_files = Map.empty, os_readable = (\<lambda>_. True), os_writable = (\<lambda>_. True),
     os_env = Map.empty, os_stdout = []\<rparr>"

definition run_retrieve :: "string sys \<Rightarrow> string sys" where
  "run_retrieve s = finish_retrieve sample_eec 0 ''c1''
     (complete_fetch 0 (Answered 200 ''c1'') (begin_retrieve sample_eec idle_os ''eec:h'' True s))"

definition after_retrieve :: "string sys" where
  "after_retrieve = run_retrieve (init_sys newProvider)"

definition after_poll :: "string sys" where
  "after_poll = watcher_tick sample_eec 0 (watcher_start 0 after_retrieve)"

definition after_change :: "string sys" where
  "after_change = watcher_answer sample_eec 0 (Answered 200 ''c2'') after_poll"

lemma sample_target:
  "retrieve_target sample_eec idle_os p ''eec:h'' =
     (case createClient sample_eec idle_os p False of
        Inl err \<Rightarrow> Inl (Wrapf ''unable to configure http transport layer: %w'' [] err)
      | Inr client \<Rightarrow> Inr (''eec:h'', \<lparr>refreshInterval = 10000000000, timeout = 8000000000,
                              authToken = [], insecure = False\<rparr>, client))"
proof -
  have "parseConfig fr idle_os Map.empty = Inr \<lparr>refreshInterval = 10000000000,
      timeout = 8000000000, authToken = [], insecure = False\<rparr>"
for fr
    by (simp add: parseConfig_accepts option_or_def token_of_def params_has_def)
  moreover have "ParseQuery [] = Inr Map.empty"
    using ParseQuery_settings [of "[]"] by (simp add: settings_def values_of_def plain_settings_def)
  moreover have "url_Parse pb ''eec:h'' = map_sum (Wrapf ''parse %q: %w'' [''eec:h'']) id (pb ''eec:h'')" for pb
    by (simp add: url_Parse_def cut_def split: sum.split)
  ultimately show ?thesis
    by (simp add: retrieve_target_def sample_eec_def has_prefix_def EECScheme_def Let_def split: sum.split)
qed

lemma sample_target_new:
  "caCertPath p = [] \<Longrightarrow> retrieve_target sample_eec idle_os p ''eec:h'' =
     Inr (''eec:h'', \<lparr>refreshInterval = 10000000000, timeout = 8000000000, authToken = [],
       insecure = False\<rparr>, Tls_client (insecureSkipVerify p) [])"
  unfolding sample_target by (simp add: createClient_def) (simp add: sample_eec_def)

lemma sample_request: "newContextBoundRequest sample_eec u [] = Inr \<lparr>er_url = u, er_header = []\<rparr>"
  by (simp add: newContextBoundRequest_def) (simp add: sample_eec_def)

lemma after_retrieve_eq:
  "after_retrieve =
    \<lparr>prov = newProvider\<lparr>watcherCancelMap := [''eec:h'' \<mapsto> 0]\<rparr>,
     watchers = [\<lparr>w_url = ''eec:h'', w_token = [], w_interval = 10000000000, configHash = ''c1'',
       configChanged = ''true'', w_phase = Started, w_cancelled = False\<rparr>],
     retrievals = [],
     trace = [Requested None \<lparr>er_url = ''eec:h'', er_header =
         [(FirstRequestHeaderKey, ''true''), (ConfigChangedHeaderKey, ''false'')]\<rparr>,
       Watching 0 ''eec:h'' ''c1'', Retrieved ''eec:h'' (Inr ''c1'')],
     crashed = False\<rparr>"
proof -
  have "NewRetrievedFromYAML sample_eec b = Inr b" "sha256 sample_eec b = b" for b
    by (simp_all add: NewRetrievedFromYAML_def sample_eec_def)
  moreover have "caCertPath newProvider = []" "newConfig newProvider = Map.empty"
    "watcherCancelMap newProvider = Map.empty"
    by (simp_all add: newProvider_def)
  ultimately show ?thesis
    by (simp add: after_retrieve_def run_retrieve_def begin_retrieve_def init_sys_def sample_target_new
        sample_request add_header_def observe_def complete_fetch_def getConfigBytes_def
        finish_retrieve_def register_watcher_def drop_nth_def Let_def)
qed

lemma after_poll_eq:
  "watchers after_poll = [\<lparr>w_url = ''eec:h'', w_token = [], w_interval = 10000000000, configHash = ''c1'',
       configChanged = ''false'', w_phase = Polling, w_cancelled = False\<rparr>]"
  "trace after_poll = trace after_retrieve @ [Requested (Some 0) \<lparr>er_url = ''eec:h'', er_header =
         [(FirstRequestHeaderKey, ''false''), (ConfigChangedHeaderKey, ''true'')]\<rparr>]"
  "crashed after_poll = False" "retrievals after_poll = []" "prov after_poll = prov after_retrieve"
  by (simp_all add: after_poll_def watcher_tick_def watcher_start_def set_watcher_def after_retrieve_eq
      sample_request add_header_def observe_def Let_def)

lemma reachable_run_retrieve:
  assumes "reachable sample_eec newProvider s" and "\<not> crashed s" and "retrievals s = []"
    and p: "caCertPath (prov s) = []" "newConfig (prov s) ''eec:h'' = None"
  shows "reachable sample_eec newProvider (run_retrieve s)"
proof -
  let ?s1 = "begin_retrieve sample_eec idle_os ''eec:h'' True s"
  let ?s2 = "complete_fetch 0 (Answered 200 ''c1'') ?s1"
  have s1: "retrievals ?s1 \<noteq> [] \<and> r_progress (retrievals ?s1 ! 0) = Fetching \<and> \<not> crashed ?s1"
    using assms(2,3) p by (simp add: begin_retrieve_def sample_target_new sample_request observe_def Let_def)
  then have s2: "retrievals ?s2 \<noteq> [] \<and> r_progress (retrievals ?s2 ! 0) = Have ''c1'' \<and> \<not> crashed ?s2"
    by (simp add: complete_fetch_def getConfigBytes_def Let_def nth_list_update)
  have "reachable sample_eec newProvider ?s1"
    by (rule reach_step [OF assms(1) step_retrieve]) (rule assms(2))
  then have "reachable sample_eec newProvider ?s2"
    by (rule reach_step [OF _ step_fetched]) (use s1 in auto)
  then show ?thesis
    unfolding run_retrieve_def
    by (rule reach_step [OF _ step_finish]) (use s2 in auto)
qed

lemma reachable_after_retrieve: "reachable sample_eec newProvider after_retrieve"
  unfolding after_retrieve_def
  by (rule reachable_run_retrieve [OF reach_init]) (simp_all add: init_sys_def newProvider_def)

lemma reachable_second: "reachable sample_eec newProvider (run_retrieve after_retrieve)"
  by (rule reachable_run_retrieve [OF reachable_after_retrieve]) (simp_all add: after_retrieve_eq newProvider_def)

lemma second_watchers:
  "length (watchers (run_retrieve after_retrieve)) = 2"
  "\<not> w_cancelled (watchers (run_retrieve after_retrieve) ! 1)"
  "w_url (watchers (run_retrieve after_retrieve) ! 0) = w_url (watchers (run_retrieve after_retrieve) ! 1)"
  by (simp_all add: run_retrieve_def begin_retrieve_def after_retrieve_eq sample_target_new newProvider_def
      sample_request add_header_def observe_def complete_fetch_def getConfigBytes_def
      finish_retrieve_def register_watcher_def cancel_watcher_def drop_nth_def Let_def)

lemma reachable_after_poll: "reachable sample_eec newProvider after_poll"
proof -
  let ?s = "watcher_start 0 after_retrieve"
  have "reachable sample_eec newProvider ?s"
    by (rule reach_step [OF reachable_after_retrieve step_start]) (simp_all add: after_retrieve_eq)
  then show ?thesis
    unfolding after_poll_def
    by (rule reach_step [OF _ step_tick])
      (simp_all add: watcher_start_def set_watcher_def after_retrieve_eq Let_def)
qed

lemma reachable_after_change: "reachable sample_eec newProvider after_change"
  unfolding after_change_def
  by (rule reach_step [OF reachable_after_poll step_answer]) (simp_all add: after_poll_eq)

lemma after_change_eq:
  "trace after_change = trace after_poll @ [Changed 0 ''eec:h'' ''c2'']"
  "newConfig (prov after_change) = [''eec:h'' \<mapsto> ''c2'']" "crashed after_change = False"
  "caCertPath (prov after_change) = []" "length (watchers after_change) = 1"
  by (simp_all add: after_change_def watcher_answer_def after_poll_eq getConfigBytes_def observe_def
      set_watcher_def Let_def sample_eec_def)
    (simp_all add: after_retrieve_eq newProvider_def)

section \<open>Properties\<close>

text \<open>
  C2: whatever the interleaving of retrievals, polls, cancellations and the shutdown, a URL has at most
  one watcher that is not cancelled: registering a new one cancels the one the provider kept.
\<close>

theorem one_watcher_per_url:
  assumes "reachable env newProvider s"
    and "i < length (watchers s)" and "\<not> w_cancelled (watchers s ! i)"
    and "j < length (watchers s)" and "\<not> w_cancelled (watchers s ! j)"
    and "w_url (watchers s ! i) = w_url (watchers s ! j)"
  shows "i = j"
proof -
  have "inv_map s" using reachable_new [OF assms(1)] by (simp only: inv_def)
  then have m: "\<forall>i < length (watchers s). \<not> w_cancelled (watchers s ! i) \<longrightarrow>
      watcherCancelMap (prov s) (w_url (watchers s ! i)) = Some i"
    unfolding inv_map_def by (rule conjunct2)
  have "Some i = Some j"
    using m [rule_format, OF assms(2,3)] m [rule_format, OF assms(4,5)] unfolding assms(6) by (rule trans [OF sym])
  then show ?thesis by (rule option.inject [THEN iffD1])
qed

theorem one_watcher_per_url_witness:
  "w_cancelled (watchers (run_retrieve after_retrieve) ! 0)"
proof (rule ccontr)
  assume "\<not> w_cancelled (watchers (run_retrieve after_retrieve) ! 0)"
  then have "(0::nat) = 1"
    using one_watcher_per_url [OF reachable_second, of 0 1] second_watchers by simp
  then show False by simp
qed



text \<open>
  C22: the header protocol, in every run: the request of a retrieval says "first request" and "not
  changed", a poll never says "first request", and of the polls of one watcher exactly the first one
  says "changed", even when that poll fails.
\<close>

theorem request_header_protocol:
  assumes "reachable env newProvider s"
  shows "(\<forall>src rq. Requested src rq \<in> set (trace s) \<longrightarrow>
      header_of rq FirstRequestHeaderKey = Some (if src = None then ''true'' else ''false'') \<and>
      (src = None \<longrightarrow> header_of rq ConfigChangedHeaderKey = Some ''false'')) \<and>
    (\<forall>i. poll_flags i (trace s) = [] \<or>
      (\<exists>n. poll_flags i (trace s) = Some ''true'' # replicate n (Some ''false'')))"
proof -
  have f: "inv_flags s" and r: "inv_first s" using reachable_new [OF assms] by (simp_all add: inv_def)
  have "flags_ok (poll_flags i (trace s))" for i
    using f by (cases "i < length (watchers s)") (auto simp: inv_flags_def flags_ok_def)
  then show ?thesis using r unfolding inv_first_def flags_ok_def by blast
qed

theorem request_header_protocol_witness:
  "poll_flags 0 (trace after_poll) = Some ''true'' # replicate 0 (Some ''false'')"
proof -
  have "poll_flags 0 (trace after_poll) \<noteq> []" "length (poll_flags 0 (trace after_poll)) = 1"
    by (simp_all add: after_poll_eq after_retrieve_eq)
  with request_header_protocol [OF reachable_after_poll] show ?thesis
    by (metis length_Cons length_replicate One_nat_def Suc_inject)
qed



text \<open>
  The retrieval after a change sends no request: it takes the announced bytes out of the cache, and
  continues with them; the next retrieval of the URL will ask the server again.
\<close>

theorem cached_retrieve_no_request:
  assumes "newConfig (prov s) url = Some b"
    and "retrieve_target env w (prov s) uri = Inr (url, cfg, client)"
  shows "let s' = begin_retrieve env w uri hw s
    in trace s' = trace s @ [Served_cached url b] \<and> newConfig (prov s') = (newConfig (prov s))(url := None) \<and>
       retrievals s' \<noteq> [] \<and> r_progress (last (retrievals s')) = Have b \<and> r_url (last (retrievals s')) = url"
  using assms by (simp add: begin_retrieve_def observe_def Let_def)

theorem cached_retrieve_no_request_witness:
  "trace (begin_retrieve sample_eec idle_os ''eec:h'' True after_change) =
     trace after_change @ [Served_cached ''eec:h'' ''c2'']"
  using cached_retrieve_no_request [of after_change "''eec:h''" "''c2''", OF _ sample_target_new]
  by (simp add: after_change_eq Let_def)



text \<open>
  The first poll of a watcher says that the configuration changed even where no change has ever been
  announced: a reachable state in which the only retrieval was the initial one.
\<close>

theorem first_poll_claims_reload:
  "\<exists>s. reachable sample_eec newProvider s \<and> (\<forall>u. announced u (trace s) = 0) \<and>
     poll_flags 0 (trace s) = [Some ''true'']"
  using reachable_after_poll
  by (intro exI [of _ after_poll])
    (simp add: after_poll_eq after_retrieve_eq header_of_def FirstRequestHeaderKey_def ConfigChangedHeaderKey_def)



section \<open>A negative interval\<close>

definition negative_uri :: "string \<Rightarrow> (nat \<times> string) list \<Rightarrow> string" where
  "negative_uri u ts =
     u @ ''#'' @ settings [(RefreshInterval, duration_text True ts), (Insecure, ''true'')]"

lemma negative_target:
  assumes u: "has_prefix u (EECScheme @ '':'')" "CHR ''#'' \<notin> set u" "parse_base env u = Inr p"
    and ts: "valid_terms ts"
  shows "retrieve_target env w pr (negative_uri u ts) =
     Inr (url_string env (p\<lparr>Fragment := [], Scheme := ''http''\<rparr>),
       \<lparr>refreshInterval = - int (terms_ns ts), timeout = 8000000000, authToken = [], insecure = True\<rparr>, Plain_client)"
proof -
  let ?kvs = "[(RefreshInterval, duration_text True ts), (Insecure, ''true'')]"
  have ps: "plain_settings ?kvs"
    using plain_duration [OF ts] plain_names plain_names(6) [of True]
    by (simp add: plain_settings_def flag_text_def) (simp add: option_defs)
  then have q: "ParseQuery (settings ?kvs) = Inr (values_of ?kvs)"
    by (rule ParseQuery_settings) (simp add: max_params_def)
  have "list_all (\<lambda>c. c \<noteq> CHR ''%'') (settings ?kvs)" "settings ?kvs \<noteq> []"
    using plain_chars [OF plain_duration [OF ts, of True], of "CHR ''%''"]
    by (auto simp: settings_def setting_def option_defs list_all_iff)
  then have "url_Parse (parse_base env) (negative_uri u ts) = Inr (p\<lparr>Fragment := settings ?kvs\<rparr>)"
    unfolding negative_uri_def using u by (intro url_Parse_plain)
  moreover have "has_prefix (negative_uri u ts) (EECScheme @ '':'')"
    using u(1) by (auto simp: has_prefix_def negative_uri_def prefix_def)
  moreover have "parseConfig (fraction_ns env) w (values_of ?kvs) = Inr \<lparr>refreshInterval = - int (terms_ns ts),
      timeout = 8000000000, authToken = [], insecure = True\<rparr>"
  proof -
    have "Timeout \<notin> fst ` set ?kvs" "RefreshInterval \<in> fst ` set ?kvs" "AuthFile \<notin> fst ` set ?kvs"
      "AuthEnv \<notin> fst ` set ?kvs" "Insecure \<in> fst ` set ?kvs" "map_of ?kvs Insecure = Some ''true''"
      by (simp_all add: option_defs)
    then show ?thesis
      unfolding parseConfig_accepts
      by (simp add: values_params token_of_def values_of_has flag_of_def ParseDuration_text [OF ts] duration_ns_def
          del: map_of.simps) (simp add: ParseDuration_text [OF ts] duration_ns_def)
  qed
  ultimately show ?thesis
    using q by (simp add: retrieve_target_def createClient_def Let_def)
qed

text \<open>
  C20: a negative refresh interval in the URI ends the Collector: the URI is accepted, the configuration is
  fetched and returned, and then the watcher's goroutine panics, before any poll and without a shutdown.
\<close>

theorem negative_interval_crashes:
  fixes env :: "('y, 'c) eec_env"
  assumes "has_prefix u (EECScheme @ '':'')" and "CHR ''#'' \<notin> set u" and "parse_base env u = Inr p"
    and "valid_terms ts" and "0 < terms_ns ts"
    and "request_error env (url_string env (p\<lparr>Fragment := [], Scheme := ''http''\<rparr>)) = None"
  shows "\<exists>s. (step env)\<^sup>*\<^sup>* (begin_retrieve env w (negative_uri u ts) True (init_sys newProvider)) s \<and>
    crashed s \<and> \<not> shutdown (prov s) \<and> (\<forall>i rq. Requested (Some i) rq \<notin> set (trace s)) \<and>
    (\<exists>url b. last (trace s) = Retrieved url (NewRetrievedFromYAML env b))"
proof -
  let ?s1 = "begin_retrieve env w (negative_uri u ts) True (init_sys newProvider :: 'c sys)"
  let ?s2 = "complete_fetch 0 (Answered 200 []) ?s1"
  let ?s3 = "finish_retrieve env 0 [] ?s2"
  let ?s4 = "watcher_start 0 ?s3"
  note t = negative_target [OF assms(1-4)]
  obtain r rq where s1: "?s1 = (init_sys newProvider)\<lparr>retrievals := [r], trace := [Requested None rq]\<rparr>"
    and r: "r_progress r = Fetching" "r_watch r" "refreshInterval (r_cfg r) = - int (terms_ns ts)"
    using assms(6) by (simp add: begin_retrieve_def t init_sys_def newProvider_def newContextBoundRequest_def
        observe_def Let_def)
  have s2: "?s2 = (init_sys newProvider)\<lparr>retrievals := [r\<lparr>r_progress := Have []\<rparr>], trace := [Requested None rq]\<rparr>"
    unfolding s1 by (simp add: complete_fetch_def getConfigBytes_def init_sys_def Let_def)
  obtain x url where s3: "watchers ?s3 = [x]" "crashed ?s3 = False" "shutdown (prov ?s3) = False"
      "trace ?s3 = [Requested None rq, Watching 0 url [], Retrieved url (NewRetrievedFromYAML env [])]"
    and x: "w_phase x = Started" "w_interval x = - int (terms_ns ts)"
    unfolding s2 using r assms(5)
    by (simp add: finish_retrieve_def register_watcher_def observe_def init_sys_def newProvider_def drop_nth_def
        Let_def)
  have "step env ?s1 ?s2" by (rule step_fetched) (simp_all only: s1, simp_all add: r init_sys_def)
  moreover have "step env ?s2 ?s3" by (rule step_finish) (simp_all only: s2, simp_all add: init_sys_def)
  moreover have "step env ?s3 ?s4" by (rule step_start) (simp_all add: s3 x)
  ultimately have "(step env)\<^sup>*\<^sup>* ?s1 ?s4" by (meson rtranclp.rtrancl_refl rtranclp.rtrancl_into_rtrancl)
  moreover have "?s4 = ?s3\<lparr>crashed := True\<rparr>" using x assms(5) by (simp add: watcher_start_def s3)
  ultimately show ?thesis using s3 by (intro exI [of _ ?s4]) auto
qed

theorem negative_interval_crashes_witness:
  "\<exists>s. (step sample_eec)\<^sup>*\<^sup>*
      (begin_retrieve sample_eec idle_os ''eec:h#refresh-interval=-1s&insecure=true'' True (init_sys newProvider)) s \<and>
    crashed s"
proof -
  have d: "digit_char (Suc 0) = CHR ''1''" by code_simp
  have "negative_uri ''eec:h'' [(1, ''s'')] = ''eec:h#refresh-interval=-1s&insecure=true''"
    by (simp add: negative_uri_def settings_def setting_def option_defs duration_text_def show_terms_def
        show_nat.simps d)
  moreover have "has_prefix ''eec:h'' (EECScheme @ '':'')" by (simp add: has_prefix_def EECScheme_def)
  moreover have "valid_terms [(1, ''s'')]" "0 < terms_ns [(1, ''s'')]"
    by (simp_all add: valid_terms_def unit_ns_def units_def terms_ns_def)
  moreover have "parse_base sample_eec ''eec:h'' = Inr \<lparr>Scheme = ''eec'', Opaque = ''eec:h'', Fragment = []\<rparr>"
    "request_error sample_eec u = None" for u
    by (simp_all add: sample_eec_def)
  ultimately show ?thesis
    using negative_interval_crashes [of "''eec:h''" sample_eec _ "[(1, ''s'')]" idle_os] by auto
qed

end
