(* ===== verification/Refinement.thy ===== *)
theory Refinement
  imports Main
begin

text \<open>
  Refinement of a specification by a system: every step of the system, from a state that satisfies an invariant, is a
  step of the specification or leaves its state as it is. Then every run of the system is a run of the
  specification, and what the specification keeps holds of the system.
\<close>

locale simulation =
  fixes start :: "'s \<Rightarrow> bool"
    and step :: "'s \<Rightarrow> 's \<Rightarrow> bool"
    and inv :: "'s \<Rightarrow> bool"
    and abs :: "'s \<Rightarrow> 'a"
    and spec :: "'a \<Rightarrow> 'a \<Rightarrow> bool"
  assumes inv_start: "start s \<Longrightarrow> inv s"
    and inv_step: "inv s \<Longrightarrow> step s s' \<Longrightarrow> inv s'"
    and simulates: "inv s \<Longrightarrow> step s s' \<Longrightarrow> abs s' = abs s \<or> spec (abs s) (abs s')"
begin

lemma run_inv:
  assumes "step\<^sup>*\<^sup>* s s'" and "inv s"
  shows "inv s'"
  using assms by (induction rule: rtranclp_induct) (auto intro: inv_step)

lemma run_refines:
  assumes "step\<^sup>*\<^sup>* s s'" and "inv s"
  shows "spec\<^sup>*\<^sup>* (abs s) (abs s')"
  using assms(1)
proof (induction rule: rtranclp_induct)
  case (step y z)
  have "abs z = abs y \<or> spec (abs y) (abs z)"
    using simulates [OF run_inv [OF step.hyps(1) assms(2)] step.hyps(2)] .
  with step.IH show ?case by (metis rtranclp.rtrancl_into_rtrancl)
qed simp

lemma start_refines: "start s \<Longrightarrow> step\<^sup>*\<^sup>* s s' \<Longrightarrow> spec\<^sup>*\<^sup>* (abs s) (abs s')"
  using inv_start run_refines by blast

lemma transfer:
  assumes "start s" and "step\<^sup>*\<^sup>* s s'" and "P (abs s)" and "\<And>a a'. spec a a' \<Longrightarrow> P a \<Longrightarrow> P a'"
  shows "P (abs s')"
  using start_refines [OF assms(1,2)] assms(3)
  by (induction rule: rtranclp_induct) (auto intro: assms(4))

end

end
