(* ===== verification/Eec_Service.thy ===== *)
theory Eec_Service
  imports Eec_Provider Refinement
begin

text \<open>
  What the provider of configurations promises, as a service of subscriptions: a subscription to a URL starts from a
  configuration, a new one revokes those to the same URL, an open one may announce one other configuration, which ends it
  and puts the configuration into the URL's mailbox, and a mailbox is emptied by one delivery. The
  service knows neither requests, tickers, headers, hashes nor retrievals in progress; the provider's step relation
  refines it.
\<close>

section \<open>The service\<close>

record subscription =
  sub_url :: string
  sub_base :: string
  sub_revoked :: bool

datatype notice = Subscribed nat string string | Announced nat string string | Delivered string string

record service =
  subs :: "nat \<rightharpoonup> subscription"
  issued :: nat
  mailbox :: "string \<rightharpoonup> string"
  closed :: bool
  notices :: "notice list"

definition revoke_url :: "string \<Rightarrow> (nat \<rightharpoonup> subscription) \<Rightarrow> (nat \<rightharpoonup> subscription)" where
  "revoke_url url m = (\<lambda>i. map_option (\<lambda>x. if sub_url x = url then x\<lparr>sub_revoked := True\<rparr> else x) (m i))"

inductive service_step :: "service \<Rightarrow> service \<Rightarrow> bool" where
  subscribe: "service_step a
     (a\<lparr>subs := (revoke_url url (subs a))(issued a \<mapsto> \<lparr>sub_url = url, sub_base = b, sub_revoked = False\<rparr>),
        issued := Suc (issued a), notices := notices a @ [Subscribed (issued a) url b]\<rparr>)"
| revoke: "subs a i = Some x \<Longrightarrow> service_step a (a\<lparr>subs := (subs a)(i \<mapsto> x\<lparr>sub_revoked := True\<rparr>)\<rparr>)"
| announce: "subs a i = Some x \<Longrightarrow> b \<noteq> sub_base x \<Longrightarrow>
     service_step a (a\<lparr>subs := (subs a)(i := None), mailbox := (mailbox a)(sub_url x \<mapsto> b),
       notices := notices a @ [Announced i (sub_url x) b]\<rparr>)"
| leave: "subs a i = Some x \<Longrightarrow> sub_revoked x \<or> closed a \<Longrightarrow> service_step a (a\<lparr>subs := (subs a)(i := None)\<rparr>)"
| deliver: "mailbox a url = Some b \<Longrightarrow>
     service_step a (a\<lparr>mailbox := (mailbox a)(url := None), notices := notices a @ [Delivered url b]\<rparr>)"
| close: "service_step a (a\<lparr>closed := True\<rparr>)"

definition new_service :: service where
  "new_service = \<lparr>subs = Map.empty, issued = 0, mailbox = Map.empty, closed = False, notices = []\<rparr>"

section \<open>What the service keeps\<close>

text \<open>
  A monitor of the notices of a run: it follows the base of every open subscription and every mailbox, and rejects
  an announcement by no open subscription, for another URL or of the configuration it started from, and a
  delivery of anything but the last announcement that was not delivered yet.
\<close>

record monitor =
  mon_open :: "nat \<rightharpoonup> string \<times> string"
  mon_mail :: "string \<rightharpoonup> string"

fun watch_notice :: "monitor \<Rightarrow> notice \<Rightarrow> monitor option" where
  "watch_notice m (Subscribed i url b) = Some (m\<lparr>mon_open := (mon_open m)(i \<mapsto> (url, b))\<rparr>)"
| "watch_notice m (Announced i url b) =
     (case mon_open m i of
        None \<Rightarrow> None
      | Some (u, b0) \<Rightarrow>
          if u = url \<and> b \<noteq> b0
          then Some (m\<lparr>mon_open := (mon_open m)(i := None), mon_mail := (mon_mail m)(url \<mapsto> b)\<rparr>)
          else None)"
| "watch_notice m (Delivered url b) =
     (if mon_mail m url = Some b then Some (m\<lparr>mon_mail := (mon_mail m)(url := None)\<rparr>) else None)"

fun watch :: "monitor \<Rightarrow> notice list \<Rightarrow> monitor option" where
  "watch m [] = Some m"
| "watch m (n # ns) = (case watch_notice m n of None \<Rightarrow> None | Some m' \<Rightarrow> watch m' ns)"

definition new_monitor :: monitor where
  "new_monitor = \<lparr>mon_open = Map.empty, mon_mail = Map.empty\<rparr>"

lemma watch_append:
  "watch m (ns @ ns') = (case watch m ns of None \<Rightarrow> None | Some m' \<Rightarrow> watch m' ns')"
proof (induction ns arbitrary: m)
  case (Cons n ns)
  then show ?case by (cases "watch_notice m n") simp_all
qed simp

text \<open>Subscriptions that are fewer or revoked.\<close>

definition fewer :: "(nat \<rightharpoonup> subscription) \<Rightarrow> (nat \<rightharpoonup> subscription) \<Rightarrow> bool" where
  "fewer m' m \<longleftrightarrow> (\<forall>i x. m' i = Some x \<longrightarrow>
     (\<exists>y. m i = Some y \<and> sub_url y = sub_url x \<and> sub_base y = sub_base x \<and> (sub_revoked y \<longrightarrow> sub_revoked x)))"

lemma fewer_simps:
  "fewer (m(i := None)) m"
  "m i = Some x \<Longrightarrow> fewer (m(i \<mapsto> x\<lparr>sub_revoked := True\<rparr>)) m"
  "fewer (revoke_url url m) m"
  by (auto simp: fewer_def revoke_url_def split: if_splits)

lemma fewerE:
  assumes "fewer m' m" and "m' i = Some x"
  obtains y where "m i = Some y" "sub_url y = sub_url x" "sub_base y = sub_base x" "sub_revoked y \<Longrightarrow> sub_revoked x"
  using assms unfolding fewer_def by blast

text \<open>One open subscription that is not revoked for a URL, and the monitor accepts the notices.\<close>

definition exclusive :: "(nat \<rightharpoonup> subscription) \<Rightarrow> bool" where
  "exclusive m \<longleftrightarrow> (\<forall>i j x y. m i = Some x \<longrightarrow> m j = Some y \<longrightarrow> \<not> sub_revoked x \<longrightarrow> \<not> sub_revoked y \<longrightarrow>
     sub_url x = sub_url y \<longrightarrow> i = j)"

definition covers :: "monitor \<Rightarrow> (nat \<rightharpoonup> subscription) \<Rightarrow> bool" where
  "covers mon m \<longleftrightarrow> (\<forall>i x. m i = Some x \<longrightarrow> mon_open mon i = Some (sub_url x, sub_base x))"

definition service_ok :: "service \<Rightarrow> bool" where
  "service_ok a \<longleftrightarrow> (\<forall>i \<in> dom (subs a). i < issued a) \<and> exclusive (subs a) \<and>
     (\<exists>mon. watch new_monitor (notices a) = Some mon \<and> mon_mail mon = mailbox a \<and> covers mon (subs a))"

lemma exclusive_fewer: "exclusive m \<Longrightarrow> fewer m' m \<Longrightarrow> exclusive m'"
  unfolding exclusive_def by (metis fewerE)

lemma covers_fewer: "covers mon m \<Longrightarrow> fewer m' m \<Longrightarrow> covers mon m'"
  unfolding covers_def by (metis fewerE)

lemma bounded_fewer: "\<forall>i \<in> dom m. i < n \<Longrightarrow> fewer m' m \<Longrightarrow> \<forall>i \<in> dom m'. i < (n :: nat)"
  unfolding fewer_def by blast

lemma exclusive_subscribe:
  assumes "exclusive m"
  shows "exclusive ((revoke_url url m)(n \<mapsto> \<lparr>sub_url = url, sub_base = b, sub_revoked = False\<rparr>))"
proof -
  have r: "exclusive (revoke_url url m)" using assms fewer_simps(3) by (rule exclusive_fewer)
  have n: "sub_url x \<noteq> url" if "revoke_url url m i = Some x" "\<not> sub_revoked x" for i x
  proof -
    from that(1) obtain y where "m i = Some y" "x = (if sub_url y = url then y\<lparr>sub_revoked := True\<rparr> else y)"
      by (auto simp: revoke_url_def)
    with that(2) show ?thesis by (cases "sub_url y = url") simp_all
  qed
  show ?thesis
    unfolding exclusive_def
  proof (intro allI impI)
    fix i j x y
    assume *: "((revoke_url url m)(n \<mapsto> \<lparr>sub_url = url, sub_base = b, sub_revoked = False\<rparr>)) i = Some x"
      "((revoke_url url m)(n \<mapsto> \<lparr>sub_url = url, sub_base = b, sub_revoked = False\<rparr>)) j = Some y"
      "\<not> sub_revoked x" "\<not> sub_revoked y" "sub_url x = sub_url y"
    show "i = j"
    proof (cases "i = n"; cases "j = n")
      assume "i = n" "j \<noteq> n"
      with * have "revoke_url url m j = Some y" "sub_url y = url" by auto
      with n *(4) show ?thesis by blast
    next
      assume "i \<noteq> n" "j = n"
      with * have "revoke_url url m i = Some x" "sub_url x = url" by auto
      with n *(3) show ?thesis by blast
    next
      assume "i \<noteq> n" "j \<noteq> n"
      with * have "revoke_url url m i = Some x" "revoke_url url m j = Some y" by simp_all
      with r *(3-5) show ?thesis unfolding exclusive_def by blast
    qed simp
  qed
qed

lemma service_ok_new: "service_ok new_service"
  by (simp add: service_ok_def new_service_def new_monitor_def exclusive_def covers_def)

lemma service_okE:
  assumes "service_ok a"
  obtains mon where "watch new_monitor (notices a) = Some mon" "mon_mail mon = mailbox a" "covers mon (subs a)"
    "exclusive (subs a)" "\<forall>i \<in> dom (subs a). i < issued a"
  using assms unfolding service_ok_def by blast

lemma service_okI:
  assumes "watch new_monitor (notices a) = Some mon" and "mon_mail mon = mailbox a" and "covers mon (subs a)"
    and "exclusive (subs a)" and "\<forall>i \<in> dom (subs a). i < issued a"
  shows "service_ok a"
  using assms unfolding service_ok_def by blast

lemma service_ok_fewer:
  assumes "service_ok a" and "fewer m (subs a)"
  shows "service_ok (a\<lparr>subs := m\<rparr>)"
proof -
  obtain mon where a: "watch new_monitor (notices a) = Some mon" "mon_mail mon = mailbox a" "covers mon (subs a)"
    "exclusive (subs a)" "\<forall>i \<in> dom (subs a). i < issued a"
    using assms(1) by (rule service_okE)
  show ?thesis
    by (rule service_okI [of _ mon])
      (use a bounded_fewer [OF _ assms(2)] exclusive_fewer [OF _ assms(2)] covers_fewer [OF _ assms(2)] in auto)
qed

lemma service_ok_step: "service_step a a' \<Longrightarrow> service_ok a \<Longrightarrow> service_ok a'"
proof (induction rule: service_step.induct)
  case (subscribe a url b)
  then obtain mon where a: "watch new_monitor (notices a) = Some mon" "mon_mail mon = mailbox a" "covers mon (subs a)"
    "exclusive (subs a)" "\<forall>i \<in> dom (subs a). i < issued a"
    by (rule service_okE)
  have c: "covers mon (revoke_url url (subs a))" using a(3) fewer_simps(3) by (rule covers_fewer)
  have d: "\<forall>i \<in> dom (revoke_url url (subs a)). i < issued a" using a(5) fewer_simps(3) by (rule bounded_fewer)
  show ?case
  proof (rule service_okI)
    show "watch new_monitor (notices (a\<lparr>subs := (revoke_url url (subs a))(issued a \<mapsto>
          \<lparr>sub_url = url, sub_base = b, sub_revoked = False\<rparr>), issued := Suc (issued a),
          notices := notices a @ [Subscribed (issued a) url b]\<rparr>)) =
        Some (mon\<lparr>mon_open := (mon_open mon)(issued a \<mapsto> (url, b))\<rparr>)"
      using a(1) by (simp add: watch_append)
  qed (use a exclusive_subscribe c d in \<open>auto simp: covers_def less_Suc_eq\<close>)
next
  case (announce a i x b)
  then have f: "service_ok (a\<lparr>subs := (subs a)(i := None)\<rparr>)" by (intro service_ok_fewer fewer_simps)
  obtain mon where a: "watch new_monitor (notices a) = Some mon" "mon_mail mon = mailbox a" "covers mon (subs a)"
    using announce.prems unfolding service_ok_def by blast
  have "mon_open mon i = Some (sub_url x, sub_base x)" using a(3) announce.hyps(1) by (simp add: covers_def)
  then have "watch new_monitor (notices a @ [Announced i (sub_url x) b]) =
      Some (mon\<lparr>mon_open := (mon_open mon)(i := None), mon_mail := (mon_mail mon)(sub_url x \<mapsto> b)\<rparr>)"
    using a(1) announce.hyps(2) by (simp add: watch_append)
  moreover have "covers (mon\<lparr>mon_open := (mon_open mon)(i := None), mon_mail := (mon_mail mon)(sub_url x \<mapsto> b)\<rparr>)
      ((subs a)(i := None))"
    using a(3) by (simp add: covers_def)
  ultimately show ?case using f a(2) by (auto simp: service_ok_def)
next
  case (deliver a url b)
  then obtain mon where a: "watch new_monitor (notices a) = Some mon" "mon_mail mon = mailbox a" "covers mon (subs a)"
    unfolding service_ok_def by blast
  then have "watch new_monitor (notices a @ [Delivered url b]) = Some (mon\<lparr>mon_mail := (mon_mail mon)(url := None)\<rparr>)"
    using deliver.hyps by (simp add: watch_append)
  moreover have "covers (mon\<lparr>mon_mail := (mon_mail mon)(url := None)\<rparr>) (subs a)" using a(3) by (simp add: covers_def)
  ultimately show ?case using a(2) deliver.prems by (auto simp: service_ok_def)
next
  case (revoke a i x)
  then show ?case by (intro service_ok_fewer fewer_simps)
next
  case (leave a i x)
  then show ?case by (intro service_ok_fewer fewer_simps)
qed (simp add: service_ok_def)

section \<open>The provider refines the service\<close>

text \<open>
  What of the provider's state the service sees: open subscriptions are the watchers that have not returned; the
  configuration one started from is the one the trace says it was put to work on, of which the watcher
  itself keeps a hash only.
\<close>

fun notice_of :: "'c obs \<Rightarrow> notice list" where
  "notice_of (Watching i u b) = [Subscribed i u b]"
| "notice_of (Changed i u b) = [Announced i u b]"
| "notice_of (Served_cached u b) = [Delivered u b]"
| "notice_of _ = []"

definition notices_of :: "'c obs list \<Rightarrow> notice list" where
  "notices_of tr = concat (map notice_of tr)"

fun base_in :: "nat \<Rightarrow> 'c obs list \<Rightarrow> string option" where
  "base_in i [] = None"
| "base_in i (ob # tr) =
     (case ob of Watching j u b \<Rightarrow> if j = i then Some b else base_in i tr | _ \<Rightarrow> base_in i tr)"

definition subscription_of :: "'c sys \<Rightarrow> nat \<Rightarrow> subscription option" where
  "subscription_of s i =
     (if i < length (watchers s) \<and> w_phase (watchers s ! i) \<noteq> Returned
      then Some \<lparr>sub_url = w_url (watchers s ! i), sub_base = the (base_in i (trace s)),
                 sub_revoked = w_cancelled (watchers s ! i)\<rparr>
      else None)"

definition service_of :: "'c sys \<Rightarrow> service" where
  "service_of s =
     \<lparr>subs = subscription_of s, issued = length (watchers s), mailbox = newConfig (prov s),
      closed = shutdown (prov s), notices = notices_of (trace s)\<rparr>"

lemma notices_of_simps [simp]:
  "notices_of [] = []"
  "notices_of (tr @ tr') = notices_of tr @ notices_of tr'"
  "notices_of (ob # tr) = notice_of ob @ notices_of tr"
  by (simp_all add: notices_of_def)

lemma base_in_append:
  "base_in i (tr @ tr') = (case base_in i tr of None \<Rightarrow> base_in i tr' | Some b \<Rightarrow> Some b)"
  by (induction tr) (auto split: obs.split)

text \<open>Every watcher was put to work on a configuration whose hash it keeps; no other index was.\<close>

definition inv_base :: "('y, 'c) eec_env \<Rightarrow> 'c sys \<Rightarrow> bool" where
  "inv_base env s \<longleftrightarrow>
     (\<forall>i < length (watchers s). \<exists>b. base_in i (trace s) = Some b \<and> configHash (watchers s ! i) = sha256 env b) \<and>
     (\<forall>i \<ge> length (watchers s). base_in i (trace s) = None)"

lemma base_in_quiet: "\<forall>ob \<in> set obs. quiet ob \<Longrightarrow> base_in i obs = None"
  by (induction obs) (auto simp: quiet_def split: obs.splits)

lemma inv_base_same:
  assumes "inv_base env s" and "\<forall>i. base_in i tr = None" and "trace s' = trace s @ tr"
    and "length (watchers s') = length (watchers s)"
    and "\<And>i. i < length (watchers s) \<Longrightarrow> configHash (watchers s' ! i) = configHash (watchers s ! i)"
  shows "inv_base env s'"
proof -
  have "base_in i (trace s') = base_in i (trace s)" for i
    using assms(2,3) by (simp add: base_in_append split: option.split)
  with assms(1,4,5) show ?thesis by (simp add: inv_base_def)
qed

lemma move_inv_base: "move env s s' \<Longrightarrow> inv_base env s \<Longrightarrow> inv_base env s'"
proof (induction rule: move.induct)
  case (m_quiet s' s obs)
  show ?case
    by (rule inv_base_same [OF m_quiet.prems _ m_quiet.hyps(3)])
      (simp_all add: m_quiet.hyps(1) base_in_quiet [OF m_quiet.hyps(4)])
next
  case (m_cached s' s url b)
  show ?case by (rule inv_base_same [OF m_cached.prems _ m_cached.hyps(5)]) (simp_all add: m_cached.hyps(1))
next
  case (m_register s' s url x b r)
  have t: "base_in i (trace s') = (if i = length (watchers s) then Some b else base_in i (trace s))" for i
    using m_register.prems m_register.hyps(9) by (auto simp: base_in_append inv_base_def split: option.split)
  have h: "configHash (watchers s' ! i) = (if i < length (watchers s) then configHash (watchers s ! i) else sha256 env b)"
    if "i \<le> length (watchers s)" for i
    using that m_register.hyps by (simp add: nth_append cancel_kept_nth)
  have l: "length (watchers s') = Suc (length (watchers s))" using m_register.hyps(1) by simp
  show ?case
    using m_register.prems by (auto simp: inv_base_def t h l less_Suc_eq)
next
  case (m_phase i s s' ph)
  show ?case
    by (rule inv_base_same [OF m_phase.prems, of "[]"]) (simp_all add: m_phase.hyps(1,3,5) nth_list_update)
next
  case (m_cancel i s s')
  show ?case
    by (rule inv_base_same [OF m_cancel.prems, of "[]"]) (simp_all add: m_cancel.hyps(1,2,4) nth_list_update)
next
  case (m_poll i s s' rq)
  show ?case
    by (rule inv_base_same [OF m_poll.prems _ m_poll.hyps(6)]) (simp_all add: m_poll.hyps(1,3) nth_list_update)
next
  case (m_change i s b s')
  show ?case
    by (rule inv_base_same [OF m_change.prems _ m_change.hyps(7)]) (simp_all add: m_change.hyps(1,4) nth_list_update)
qed

definition provider_inv :: "('y, 'c) eec_env \<Rightarrow> 'c sys \<Rightarrow> bool" where
  "provider_inv env s \<longleftrightarrow> inv env s \<and> inv_base env s"

lemma provider_inv_step: "provider_inv env s \<Longrightarrow> step env s s' \<Longrightarrow> provider_inv env s'"
  using step_inv move_inv_base step_move unfolding provider_inv_def by blast

text \<open>Changes of the provider's state the service does not see.\<close>

lemma service_of_eqI:
  assumes "length (watchers s') = length (watchers s)" and "newConfig (prov s') = newConfig (prov s)"
    and "shutdown (prov s') = shutdown (prov s)" and "trace s' = trace s @ tr" and "notices_of tr = []"
    and "\<And>i. base_in i tr = None"
    and "\<And>i. i < length (watchers s) \<Longrightarrow> w_url (watchers s' ! i) = w_url (watchers s ! i) \<and>
      w_cancelled (watchers s' ! i) = w_cancelled (watchers s ! i) \<and>
      (w_phase (watchers s' ! i) = Returned \<longleftrightarrow> w_phase (watchers s ! i) = Returned)"
  shows "service_of s' = service_of s"
proof -
  have "base_in i (trace s') = base_in i (trace s)" for i
    using assms(4,6) by (simp add: base_in_append split: option.split)
  then have "subscription_of s' = subscription_of s"
    using assms(1,7) by (auto simp: subscription_of_def fun_eq_iff)
  with assms(1-5) show ?thesis by (simp add: service_of_def)
qed

lemma begin_retrieve_service:
  "service_of (begin_retrieve env w uri hw s) = service_of s \<or>
   service_step (service_of s) (service_of (begin_retrieve env w uri hw s))"
proof (cases "retrieve_target env w (prov s) uri")
  case (Inl err)
  then show ?thesis
    by (intro disjI1 service_of_eqI [of _ _ "[Failed err]"]) (simp_all add: begin_retrieve_def observe_def)
next
  case (Inr t)
  obtain url cfg client where t: "t = (url, cfg, client)" by (cases t)
  show ?thesis
  proof (cases "newConfig (prov s) url")
    case (Some b)
    let ?s' = "begin_retrieve env w uri hw s"
    have "base_in i [Served_cached url b] = None" for i by simp
    then have "service_of ?s' = service_of s\<lparr>mailbox := (newConfig (prov s))(url := None),
        notices := notices_of (trace s) @ [Delivered url b]\<rparr>"
      using Inr t Some by (simp add: begin_retrieve_def observe_def service_of_def subscription_of_def
          base_in_append fun_eq_iff Let_def split: option.split)
    then show ?thesis
      using service_step.deliver [of "service_of s" url b] Some by (simp add: service_of_def)
  next
    case None
    then show ?thesis
      using Inr t by (intro disjI1, cases "newContextBoundRequest env url (authToken cfg)")
        (simp_all add: begin_retrieve_def observe_def service_of_def subscription_of_def base_in_append
          fun_eq_iff Let_def split: option.split)
  qed
qed

lemma complete_fetch_service: "service_of (complete_fetch k outcome s) = service_of s"
  by (cases "getConfigBytes (r_url (retrievals s ! k)) outcome")
    (simp_all add: complete_fetch_def observe_def service_of_def subscription_of_def base_in_append
      fun_eq_iff Let_def split: option.split)

text \<open>Registering a watcher: by the invariant of the cancel map, the one that is cancelled is the only one to revoke.\<close>

lemma register_subs:
  assumes "inv_map s" and "inv_base env s"
    and w: "watchers s' = cancel_kept s url @ [x]" "w_url x = url" "w_phase x \<noteq> Returned" "\<not> w_cancelled x"
    and t: "trace s' = trace s @ [Watching (length (watchers s)) url b, ob]" "\<forall>i. base_in i [ob] = None"
  shows "subscription_of s' = (revoke_url url (subscription_of s))(length (watchers s) \<mapsto>
    \<lparr>sub_url = url, sub_base = b, sub_revoked = False\<rparr>)"
proof (rule ext)
  fix i
  have base: "base_in i (trace s') =
      (if i = length (watchers s) then Some b else base_in i (trace s))" if "i \<le> length (watchers s)"
    using that assms(2) t by (auto simp: base_in_append inv_base_def split: option.split)
  consider "i < length (watchers s)" | "i = length (watchers s)" | "i > length (watchers s)" by linarith
  then show "subscription_of s' i = ((revoke_url url (subscription_of s))(length (watchers s) \<mapsto>
    \<lparr>sub_url = url, sub_base = b, sub_revoked = False\<rparr>)) i"
  proof cases
    case 1
    let ?x = "watchers s ! i"
    have "watchers s' ! i = ?x\<lparr>w_cancelled := w_cancelled ?x \<or> watcherCancelMap (prov s) url = Some i\<rparr>"
      using 1 w(1) by (simp add: nth_append cancel_kept_nth)
    moreover have "watcherCancelMap (prov s) url = Some i \<Longrightarrow> w_url ?x = url"
      and "w_url ?x = url \<Longrightarrow> \<not> w_cancelled ?x \<Longrightarrow> watcherCancelMap (prov s) url = Some i"
      using assms(1) 1 unfolding inv_map_def by blast+
    ultimately show ?thesis
      using 1 base w(1) by (auto simp: subscription_of_def revoke_url_def)
  next
    case 2
    then show ?thesis using base w by (simp add: subscription_of_def nth_append)
  next
    case 3
    then show ?thesis using w(1) by (simp add: subscription_of_def revoke_url_def)
  qed
qed

lemma finish_retrieve_service:
  assumes "provider_inv env s"
  shows "service_of (finish_retrieve env k body s) = service_of s \<or>
    service_step (service_of s) (service_of (finish_retrieve env k body s))"
proof (cases "r_watch (retrievals s ! k) \<and> refreshInterval (r_cfg (retrievals s ! k)) \<noteq> 0")
  case False
  then show ?thesis
    by (intro disjI1 service_of_eqI [of _ _ "[Retrieved (r_url (retrievals s ! k)) (NewRetrievedFromYAML env body)]"])
      (auto simp: finish_retrieve_def observe_def Let_def)
next
  case True
  let ?s' = "finish_retrieve env k body s" and ?url = "r_url (retrievals s ! k)"
  let ?x = "\<lparr>w_url = ?url, w_token = authToken (r_cfg (retrievals s ! k)),
      w_interval = refreshInterval (r_cfg (retrievals s ! k)), configHash = sha256 env body,
      configChanged = ''true'', w_phase = Started, w_cancelled = False\<rparr>"
  have s': "watchers ?s' = cancel_kept s ?url @ [?x]" "newConfig (prov ?s') = newConfig (prov s)"
    "shutdown (prov ?s') = shutdown (prov s)"
    "trace ?s' = trace s @ [Watching (length (watchers s)) ?url body, Retrieved ?url (NewRetrievedFromYAML env body)]"
    using True by (simp_all add: finish_retrieve_def register_watcher_def observe_def cancel_watcher_def
        cancel_kept_def Let_def split: option.split)
  have m: "inv_map s" "inv_base env s" using assms by (simp_all add: provider_inv_def inv_def)
  have "subscription_of ?s' = (revoke_url ?url (subscription_of s))(length (watchers s) \<mapsto>
      \<lparr>sub_url = ?url, sub_base = body, sub_revoked = False\<rparr>)"
    using register_subs [OF m(1,2) s'(1) _ _ _ s'(4)] by simp
  then have "service_of ?s' = (service_of s)\<lparr>subs := (revoke_url ?url (subs (service_of s)))(issued (service_of s) \<mapsto>
      \<lparr>sub_url = ?url, sub_base = body, sub_revoked = False\<rparr>), issued := Suc (issued (service_of s)),
      notices := notices (service_of s) @ [Subscribed (issued (service_of s)) ?url body]\<rparr>"
    using s' by (simp add: service_of_def)
  then show ?thesis using service_step.subscribe [of "service_of s" ?url body] by simp
qed

lemma service_of_phase:
  assumes "i < length (watchers s)" and "w_phase (watchers s ! i) \<noteq> Returned" and "w_phase x \<noteq> Returned"
    and "w_url x = w_url (watchers s ! i)" and "w_cancelled x = w_cancelled (watchers s ! i)"
  shows "service_of (set_watcher i x s) = service_of s"
  by (rule service_of_eqI [of _ _ "[]"]) (use assms in \<open>auto simp: set_watcher_def nth_list_update\<close>)

lemma subscription_of_set:
  assumes "i < length (watchers s)"
  shows "subscription_of (set_watcher i x s) = (subscription_of s)(i :=
    (if w_phase x \<noteq> Returned
     then Some \<lparr>sub_url = w_url x, sub_base = the (base_in i (trace s)), sub_revoked = w_cancelled x\<rparr> else None))"
  using assms by (auto simp: subscription_of_def set_watcher_def fun_eq_iff nth_list_update)

lemma watcher_start_service:
  assumes "i < length (watchers s)" and "w_phase (watchers s ! i) = Started"
  shows "service_of (watcher_start i s) = service_of s"
proof (cases "w_interval (watchers s ! i) \<le> 0")
  case True
  then show ?thesis
    by (intro service_of_eqI [of _ _ "[]"]) (simp_all add: watcher_start_def Let_def)
next
  case False
  then show ?thesis using assms by (simp add: watcher_start_def service_of_phase Let_def)
qed

lemma watcher_tick_service:
  fixes s :: "'c sys"
  assumes "i < length (watchers s)" and "w_phase (watchers s ! i) = Waiting"
  shows "service_of (watcher_tick env i s) = service_of s"
proof (cases "newContextBoundRequest env (w_url (watchers s ! i)) (w_token (watchers s ! i))")
  case (Inl err)
  then show ?thesis by (simp add: watcher_tick_def Let_def)
next
  case (Inr rq)
  have "service_of (observe (Requested (Some i) rq') t) = service_of t" for rq' and t :: "'c sys"
    by (rule service_of_eqI [of _ _ "[Requested (Some i) rq']"]) (simp_all add: observe_def)
  then show ?thesis using assms Inr by (simp add: watcher_tick_def service_of_phase Let_def)
qed

lemma watcher_answer_service:
  assumes i: "i < length (watchers s)" "w_phase (watchers s ! i) = Polling" and "provider_inv env s"
  shows "service_of (watcher_answer env i outcome s) = service_of s \<or>
    service_step (service_of s) (service_of (watcher_answer env i outcome s))"
proof (cases "getConfigBytes (w_url (watchers s ! i)) outcome")
  case (Inl err)
  then show ?thesis using i by (simp add: watcher_answer_def service_of_phase Let_def)
next
  case (Inr body)
  let ?x = "watchers s ! i"
  show ?thesis
  proof (cases "configHash ?x = sha256 env body")
    case True
    with Inr i show ?thesis by (simp add: watcher_answer_def service_of_phase Let_def)
  next
    case False
    obtain b where b: "base_in i (trace s) = Some b" "configHash ?x = sha256 env b"
      using assms(3) i(1) by (auto simp: provider_inv_def inv_base_def)
    let ?s' = "watcher_answer env i outcome s"
    have s': "length (watchers ?s') = length (watchers s)" "newConfig (prov ?s') = (newConfig (prov s))(w_url ?x \<mapsto> body)"
      "shutdown (prov ?s') = shutdown (prov s)" "trace ?s' = trace s @ [Changed i (w_url ?x) body]"
      "watchers ?s' = (watchers s)[i := ?x\<lparr>w_phase := Returned\<rparr>]"
      using Inr False by (simp_all add: watcher_answer_def set_watcher_def observe_def Let_def)
    have "base_in j (trace ?s') = base_in j (trace s)" for j
      by (simp add: s' base_in_append split: option.split)
    then have "subscription_of ?s' = (subscription_of s)(i := None)"
      using i(1) by (auto simp: subscription_of_def s' fun_eq_iff nth_list_update)
    then have "service_of ?s' = (service_of s)\<lparr>subs := (subs (service_of s))(i := None),
        mailbox := (mailbox (service_of s))(w_url ?x \<mapsto> body),
        notices := notices (service_of s) @ [Announced i (w_url ?x) body]\<rparr>"
      using s' by (simp add: service_of_def)
    moreover have "subs (service_of s) i = Some \<lparr>sub_url = w_url ?x, sub_base = b, sub_revoked = w_cancelled ?x\<rparr>"
      using i b by (simp add: service_of_def subscription_of_def)
    moreover have "body \<noteq> b" using b(2) False by auto
    ultimately show ?thesis using service_step.announce by fastforce
  qed
qed

lemma watcher_stop_service:
  assumes i: "i < length (watchers s)" "w_phase (watchers s ! i) = Waiting"
    and "shutdown (prov s) \<or> w_cancelled (watchers s ! i)"
  shows "service_step (service_of s) (service_of (watcher_stop i s))"
proof -
  let ?x = "watchers s ! i"
  have "service_of (watcher_stop i s) = (service_of s)\<lparr>subs := (subs (service_of s))(i := None)\<rparr>"
    using subscription_of_set [OF i(1)] by (simp add: watcher_stop_def service_of_def) (simp add: set_watcher_def)
  moreover have "subs (service_of s) i = Some \<lparr>sub_url = w_url ?x, sub_base = the (base_in i (trace s)),
      sub_revoked = w_cancelled ?x\<rparr>"
    using i by (simp add: service_of_def subscription_of_def)
  ultimately show ?thesis using service_step.leave assms(3) by (fastforce simp: service_of_def)
qed

lemma cancel_watcher_service:
  assumes i: "i < length (watchers s)"
  shows "service_of (cancel_watcher i s) = service_of s \<or>
    service_step (service_of s) (service_of (cancel_watcher i s))"
proof -
  let ?x = "watchers s ! i"
  have c: "cancel_watcher i s = set_watcher i (?x\<lparr>w_cancelled := True\<rparr>) s"
    by (simp add: cancel_watcher_def set_watcher_def)
  show ?thesis
  proof (cases "w_phase ?x = Returned")
    case True
    then have "subscription_of (cancel_watcher i s) = subscription_of s"
      unfolding c subscription_of_set [OF i] by (simp add: subscription_of_def fun_eq_iff)
    then show ?thesis by (simp add: service_of_def cancel_watcher_def)
  next
    case False
    then have x: "subs (service_of s) i = Some \<lparr>sub_url = w_url ?x, sub_base = the (base_in i (trace s)),
        sub_revoked = w_cancelled ?x\<rparr>"
      using i by (simp add: service_of_def subscription_of_def)
    have "service_of (cancel_watcher i s) = (service_of s)\<lparr>subs := (subs (service_of s))(i \<mapsto>
        \<lparr>sub_url = w_url ?x, sub_base = the (base_in i (trace s)), sub_revoked = True\<rparr>)\<rparr>"
      unfolding c using subscription_of_set [OF i] False
      by (simp add: service_of_def) (simp add: set_watcher_def)
    with service_step.revoke [OF x] show ?thesis by simp
  qed
qed

lemma Shutdown_service:
  "service_of (Shutdown s) = service_of s \<or> service_step (service_of s) (service_of (Shutdown s))"
proof (cases "shutdown (prov s)")
  case True
  then show ?thesis by (intro disjI1 service_of_eqI [of _ _ "[]"]) (simp_all add: Shutdown_def)
next
  case False
  then have "subscription_of (Shutdown s) = subscription_of s"
    by (simp add: Shutdown_def subscription_of_def fun_eq_iff)
  then have "service_of (Shutdown s) = (service_of s)\<lparr>closed := True\<rparr>"
    using False by (simp add: service_of_def Shutdown_def)
  then show ?thesis using service_step.close [of "service_of s"] by simp
qed

lemma step_service:
  assumes "provider_inv env s" and "step env s s'"
  shows "service_of s' = service_of s \<or> service_step (service_of s) (service_of s')"
  using assms(2,1)
proof (cases rule: step.cases)
  case (step_retrieve w uri hw)
  then show ?thesis using begin_retrieve_service by blast
next
  case (step_fetched k outcome)
  then show ?thesis by (simp add: complete_fetch_service)
next
  case (step_finish k body)
  then show ?thesis using finish_retrieve_service [OF assms(1)] by simp
next
  case (step_start i)
  then show ?thesis by (simp add: watcher_start_service)
next
  case (step_tick i)
  then show ?thesis by (simp add: watcher_tick_service)
next
  case (step_answer i outcome)
  then show ?thesis using watcher_answer_service [OF _ _ assms(1)] by simp
next
  case (step_stop i)
  then show ?thesis by (simp add: watcher_stop_service)
next
  case (step_cancel i)
  then show ?thesis by (simp add: cancel_watcher_service)
next
  case step_shutdown
  then show ?thesis using Shutdown_service by simp
qed

interpretation eec: simulation "\<lambda>s. s = init_sys newProvider" "step env" "provider_inv env" service_of service_step
  for env :: "('y, 'c) eec_env"
proof unfold_locales
  show "s = init_sys newProvider \<Longrightarrow> provider_inv env s" for s
    by (simp add: provider_inv_def inv_init newProvider_def) (simp add: inv_base_def init_sys_def)
qed (simp_all add: provider_inv_step step_service)

lemma service_of_init: "service_of (init_sys newProvider) = new_service"
  by (simp add: service_of_def init_sys_def newProvider_def new_service_def subscription_of_def fun_eq_iff)

lemma reachable_steps: "reachable env p s \<longleftrightarrow> (step env)\<^sup>*\<^sup>* (init_sys p) s"
proof
  assume "reachable env p s"
  then show "(step env)\<^sup>*\<^sup>* (init_sys p) s" by (induction rule: reachable.induct) auto
next
  assume "(step env)\<^sup>*\<^sup>* (init_sys p) s"
  then show "reachable env p s" by (induction rule: rtranclp_induct) (auto intro: reach_init reach_step)
qed





end
