(* ===== verification/Mockeec.thy ===== *)
theory Mockeec
  imports Eec_Service Go_Flag
begin

text \<open>
  \<^verbatim>\<open>internal/mockeec/main.go\<close>, the server a provider of configurations can be tried against by hand: it prints the
  headers of a request and serves files. The server of files (\<^verbatim>\<open>http.FileServer\<close>) is behind an interface and a parameter
  here too: a function from the files and a request to a status and a body.
\<close>

record handler =
  fileserverHandler :: "os \<Rightarrow> eec_request \<Rightarrow> nat \<times> string"

text \<open>
  The headers of a request are a Go map: they come in any order of the names, the values of a name in their order.
  \<open>header_groups\<close> says which lists of groups are an order of a request's headers.
\<close>

definition header_groups :: "eec_request \<Rightarrow> (string \<times> string list) list \<Rightarrow> bool" where
  "header_groups rq gs \<longleftrightarrow> distinct (map fst gs) \<and> (\<forall>(n, vs) \<in> set gs. vs \<noteq> []) \<and>
     (\<forall>n. map snd (filter (\<lambda>h. fst h = n) (er_header rq)) = (case map_of gs n of None \<Rightarrow> [] | Some vs \<Rightarrow> vs))"

definition println :: "os \<Rightarrow> string list \<Rightarrow> os" where
  "println w args = printf w (join args '' '' @ nl) []"

definition ServeHTTP :: "handler \<Rightarrow> (string \<times> string list) list \<Rightarrow> os \<Rightarrow> eec_request \<Rightarrow> os \<times> nat \<times> string" where
  "ServeHTTP h headers w rq =
     (let w = println w [''Got request with headers:''];
          w = foldl (\<lambda>w (name, values). foldl (\<lambda>w value. println w [name, value]) w values) w headers;
          w = println w []
      in (w, fileserverHandler h w rq))"

text \<open>
  The command: \<open>listen\<close> is \<^verbatim>\<open>http.ListenAndServe\<close>, which returns only with an error; None is a server that
  goes on. The error is fatal.
\<close>

definition mockeec_flags :: flags where
  "mockeec_flags = map_of [(''p'', Text ''8000''), (''d'', Text ''.'')]"

datatype served = Serving_dir string | Exited nat

definition mockeec_main :: "(string \<Rightarrow> go_error option) \<Rightarrow> string list \<Rightarrow> served" where
  "mockeec_main listen argv =
     (case parse_args mockeec_flags argv of
        Inl e \<Rightarrow> Exited (usage_status e)
      | Inr (m, _) \<Rightarrow>
          (case listen ('':'' @ text_flag m ''p'') of
             None \<Rightarrow> Serving_dir (text_flag m ''d'')
           | Some err \<Rightarrow> Exited 1))"

section \<open>What is printed\<close>

definition header_line :: "string \<times> string \<Rightarrow> string" where
  "header_line h = fst h @ '' '' @ snd h @ nl"

definition ungroup :: "(string \<times> string list) list \<Rightarrow> (string \<times> string) list" where
  "ungroup gs = concat (map (\<lambda>(n, vs). map (Pair n) vs) gs)"

lemma println_stdout: "os_stdout (println w args) = os_stdout w @ [join args '' '' @ nl]"
  and println_files: "os_files (println w args) = os_files w"
  by (simp_all add: println_def printf_def)

lemma print_values:
  "os_stdout (foldl (\<lambda>w v. println w [n, v]) w vs) = os_stdout w @ map (\<lambda>v. header_line (n, v)) vs \<and>
   os_files (foldl (\<lambda>w v. println w [n, v]) w vs) = os_files w"
  by (induction vs arbitrary: w) (simp_all add: println_stdout println_files header_line_def)

lemma print_groups:
  "os_stdout (foldl (\<lambda>w (n, vs). foldl (\<lambda>w v. println w [n, v]) w vs) w gs) = os_stdout w @ map header_line (ungroup gs) \<and>
   os_files (foldl (\<lambda>w (n, vs). foldl (\<lambda>w v. println w [n, v]) w vs) w gs) = os_files w"
proof (induction gs arbitrary: w)
  case (Cons g gs)
  obtain n vs where g: "g = (n, vs)" by (cases g)
  show ?case
    using Cons [of "foldl (\<lambda>w v. println w [n, v]) w vs"] print_values [of n w vs]
    by (simp add: g ungroup_def comp_def)
qed (simp add: ungroup_def)

text \<open>The groups hold the headers of the request, each as often as the request does.\<close>

lemma ungroup_name:
  "distinct (map fst gs) \<Longrightarrow> map snd (filter (\<lambda>h. fst h = n) (ungroup gs)) = (case map_of gs n of None \<Rightarrow> [] | Some vs \<Rightarrow> vs)"
proof (induction gs)
  case (Cons g gs)
  obtain k vs where g: "g = (k, vs)" by (cases g)
  have "map_of gs k = None" using Cons.prems by (simp add: g map_of_eq_None_iff)
  moreover have "filter (\<lambda>h. fst h = n) (map (Pair k) vs) = (if k = n then map (Pair k) vs else [])"
    by (induction vs) auto
  ultimately show ?case
    using Cons by (auto simp: g ungroup_def comp_def)
qed (simp add: ungroup_def)

lemma header_groups_mset:
  assumes "header_groups rq gs"
  shows "mset (ungroup gs) = mset (er_header rq)"
proof (rule multiset_eqI)
  fix h :: "string \<times> string"
  obtain n v where h: "h = (n, v)" by (cases h)
  have c: "count (mset xs) (n, v) = count (mset (map snd (filter (\<lambda>h. fst h = n) xs))) v" for xs :: "(string \<times> string) list"
    by (induction xs) auto
  have "map snd (filter (\<lambda>h. fst h = n) (ungroup gs)) = map snd (filter (\<lambda>h. fst h = n) (er_header rq))"
    using assms by (simp add: header_groups_def ungroup_name)
  then show "count (mset (ungroup gs)) h = count (mset (er_header rq)) h" unfolding h c by simp
qed

lemma ServeHTTP_prints:
  assumes "header_groups rq gs" and "ServeHTTP h gs w rq = (w', answer)"
  shows "\<exists>ls. os_stdout w' = os_stdout w @ (''Got request with headers:'' @ nl) # ls @ [nl] \<and>
    mset ls = mset (map header_line (er_header rq)) \<and> os_files w' = os_files w \<and> answer = fileserverHandler h w' rq"
proof -
  let ?w = "println w [''Got request with headers:'']"
  have "w' = println (foldl (\<lambda>w (n, vs). foldl (\<lambda>w v. println w [n, v]) w vs) ?w gs) []"
    and "answer = fileserverHandler h w' rq"
    using assms(2) by (auto simp: ServeHTTP_def Let_def)
  then show ?thesis
    using print_groups [of ?w gs] arg_cong [OF header_groups_mset [OF assms(1)], of "image_mset header_line"]
    by (intro exI [of _ "map header_line (ungroup gs)"]) (simp add: println_stdout println_files)
qed


definition plain_handler :: handler where
  "plain_handler = \<lparr>fileserverHandler = \<lambda>w rq. case os_files w (er_url rq) of Some b \<Rightarrow> (200, b) | None \<Rightarrow> (404, [])\<rparr>"


end
