(* ===== verification/Pdata.thy ===== *)
theory Pdata
  imports Prelude "HOL-Library.List_Lexorder" "HOL-Library.Char_ord"
begin

text \<open>
  The telemetry data the test helpers work on, as far as they look at it: metrics as resources
  of scopes of metrics of data points, logs and traces likewise. A slice is a list, changed in
  place by the helpers; a map of attributes is a list of keys and values in insertion order.
  What the helpers never look at is opaque: values other than strings (\<open>'v\<close>), the body of a data
  point or record (\<open>'d\<close>), and the remaining fields of a metric, scope or resource (\<open>'x\<close>).
\<close>

datatype 'v attr_value = Str string | Val 'v

type_synonym 'v attrs = "(string \<times> 'v attr_value) list"

text \<open>The string form of a value; that of a value which is not a string is a parameter.\<close>

fun as_string :: "('v \<Rightarrow> string) \<Rightarrow> 'v attr_value \<Rightarrow> string" where
  "as_string f (Str s) = s"
| "as_string f (Val v) = f v"

datatype metric_type = Empty | Gauge | Sum | Summary | Histogram | ExponentialHistogram

record ('v, 'd) datapoint =
  dp_attrs :: "'v attrs"
  dp_body :: 'd

record ('v, 'd, 'x) metric =
  met_name :: string
  met_type :: metric_type
  met_points :: "('v, 'd) datapoint list"
  met_rest :: 'x

record ('v, 'd, 'x) scope_metrics =
  sm_name :: string
  sm_version :: string
  sm_metrics :: "('v, 'd, 'x) metric list"
  sm_rest :: 'x

record ('v, 'd, 'x) resource_metrics =
  rm_attrs :: "'v attrs"
  rm_scopes :: "('v, 'd, 'x) scope_metrics list"
  rm_rest :: 'x

type_synonym ('v, 'd, 'x) metrics = "('v, 'd, 'x) resource_metrics list"

record 'd log_record =
  lr_timestamp :: nat
  lr_observed :: nat
  lr_body :: 'd

record ('d, 'x) scope_logs =
  sl_records :: "'d log_record list"
  sl_rest :: 'x

record ('d, 'x) resource_logs =
  rl_scopes :: "('d, 'x) scope_logs list"
  rl_rest :: 'x

record 'd span =
  sp_start :: nat
  sp_end :: nat
  sp_trace_id :: "string"
  sp_span_id :: "string"
  sp_parent_id :: "string"
  sp_body :: 'd

record ('d, 'x) scope_spans =
  ss_spans :: "'d span list"
  ss_rest :: 'x

record ('d, 'x) resource_spans =
  rs_scopes :: "('d, 'x) scope_spans list"
  rs_rest :: 'x

section \<open>Removing and merging by key\<close>

text \<open>
  The closure the helpers pass to \<^verbatim>\<open>RemoveIf\<close>: it sees the elements in order, keeps a map of the
  keys seen, and removes an element whose key it has seen.
\<close>

fun remove_seen :: "('a \<Rightarrow> 'k) \<Rightarrow> 'k set \<Rightarrow> 'a list \<Rightarrow> 'a list" where
  "remove_seen key seen [] = []"
| "remove_seen key seen (x # xs) =
     (let k = key x
      in if k \<in> seen then remove_seen key seen xs
         else x # remove_seen key (insert k seen) xs)"

lemma remove_seen_first_by: "remove_seen key seen xs = first_by key seen xs"
  by (induction xs arbitrary: seen) (auto simp: Let_def)

text \<open>
  Merging in place: the helpers walk over a slice by index, remember the first index of every key
  and move the items of a later element with the same key to the element at that index. The
  interface gives the loop by its equation; the result is the grouping by key.
\<close>

lemma first_by_snoc:
  "first_by key seen (xs @ [x]) = first_by key seen xs @ (if key x \<in> seen \<union> key ` set xs then [] else [x])"
  by (induction xs arbitrary: seen) auto

definition first_at :: "('a \<Rightarrow> 'k) \<Rightarrow> 'a list \<Rightarrow> nat \<Rightarrow> bool" where
  "first_at key xs j \<longleftrightarrow> key (xs ! j) \<notin> key ` set (take j xs)"

lemma first_by_indices:
  "first_by key {} xs = map ((!) xs) (filter (first_at key xs) [0..<length xs])"
proof (induction xs rule: rev_induct)
  case (snoc x xs)
  have "filter (first_at key (xs @ [x])) [0..<length xs] = filter (first_at key xs) [0..<length xs]"
    by (rule filter_cong) (auto simp: first_at_def nth_append)
  moreover have "map ((!) (xs @ [x])) (filter (first_at key xs) [0..<length xs]) =
      map ((!) xs) (filter (first_at key xs) [0..<length xs])"
    by (rule map_cong) (auto simp: nth_append)
  ultimately show ?case
    using snoc by (simp add: first_by_snoc first_at_def [of _ _ "length xs"])
qed simp

lemma first_at_unique:
  "first_at key xs i \<Longrightarrow> first_at key xs j \<Longrightarrow> i < length xs \<Longrightarrow> j < length xs \<Longrightarrow>
   key (xs ! i) = key (xs ! j) \<Longrightarrow> i = j"
proof (rule ccontr)
  assume f: "first_at key xs i" "first_at key xs j" "i < length xs" "j < length xs"
    "key (xs ! i) = key (xs ! j)" and "i \<noteq> j"
  have "\<not> first_at key xs n" if "m < n" "n < length xs" "key (xs ! m) = key (xs ! n)" for m n
  proof -
    have "xs ! m \<in> set (take n xs)" using that by (auto simp: in_set_conv_nth)
    with that(3) show ?thesis unfolding first_at_def by (metis imageI)
  qed
  with f \<open>i \<noteq> j\<close> show False by (metis nat_neq_iff)
qed

definition group_items :: "('a \<Rightarrow> 'k) \<Rightarrow> ('a \<Rightarrow> 'b list) \<Rightarrow> 'a list \<Rightarrow> 'k \<Rightarrow> 'b list" where
  "group_items key items xs k = concat (map items (filter (\<lambda>b. key b = k) xs))"

locale keyed_merge =
  fixes key :: "'a \<Rightarrow> 'k"
    and items :: "'a \<Rightarrow> 'b list"
    and set_items :: "'b list \<Rightarrow> 'a \<Rightarrow> 'a"
    and loop :: "('k \<rightharpoonup> nat) \<Rightarrow> 'a list \<Rightarrow> nat \<Rightarrow> 'a list"
  assumes items_set: "items (set_items bs a) = bs"
    and set_set: "set_items bs (set_items cs a) = set_items bs a"
    and set_id: "set_items (items a) a = a"
    and key_set: "key (set_items bs a) = key a"
    and loop_end: "\<not> i < length xs \<Longrightarrow> loop seen xs i = xs"
    and loop_new: "i < length xs \<Longrightarrow> seen (key (xs ! i)) = None \<Longrightarrow>
          loop seen xs i = loop (seen(key (xs ! i) \<mapsto> i)) xs (Suc i)"
    and loop_seen: "i < length xs \<Longrightarrow> seen (key (xs ! i)) = Some f \<Longrightarrow>
          loop seen xs i =
            loop seen (xs[f := set_items (items (xs ! f) @ items (xs ! i)) (xs ! f),
                          i := set_items [] (xs ! i)]) (Suc i)"
begin

text \<open>The slice after \<open>i\<close> rounds, in closed form.\<close>

definition after :: "'a list \<Rightarrow> nat \<Rightarrow> nat \<Rightarrow> 'a" where
  "after xs i j =
     (if j < i
      then if first_at key xs j then set_items (group_items key items (take i xs) (key (xs ! j))) (xs ! j)
           else set_items [] (xs ! j)
      else xs ! j)"

definition slice :: "'a list \<Rightarrow> nat \<Rightarrow> 'a list" where
  "slice xs i = map (after xs i) [0..<length xs]"

definition seen_ok :: "('k \<rightharpoonup> nat) \<Rightarrow> 'a list \<Rightarrow> nat \<Rightarrow> bool" where
  "seen_ok seen xs i \<longleftrightarrow>
     (\<forall>k f. seen k = Some f \<longleftrightarrow> f < i \<and> first_at key xs f \<and> key (xs ! f) = k)"

lemma slice_nth: "j < length xs \<Longrightarrow> slice xs i ! j = after xs i j"
  by (simp add: slice_def)

lemma seen_None:
  assumes "seen_ok seen xs i" and "i < length xs"
  shows "seen k = None \<longleftrightarrow> k \<notin> key ` set (take i xs)"
proof
  assume n: "seen k = None"
  show "k \<notin> key ` set (take i xs)"
  proof
    assume "k \<in> key ` set (take i xs)"
    then have "\<exists>m. m < i \<and> key (xs ! m) = k" using assms(2) by (auto simp: in_set_conv_nth) blast
    then have "\<exists>m. (m < i \<and> key (xs ! m) = k) \<and> (\<forall>l<m. \<not> (l < i \<and> key (xs ! l) = k))"
      by (rule exists_least_iff [THEN iffD1])
    then obtain m where m: "m < i" "key (xs ! m) = k" and least: "\<And>l. l < m \<Longrightarrow> key (xs ! l) \<noteq> k"
      using less_trans by blast
    have "key x \<noteq> k" if "x \<in> set (take m xs)" for x
    proof -
      from that obtain l where "l < m" "x = xs ! l" by (auto simp: in_set_conv_nth)
      then show ?thesis using least [of l] by simp
    qed
    then have "k \<notin> key ` set (take m xs)" by (metis imageE)
    then have "first_at key xs m" using m(2) by (simp add: first_at_def)
    with m assms(1) have "seen k = Some m" unfolding seen_ok_def by blast
    with n show False by simp
  qed
next
  assume k: "k \<notin> key ` set (take i xs)"
  show "seen k = None"
  proof (rule ccontr)
    assume "seen k \<noteq> None"
    then obtain f where "f < i" "key (xs ! f) = k" using assms(1) by (auto simp: seen_ok_def)
    moreover from this have "xs ! f \<in> set (take i xs)" using assms(2) by (auto simp: in_set_conv_nth)
    ultimately show False using k by blast
  qed
qed

lemma group_Suc:
  "i < length xs \<Longrightarrow> group_items key items (take (Suc i) xs) k =
     group_items key items (take i xs) k @ (if key (xs ! i) = k then items (xs ! i) else [])"
  by (simp add: group_items_def take_Suc_conv_app_nth)

lemma group_none: "k \<notin> key ` set xs \<Longrightarrow> group_items key items xs k = []"
  by (auto simp: group_items_def filter_empty_conv)

lemma slice_new:
  assumes "i < length xs" and "first_at key xs i"
  shows "slice xs (Suc i) = slice xs i"
proof (rule nth_equalityI)
  fix j assume "j < length (slice xs (Suc i))"
  then have j: "j < length xs" by (simp add: slice_def)
  have other: "key (xs ! i) \<noteq> key (xs ! j)" if "j < i"
  proof
    assume "key (xs ! i) = key (xs ! j)"
    moreover have "xs ! j \<in> set (take i xs)" using that assms(1) by (auto simp: in_set_conv_nth)
    ultimately show False using assms(2) by (auto simp: first_at_def)
  qed
  have self: "group_items key items (take (Suc i) xs) (key (xs ! i)) = items (xs ! i)"
    using assms by (simp add: group_Suc group_none first_at_def)
  consider "j < i" | "j = i" | "i < j" by arith
  then show "slice xs (Suc i) ! j = slice xs i ! j"
    using j assms other self by cases (simp_all add: slice_nth after_def group_Suc set_id)
qed (simp add: slice_def)

lemma slice_seen:
  assumes "i < length xs" and f: "f < i" "first_at key xs f" "key (xs ! f) = key (xs ! i)"
  shows "slice xs (Suc i) =
    (slice xs i)[f := set_items (items (slice xs i ! f) @ items (slice xs i ! i)) (slice xs i ! f),
                 i := set_items [] (slice xs i ! i)]"
proof (rule nth_equalityI)
  fix j assume "j < length (slice xs (Suc i))"
  then have j: "j < length xs" by (simp add: slice_def)
  have nf: "\<not> first_at key xs i" using first_at_unique [of key xs f i] assms by auto
  have other: "key (xs ! i) \<noteq> key (xs ! j)" if "first_at key xs j" "j \<noteq> f"
    using first_at_unique [of key xs f j] that assms j by auto
  have len: "length (slice xs i) = length xs" by (simp add: slice_def)
  consider "j = i" | "j = f" | "j \<noteq> i" "j \<noteq> f" by blast
  then show "slice xs (Suc i) ! j =
      (slice xs i)[f := set_items (items (slice xs i ! f) @ items (slice xs i ! i)) (slice xs i ! f),
                   i := set_items [] (slice xs i ! i)] ! j"
  proof cases
    case 1
    with j nf len show ?thesis by (simp add: slice_nth after_def)
  next
    case 2
    with j f assms(1) len show ?thesis
      by (simp add: slice_nth after_def group_Suc items_set set_set nth_list_update)
  next
    case 3
    with j other len assms(1) show ?thesis
      by (auto simp: slice_nth after_def group_Suc nth_list_update)
  qed
qed (simp add: slice_def)

lemma seen_ok_Suc_new:
  "seen_ok seen xs i \<Longrightarrow> i < length xs \<Longrightarrow> first_at key xs i \<Longrightarrow> seen (key (xs ! i)) = None \<Longrightarrow>
   seen_ok (seen(key (xs ! i) \<mapsto> i)) xs (Suc i)"
  unfolding seen_ok_def by (auto simp: less_Suc_eq) (metis option.distinct(1))

lemma seen_ok_Suc_old:
  "seen_ok seen xs i \<Longrightarrow> \<not> first_at key xs i \<Longrightarrow> seen_ok seen xs (Suc i)"
  unfolding seen_ok_def by (auto simp: less_Suc_eq)

lemma loop_slice:
  assumes "seen_ok seen xs i" and "i \<le> length xs"
  shows "loop seen (slice xs i) i = slice xs (length xs)"
  using assms
proof (induction "length xs - i" arbitrary: i seen)
  case 0
  then show ?case by (simp add: loop_end slice_def)
next
  case (Suc n)
  then have i: "i < length xs" by simp
  have len: "length (slice xs i) = length xs" by (simp add: slice_def)
  have at: "slice xs i ! i = xs ! i" using i by (simp add: slice_nth after_def)
  have IH: "seen_ok s xs (Suc i) \<Longrightarrow> loop s (slice xs (Suc i)) (Suc i) = slice xs (length xs)" for s
    using Suc.hyps(1) [of "Suc i" s] Suc.hyps(2) i by simp
  show ?case
  proof (cases "seen (key (xs ! i))")
    case None
    then have f: "first_at key xs i" using seen_None [OF Suc.prems(1) i] by (simp add: first_at_def)
    have "loop seen (slice xs i) i = loop (seen(key (xs ! i) \<mapsto> i)) (slice xs (Suc i)) (Suc i)"
      using loop_new [of i "slice xs i" seen] None i len at slice_new [OF i f] by simp
    then show ?thesis using IH [OF seen_ok_Suc_new [OF Suc.prems(1) i f None]] by simp
  next
    case (Some f)
    then have f: "f < i" "first_at key xs f" "key (xs ! f) = key (xs ! i)"
      using Suc.prems(1) by (auto simp: seen_ok_def)
    then have nf: "\<not> first_at key xs i" using first_at_unique [of key xs f i] i by auto
    have "loop seen (slice xs i) i = loop seen (slice xs (Suc i)) (Suc i)"
      unfolding slice_seen [OF i f] using loop_seen [of i "slice xs i" seen f] Some i len at by simp
    then show ?thesis using IH [OF seen_ok_Suc_old [OF Suc.prems(1) nf]] by simp
  qed
qed

text \<open>The grouping: the elements with a new key, each with the items of all elements of its key.\<close>

definition grouped :: "'a list \<Rightarrow> 'a list" where
  "grouped xs = map (\<lambda>a. set_items (group_items key items xs (key a)) a) (first_by key {} xs)"

lemma loop_grouped:
  "filter (\<lambda>a. items a \<noteq> []) (loop Map.empty xs 0) = filter (\<lambda>a. items a \<noteq> []) (grouped xs)"
proof -
  let ?n = "length xs"
  have "loop Map.empty xs 0 = slice xs ?n"
    using loop_slice [of Map.empty xs 0] by (simp add: seen_ok_def slice_def after_def [abs_def] map_nth)
  moreover have "filter (\<lambda>a. items a \<noteq> []) (map (after xs ?n) js) =
      filter (\<lambda>a. items a \<noteq> []) (map (\<lambda>j. set_items (group_items key items xs (key (xs ! j))) (xs ! j))
        (filter (first_at key xs) js))" if "set js \<subseteq> {..<?n}" for js
    using that by (induction js) (auto simp: after_def items_set)
  ultimately show ?thesis
    unfolding slice_def grouped_def first_by_indices by (simp add: comp_def subset_eq)
qed

lemma grouped_keys: "map key (grouped xs) = map key (first_by key {} xs)"
  by (simp add: grouped_def key_set comp_def)

lemma grouped_distinct: "distinct (map key (filter (\<lambda>a. items a \<noteq> []) (grouped xs)))"
  by (rule distinct_map_filter) (simp only: grouped_keys first_by_distinct)

lemma grouped_fixed:
  assumes "distinct (map key xs)"
  shows "grouped xs = xs"
proof -
  have "first_by key {} xs = xs" by (rule first_by_idem_gen) (use assms in auto)
  moreover have "set_items (group_items key items xs (key a)) a = a" if "a \<in> set xs" for a
  proof -
    have "filter (\<lambda>b. key b = key a) xs = [a]"
      using assms that
    proof (induction xs)
      case (Cons x xs)
      then show ?case by (cases "a = x") (auto simp: filter_empty_conv image_iff)
    qed simp
    then show ?thesis by (simp add: group_items_def set_id)
  qed
  ultimately show ?thesis by (auto simp: grouped_def intro: map_idI)
qed

text \<open>What every key's elements hold together is kept.\<close>

definition pairs :: "'a list \<Rightarrow> ('k \<times> 'b) set" where
  "pairs xs = (\<Union>a \<in> set xs. Pair (key a) ` set (items a))"

lemma group_items_set: "b \<in> set (group_items key items xs k) \<longleftrightarrow> (k, b) \<in> pairs xs"
  by (auto simp: group_items_def pairs_def)

lemma pairs_filter: "pairs (filter (\<lambda>a. items a \<noteq> []) xs) = pairs xs"
  by (auto simp: pairs_def intro: bexI [rotated])

lemma pairs_grouped: "pairs (grouped xs) = pairs xs"
proof -
  have "(k, b) \<in> pairs (grouped xs) \<longleftrightarrow> k \<in> key ` set (first_by key {} xs) \<and> (k, b) \<in> pairs xs" for k b
    unfolding pairs_def [of "grouped xs"]
    by (auto simp: grouped_def key_set items_set group_items_set image_iff)
  moreover have "key ` set (first_by key {} xs) = key ` set xs"
    using first_by_keys [of key "{}" xs] by simp
  moreover have "(k, b) \<in> pairs xs \<Longrightarrow> k \<in> key ` set xs" for k b by (auto simp: pairs_def)
  ultimately have "(k, b) \<in> pairs (grouped xs) \<longleftrightarrow> (k, b) \<in> pairs xs" for k b by auto
  then show ?thesis by (intro set_eqI) (metis surj_pair)
qed

lemma pairs_merged: "pairs (filter (\<lambda>a. items a \<noteq> []) (loop Map.empty xs 0)) = pairs xs"
  by (simp only: loop_grouped pairs_filter pairs_grouped)

text \<open>Merging a slice whose keys are distinct changes nothing.\<close>

lemma merged_fixed:
  "distinct (map key xs) \<Longrightarrow> \<forall>a \<in> set xs. items a \<noteq> [] \<Longrightarrow>
   filter (\<lambda>a. items a \<noteq> []) (loop Map.empty xs 0) = xs"
  by (simp add: loop_grouped grouped_fixed)

lemma merged_distinct: "distinct (map key (filter (\<lambda>a. items a \<noteq> []) (loop Map.empty xs 0)))"
  by (simp only: loop_grouped grouped_distinct)

text \<open>Every element of the result carries the items of an element's key.\<close>

lemma merged_mem:
  assumes "a \<in> set (filter (\<lambda>a. items a \<noteq> []) (loop Map.empty xs 0))"
  shows "\<exists>x \<in> set xs. a = set_items (items a) x \<and> set (items a) \<subseteq> (\<Union>y \<in> set xs. set (items y))"
proof -
  from assms have "a \<in> set (grouped xs)" by (simp add: loop_grouped)
  then obtain x where "x \<in> set (first_by key {} xs)"
    "a = set_items (group_items key items xs (key x)) x" by (auto simp: grouped_def)
  moreover from this have "x \<in> set xs"
    using first_by_set by fast
  ultimately show ?thesis by (auto simp: items_set group_items_def)
qed

text \<open>One more element extends the grouping.\<close>

lemma grouped_snoc_new:
  "key x \<notin> key ` set xs \<Longrightarrow> grouped (xs @ [x]) = grouped xs @ [x]"
proof -
  assume new: "key x \<notin> key ` set xs"
  have "group_items key items (xs @ [x]) (key a) = group_items key items xs (key a)"
    if "a \<in> set (first_by key {} xs)" for a
  proof -
    have "key a \<in> key ` set xs" using that first_by_keys [of key "{}" xs] by auto
    with new show ?thesis by (auto simp: group_items_def)
  qed
  moreover have "group_items key items (xs @ [x]) (key x) = items x"
    using new group_none [of "key x" xs] by (simp add: group_items_def)
  ultimately show ?thesis using new by (simp add: grouped_def first_by_snoc set_id)
qed

lemma grouped_snoc_old:
  assumes "key x \<in> key ` set xs" and j: "j < length (grouped xs)" "key (grouped xs ! j) = key x"
  shows "grouped (xs @ [x]) =
    (grouped xs)[j := set_items (items (grouped xs ! j) @ items x) (grouped xs ! j)]"
proof (rule nth_equalityI)
  let ?F = "first_by key {} xs"
  have F: "first_by key {} (xs @ [x]) = ?F" using assms(1) by (simp add: first_by_snoc)
  then show "length (grouped (xs @ [x])) =
      length ((grouped xs)[j := set_items (items (grouped xs ! j) @ items x) (grouped xs ! j)])"
    by (simp add: grouped_def)
  fix i assume "i < length (grouped (xs @ [x]))"
  then have i: "i < length ?F" by (simp add: grouped_def F)
  have jF: "j < length ?F" "key (?F ! j) = key x" using j by (simp_all add: grouped_def key_set)
  have "key (?F ! i) \<noteq> key x" if "i \<noteq> j"
    using first_by_distinct [of key "{}" xs] i jF that by (metis length_map nth_eq_iff_index_eq nth_map)
  then show "grouped (xs @ [x]) ! i =
      (grouped xs)[j := set_items (items (grouped xs ! j) @ items x) (grouped xs ! j)] ! i"
    using i jF by (cases "i = j")
      (auto simp: grouped_def F items_set set_set group_items_def nth_list_update)
qed

end

end
