(* ===== verification/Telemetry_Helpers.thy ===== *)
theory Telemetry_Helpers
  imports Pdata Go_Strings
begin

text \<open>
  \<^verbatim>\<open>internal/testcommon/testutil/testutil.go\<close>, the helpers on telemetry data: merging and
  deduplicating metrics, logs and traces, and replacing attribute values. A helper that changes
  its argument in place returns the changed data. Accessing the data points of a metric of
  another type dereferences a nil pointer: such a panic is None.
\<close>

section \<open>Keys\<close>

definition attr_get :: "'v attrs \<Rightarrow> string \<Rightarrow> 'v attr_value option" where
  "attr_get attrs k = map_of attrs k"

fun write_attrs :: "('v \<Rightarrow> string) \<Rightarrow> 'v attrs \<Rightarrow> string \<Rightarrow> string list \<Rightarrow> string" where
  "write_attrs f attrs b [] = b"
| "write_attrs f attrs b (k # ks) =
     (let v = (case attr_get attrs k of Some v \<Rightarrow> as_string f v | None \<Rightarrow> [])
      in write_attrs f attrs (b @ k @ ''='' @ v @ '','') ks)"

definition canonicalAttrsKey :: "('v \<Rightarrow> string) \<Rightarrow> 'v attrs \<Rightarrow> string" where
  "canonicalAttrsKey f attrs = (let ks = sort (map fst attrs) in write_attrs f attrs [] ks)"

section \<open>Merging resources, scopes and metrics\<close>

function resource_loop ::
    "('v attrs \<Rightarrow> 'k) \<Rightarrow> ('k \<rightharpoonup> nat) \<Rightarrow> ('v, 'd, 'x) resource_metrics list \<Rightarrow> nat \<Rightarrow>
     ('v, 'd, 'x) resource_metrics list" where
  "resource_loop attrs_key seen rms i =
     (if i < length rms
      then let rm = rms ! i;
               key = attrs_key (rm_attrs rm)
           in case seen key of
                Some firstIdx \<Rightarrow>
                  (let first = rms ! firstIdx
                   in resource_loop attrs_key seen
                        (rms[firstIdx := first\<lparr>rm_scopes := rm_scopes first @ rm_scopes rm\<rparr>,
                             i := rm\<lparr>rm_scopes := []\<rparr>]) (Suc i))
              | None \<Rightarrow> resource_loop attrs_key (seen(key \<mapsto> i)) rms (Suc i)
      else rms)"
  by pat_completeness auto
termination
  by (relation "measure (\<lambda>(ak, seen, rms, i). length rms - i)") auto

declare resource_loop.simps [simp del]

function scope_loop ::
    "(string \<rightharpoonup> nat) \<Rightarrow> ('v, 'd, 'x) scope_metrics list \<Rightarrow> nat \<Rightarrow> ('v, 'd, 'x) scope_metrics list" where
  "scope_loop seen sms i =
     (if i < length sms
      then let sm = sms ! i;
               key = sm_name sm
           in case seen key of
                Some firstIdx \<Rightarrow>
                  (let first = sms ! firstIdx
                   in scope_loop seen
                        (sms[firstIdx := first\<lparr>sm_metrics := sm_metrics first @ sm_metrics sm\<rparr>,
                             i := sm\<lparr>sm_metrics := []\<rparr>]) (Suc i))
              | None \<Rightarrow> scope_loop (seen(key \<mapsto> i)) sms (Suc i)
      else sms)"
  by pat_completeness auto
termination
  by (relation "measure (\<lambda>(seen, sms, i). length sms - i)") auto

declare scope_loop.simps [simp del]

definition deduplicateScopes :: "('v, 'd, 'x) metrics \<Rightarrow> ('v, 'd, 'x) metrics" where
  "deduplicateScopes metrics =
     map (\<lambda>rm. rm\<lparr>rm_scopes :=
            filter (\<lambda>sm. \<not> length (sm_metrics sm) = 0) (scope_loop Map.empty (rm_scopes rm) 0)\<rparr>) metrics"

text \<open>Moving the points of \<open>src\<close> to \<open>dst\<close>: the type of \<open>dst\<close> decides which accessor is used on both.\<close>

definition mergeMetricDataPoints ::
    "('v, 'd, 'x) metric \<Rightarrow> ('v, 'd, 'x) metric \<Rightarrow> (('v, 'd, 'x) metric \<times> ('v, 'd, 'x) metric) option" where
  "mergeMetricDataPoints dst src =
     (if met_type dst = Empty then Some (dst, src)
      else if met_type src \<noteq> met_type dst then None
      else Some (dst\<lparr>met_points := met_points dst @ met_points src\<rparr>, src\<lparr>met_points := []\<rparr>))"

function metric_loop ::
    "(string \<rightharpoonup> nat) \<Rightarrow> ('v, 'd, 'x) metric list \<Rightarrow> nat \<Rightarrow> ('v, 'd, 'x) metric list option" where
  "metric_loop seen ms i =
     (if i < length ms
      then let m = ms ! i
           in case seen (met_name m) of
                Some firstIdx \<Rightarrow>
                  (case mergeMetricDataPoints (ms ! firstIdx) m of
                     None \<Rightarrow> None
                   | Some (first, m) \<Rightarrow> metric_loop seen (ms[firstIdx := first, i := m]) (Suc i))
              | None \<Rightarrow> metric_loop (seen(met_name m \<mapsto> i)) ms (Suc i)
      else Some ms)"
  by pat_completeness auto
termination
  by (relation "measure (\<lambda>(seen, ms, i). length ms - i)") auto

declare metric_loop.simps [simp del]

definition moved_out :: "('v, 'd, 'x) metric \<Rightarrow> bool" where
  "moved_out m = (if met_type m = Empty then False else length (met_points m) = 0)"

definition deduplicate_scope_metrics ::
    "('v, 'd, 'x) scope_metrics \<Rightarrow> ('v, 'd, 'x) scope_metrics option" where
  "deduplicate_scope_metrics sm =
     (case metric_loop Map.empty (sm_metrics sm) 0 of
        None \<Rightarrow> None
      | Some ms \<Rightarrow> Some (sm\<lparr>sm_metrics := filter (\<lambda>m. \<not> moved_out m) ms\<rparr>))"

definition deduplicateMetricsByName :: "('v, 'd, 'x) metrics \<Rightarrow> ('v, 'd, 'x) metrics option" where
  "deduplicateMetricsByName metrics =
     those (map (\<lambda>rm. case those (map deduplicate_scope_metrics (rm_scopes rm)) of
                        None \<Rightarrow> None
                      | Some sms \<Rightarrow> Some (rm\<lparr>rm_scopes := sms\<rparr>)) metrics)"

definition deduplicatePoints ::
    "('v \<Rightarrow> string) \<Rightarrow> ('v, 'd) datapoint list \<Rightarrow> ('v, 'd) datapoint list" where
  "deduplicatePoints f dps = remove_seen (\<lambda>dp. canonicalAttrsKey f (dp_attrs dp)) {} dps"

text \<open>The switch over the type of a metric.\<close>

definition deduplicate_metric :: "('v \<Rightarrow> string) \<Rightarrow> ('v, 'd, 'x) metric \<Rightarrow> ('v, 'd, 'x) metric" where
  "deduplicate_metric f m =
     (if met_type m = Empty then m else m\<lparr>met_points := deduplicatePoints f (met_points m)\<rparr>)"

definition deduplicateDatapoints :: "('v \<Rightarrow> string) \<Rightarrow> ('v, 'd, 'x) metrics \<Rightarrow> ('v, 'd, 'x) metrics" where
  "deduplicateDatapoints f metrics =
     map (\<lambda>rm. rm\<lparr>rm_scopes := map (\<lambda>sm. sm\<lparr>sm_metrics :=
       map (deduplicate_metric f) (sm_metrics sm)\<rparr>) (rm_scopes rm)\<rparr>) metrics"

definition DeduplicateResources :: "('v \<Rightarrow> string) \<Rightarrow> ('v, 'd, 'x) metrics \<Rightarrow> ('v, 'd, 'x) metrics option" where
  "DeduplicateResources f metrics =
     (let rms = resource_loop (canonicalAttrsKey f) Map.empty metrics 0;
          rms = filter (\<lambda>rm. \<not> length (rm_scopes rm) = 0) rms;
          metrics = deduplicateScopes rms
      in case deduplicateMetricsByName metrics of
           None \<Rightarrow> None
         | Some metrics \<Rightarrow> Some (deduplicateDatapoints f metrics))"

text \<open>\<open>MergeResources\<close>: the inner loop looks for the first new resource with the same hash.\<close>

fun find_hash :: "('v attrs \<Rightarrow> 'h) \<Rightarrow> 'h \<Rightarrow> ('v, 'd, 'x) resource_metrics list \<Rightarrow> nat option" where
  "find_hash h attrsHash [] = None"
| "find_hash h attrsHash (r # rs) =
     (if h (rm_attrs r) = attrsHash then Some 0 else map_option Suc (find_hash h attrsHash rs))"

fun merge_loop ::
    "('v attrs \<Rightarrow> 'h) \<Rightarrow> ('v, 'd, 'x) resource_metrics list \<Rightarrow> ('v, 'd, 'x) resource_metrics list \<Rightarrow>
     ('v, 'd, 'x) resource_metrics list" where
  "merge_loop h new [] = new"
| "merge_loop h new (r # rs) =
     (case find_hash h (h (rm_attrs r)) new of
        Some j \<Rightarrow> merge_loop h (new[j := (new ! j)\<lparr>rm_scopes := rm_scopes (new ! j) @ rm_scopes r\<rparr>]) rs
      | None \<Rightarrow> merge_loop h (new @ [r]) rs)"

definition MergeResources :: "('v attrs \<Rightarrow> 'h) \<Rightarrow> ('v, 'd, 'x) metrics \<Rightarrow> ('v, 'd, 'x) metrics" where
  "MergeResources h metrics = merge_loop h [] metrics"

section \<open>Replacing values\<close>

fun star_attrs :: "string list \<Rightarrow> 'v attrs \<Rightarrow> 'v attrs" where
  "star_attrs ks [] = []"
| "star_attrs ks ((key, val) # attrs) =
     (if key \<in> set ks then (key, Str ''*'') # star_attrs ks attrs else (key, val) # star_attrs ks attrs)"

definition star_metric :: "string list \<Rightarrow> ('v, 'd, 'x) metric \<Rightarrow> ('v, 'd, 'x) metric" where
  "star_metric ks m =
     (if met_type m = Empty then m
      else m\<lparr>met_points := map (\<lambda>dp. dp\<lparr>dp_attrs := star_attrs ks (dp_attrs dp)\<rparr>) (met_points m)\<rparr>)"

definition star_scope :: "string list \<Rightarrow> ('v, 'd, 'x) scope_metrics \<Rightarrow> ('v, 'd, 'x) scope_metrics" where
  "star_scope ks s =
     (let s = (if sm_version s \<noteq> [] then s\<lparr>sm_version := ''*''\<rparr> else s)
      in s\<lparr>sm_metrics := map (star_metric ks) (sm_metrics s)\<rparr>)"

definition ReplaceAttrValsWithStar ::
    "('v, 'd, 'x) metrics \<Rightarrow> string list \<Rightarrow> string list \<Rightarrow> ('v, 'd, 'x) metrics" where
  "ReplaceAttrValsWithStar metrics resourceKeys datapointKeys =
     map (\<lambda>r. r\<lparr>rm_attrs := star_attrs resourceKeys (rm_attrs r),
                rm_scopes := map (star_scope datapointKeys) (rm_scopes r)\<rparr>) metrics"

section \<open>Logs and traces\<close>

definition clear_log :: "'d log_record \<Rightarrow> 'd log_record" where
  "clear_log lr = lr\<lparr>lr_timestamp := 0, lr_observed := 0\<rparr>"

text \<open>The marshaller of the library is a parameter.\<close>

definition logsKey :: "(('d, 'x) resource_logs \<Rightarrow> 'k) \<Rightarrow> ('d, 'x) resource_logs \<Rightarrow> 'k" where
  "logsKey marshal rl =
     marshal (rl\<lparr>rl_scopes := map (\<lambda>sl. sl\<lparr>sl_records := map clear_log (sl_records sl)\<rparr>) (rl_scopes rl)\<rparr>)"

definition DeduplicateLogs ::
    "(('d, 'x) resource_logs \<Rightarrow> 'k) \<Rightarrow> ('d, 'x) resource_logs list \<Rightarrow> ('d, 'x) resource_logs list" where
  "DeduplicateLogs marshal logs = remove_seen (logsKey marshal) {} logs"

definition clear_span :: "'d span \<Rightarrow> 'd span" where
  "clear_span sp = sp\<lparr>sp_start := 0, sp_end := 0, sp_trace_id := replicate 16 (CHR 0x00),
     sp_span_id := replicate 8 (CHR 0x00), sp_parent_id := replicate 8 (CHR 0x00)\<rparr>"

definition tracesKey :: "(('d, 'x) resource_spans \<Rightarrow> 'k) \<Rightarrow> ('d, 'x) resource_spans \<Rightarrow> 'k" where
  "tracesKey marshal rs =
     marshal (rs\<lparr>rs_scopes := map (\<lambda>ss. ss\<lparr>ss_spans := map clear_span (ss_spans ss)\<rparr>) (rs_scopes rs)\<rparr>)"

definition DeduplicateTraces ::
    "(('d, 'x) resource_spans \<Rightarrow> 'k) \<Rightarrow> ('d, 'x) resource_spans list \<Rightarrow> ('d, 'x) resource_spans list" where
  "DeduplicateTraces marshal traces = remove_seen (tracesKey marshal) {} traces"

definition MaskParentSpanID :: "('d, 'x) resource_spans list \<Rightarrow> ('d, 'x) resource_spans list" where
  "MaskParentSpanID traces =
     map (\<lambda>rs. rs\<lparr>rs_scopes := map (\<lambda>ss. ss\<lparr>ss_spans :=
       map (\<lambda>sp. sp\<lparr>sp_parent_id := replicate 8 (CHR 0x00)\<rparr>) (ss_spans ss)\<rparr>) (rs_scopes rs)\<rparr>) traces"

section \<open>Printing helpers\<close>

definition scopeInfoFrom :: "('v, 'd, 'x) scope_metrics \<Rightarrow> string" where
  "scopeInfoFrom sm =
     (let name = sm_name sm; ver = sm_version sm
      in if name = [] \<and> ver = [] then ''unnamed''
         else if ver = [] then name
         else name @ ''@'' @ ver)"

definition dataPointsCount :: "('v, 'd, 'x) metric \<Rightarrow> nat" where
  "dataPointsCount m = (if met_type m = Empty then 0 else length (met_points m))"

section \<open>The merges as groupings\<close>

interpretation res: keyed_merge "\<lambda>rm. ak (rm_attrs rm)" rm_scopes
    "\<lambda>ss rm. rm\<lparr>rm_scopes := ss\<rparr>" "resource_loop ak"
  for ak :: "'v attrs \<Rightarrow> 'k"
  by unfold_locales (simp_all add: resource_loop.simps Let_def)

interpretation scp: keyed_merge sm_name sm_metrics "\<lambda>ms sm. sm\<lparr>sm_metrics := ms\<rparr>" scope_loop
  by unfold_locales (simp_all add: scope_loop.simps Let_def)

text \<open>The metric loop without the types, which it equals where it does not panic.\<close>

function untyped_loop ::
    "(string \<rightharpoonup> nat) \<Rightarrow> ('v, 'd, 'x) metric list \<Rightarrow> nat \<Rightarrow> ('v, 'd, 'x) metric list" where
  "untyped_loop seen ms i =
     (if i < length ms
      then case seen (met_name (ms ! i)) of
             Some f \<Rightarrow> untyped_loop seen
               (ms[f := (ms ! f)\<lparr>met_points := met_points (ms ! f) @ met_points (ms ! i)\<rparr>,
                   i := (ms ! i)\<lparr>met_points := []\<rparr>]) (Suc i)
           | None \<Rightarrow> untyped_loop (seen(met_name (ms ! i) \<mapsto> i)) ms (Suc i)
      else ms)"
  by pat_completeness auto
termination
  by (relation "measure (\<lambda>(seen, ms, i). length ms - i)") auto

declare untyped_loop.simps [simp del]

interpretation met: keyed_merge met_name met_points "\<lambda>ps m. m\<lparr>met_points := ps\<rparr>" untyped_loop
  by unfold_locales (simp_all add: untyped_loop.simps Let_def)

definition typed :: "('v, 'd, 'x) metric list \<Rightarrow> bool" where
  "typed ms \<longleftrightarrow> (\<forall>m \<in> set ms. met_type m \<noteq> Empty)"

definition agree :: "('v, 'd, 'x) metric set \<Rightarrow> bool" where
  "agree M \<longleftrightarrow> (\<forall>m \<in> M. \<forall>n \<in> M. met_name m = met_name n \<longrightarrow> met_type m = met_type n)"

lemma agree_subset:
  assumes "M \<subseteq> N" and "agree N"
  shows "agree M"
  unfolding agree_def
proof (intro ballI impI)
  fix m n assume "m \<in> M" "n \<in> M" and e: "met_name m = met_name n"
  with assms(1) have "m \<in> N" "n \<in> N" by blast+
  then show "met_type m = met_type n" using e by (rule assms(2) [unfolded agree_def, rule_format])
qed

definition in_range :: "(string \<rightharpoonup> nat) \<Rightarrow> ('v, 'd, 'x) metric list \<Rightarrow> bool" where
  "in_range seen ms \<longleftrightarrow> (\<forall>k f. seen k = Some f \<longrightarrow> f < length ms \<and> met_name (ms ! f) = k)"

lemma typed_nth: "typed ms \<Longrightarrow> i < length ms \<Longrightarrow> met_type (ms ! i) \<noteq> Empty"
  by (simp add: typed_def)

lemma metric_loop_step:
  assumes "i < length ms" and "seen (met_name (ms ! i)) = Some f" and "f < length ms" and "typed ms"
  shows "metric_loop seen ms i =
    (if met_type (ms ! i) \<noteq> met_type (ms ! f) then None
     else metric_loop seen (ms[f := (ms ! f)\<lparr>met_points := met_points (ms ! f) @ met_points (ms ! i)\<rparr>,
                               i := (ms ! i)\<lparr>met_points := []\<rparr>]) (Suc i))"
  using assms typed_nth [OF assms(4,3)]
  by (subst metric_loop.simps) (simp add: mergeMetricDataPoints_def Let_def)

lemma merge_step_keeps:
  fixes ms :: "('v, 'd, 'x) metric list"
  assumes "f < length ms" and "i < length ms"
  defines "ms' \<equiv> ms[f := (ms ! f)\<lparr>met_points := met_points (ms ! f) @ met_points (ms ! i)\<rparr>,
                    i := (ms ! i)\<lparr>met_points := []\<rparr>]"
  shows "map met_name ms' = map met_name ms" and "map met_type ms' = map met_type ms"
    and "length ms' = length ms"
  using assms by (auto simp: ms'_def map_update list_eq_iff_nth_eq nth_list_update)

lemma typed_types: "typed ms \<longleftrightarrow> Empty \<notin> set (map met_type ms)"
  by (auto simp: typed_def image_iff)

lemma in_range_names: "in_range seen ms \<longleftrightarrow>
    (\<forall>k f. seen k = Some f \<longrightarrow> f < length (map met_name ms) \<and> map met_name ms ! f = k)"
  by (force simp: in_range_def)

lemma agree_zip: "agree (set ms) \<longleftrightarrow>
    (\<forall>(n, t) \<in> set (zip (map met_name ms) (map met_type ms)). \<forall>(n', t') \<in> set (zip (map met_name ms) (map met_type ms)).
       n = n' \<longrightarrow> t = t')"
  by (simp add: agree_def zip_map_map zip_same_conv_map)

lemma metric_loop_untyped:
  "typed ms \<Longrightarrow> in_range seen ms \<Longrightarrow> metric_loop seen ms i = Some ms' \<Longrightarrow> untyped_loop seen ms i = ms'"
proof (induction "length ms - i" arbitrary: i seen ms)
  case 0
  then show ?case by (simp add: metric_loop.simps untyped_loop.simps)
next
  case (Suc n)
  then have i: "i < length ms" by simp
  show ?case
  proof (cases "seen (met_name (ms ! i))")
    case None
    then have "metric_loop (seen(met_name (ms ! i) \<mapsto> i)) ms (Suc i) = Some ms'"
      using Suc.prems(3) i by (subst (asm) metric_loop.simps) simp
    moreover have "in_range (seen(met_name (ms ! i) \<mapsto> i)) ms"
      using Suc.prems(2) i by (auto simp: in_range_def)
    ultimately have "untyped_loop (seen(met_name (ms ! i) \<mapsto> i)) ms (Suc i) = ms'"
      using Suc.hyps(1) [of ms "Suc i"] Suc.hyps(2) Suc.prems(1) i by simp
    with None i show ?thesis by (subst untyped_loop.simps) simp
  next
    case (Some f)
    then have f: "f < length ms" using Suc.prems(2) by (simp add: in_range_def)
    let ?ms = "ms[f := (ms ! f)\<lparr>met_points := met_points (ms ! f) @ met_points (ms ! i)\<rparr>,
                  i := (ms ! i)\<lparr>met_points := []\<rparr>]"
    have k: "map met_name ?ms = map met_name ms" "map met_type ?ms = map met_type ms"
      by (rule merge_step_keeps [OF f i])+
    have "metric_loop seen ?ms (Suc i) = Some ms'"
      using metric_loop_step [where seen = seen, OF i Some f Suc.prems(1)] Suc.prems(3) by (auto split: if_splits)
    moreover have "typed ?ms" using Suc.prems(1) k(2) by (simp only: typed_types not_False_eq_True)
    moreover have "in_range seen ?ms" using Suc.prems(2) unfolding in_range_names k .
    ultimately have "untyped_loop seen ?ms (Suc i) = ms'"
      using Suc.hyps(1) [of ?ms "Suc i"] Suc.hyps(2) i by simp
    with Some i show ?thesis by (subst untyped_loop.simps) simp
  qed
qed

lemma metric_loop_total:
  "typed ms \<Longrightarrow> in_range seen ms \<Longrightarrow> agree (set ms) \<Longrightarrow> \<exists>ms'. metric_loop seen ms i = Some ms'"
proof (induction "length ms - i" arbitrary: i seen ms)
  case 0
  then show ?case by (simp add: metric_loop.simps)
next
  case (Suc n)
  then have i: "i < length ms" by simp
  show ?case
  proof (cases "seen (met_name (ms ! i))")
    case None
    have "in_range (seen(met_name (ms ! i) \<mapsto> i)) ms"
      using Suc.prems(2) i by (auto simp: in_range_def)
    then have "\<exists>ms'. metric_loop (seen(met_name (ms ! i) \<mapsto> i)) ms (Suc i) = Some ms'"
      using Suc.hyps(1) [of ms "Suc i"] Suc.hyps(2) Suc.prems(1,3) i by simp
    with None i show ?thesis by (subst metric_loop.simps) simp
  next
    case (Some f)
    then have f: "f < length ms" "met_name (ms ! f) = met_name (ms ! i)"
      using Suc.prems(2) by (simp_all add: in_range_def)
    let ?ms = "ms[f := (ms ! f)\<lparr>met_points := met_points (ms ! f) @ met_points (ms ! i)\<rparr>,
                  i := (ms ! i)\<lparr>met_points := []\<rparr>]"
    have k: "map met_name ?ms = map met_name ms" "map met_type ?ms = map met_type ms"
      by (rule merge_step_keeps [OF f(1) i])+
    have "met_type (ms ! i) = met_type (ms ! f)"
      using Suc.prems(3) f i by (simp add: agree_def)
    then have e: "metric_loop seen ms i = metric_loop seen ?ms (Suc i)"
      using metric_loop_step [where seen = seen, OF i Some f(1) Suc.prems(1)] by simp
    have "typed ?ms" using Suc.prems(1) k(2) by (simp only: typed_types not_False_eq_True)
    moreover have "in_range seen ?ms" using Suc.prems(2) unfolding in_range_names k .
    moreover have "agree (set ?ms)" using Suc.prems(3) unfolding agree_zip k .
    ultimately have "\<exists>ms'. metric_loop seen ?ms (Suc i) = Some ms'"
      using Suc.hyps(1) [of ?ms "Suc i"] Suc.hyps(2) i by simp
    then show ?thesis unfolding e .
  qed
qed

text \<open>The untyped loop keeps the types, so the removal looks at the points only.\<close>

lemma untyped_types: "in_range seen ms \<Longrightarrow> map met_type (untyped_loop seen ms i) = map met_type ms"
proof (induction "length ms - i" arbitrary: i seen ms)
  case 0
  then show ?case by (simp add: untyped_loop.simps)
next
  case (Suc n)
  then have i: "i < length ms" by simp
  show ?case
  proof (cases "seen (met_name (ms ! i))")
    case None
    have "in_range (seen(met_name (ms ! i) \<mapsto> i)) ms"
      using Suc.prems(1) i by (auto simp: in_range_def)
    then show ?thesis
      using Suc.hyps(1) [of ms "Suc i"] Suc.hyps(2) None i by (subst untyped_loop.simps) simp
  next
    case (Some f)
    then have f: "f < length ms" using Suc.prems(1) by (simp add: in_range_def)
    let ?ms = "ms[f := (ms ! f)\<lparr>met_points := met_points (ms ! f) @ met_points (ms ! i)\<rparr>,
                  i := (ms ! i)\<lparr>met_points := []\<rparr>]"
    have k: "map met_name ?ms = map met_name ms" "map met_type ?ms = map met_type ms"
      by (rule merge_step_keeps [OF f i])+
    have "in_range seen ?ms" using Suc.prems(1) unfolding in_range_names k .
    then have "map met_type (untyped_loop seen ?ms (Suc i)) = map met_type ms"
      using Suc.hyps(1) [of ?ms "Suc i"] Suc.hyps(2) i k(2) by simp
    with Some i show ?thesis by (subst untyped_loop.simps) simp
  qed
qed

definition merged_metrics :: "('v, 'd, 'x) metric list \<Rightarrow> ('v, 'd, 'x) metric list" where
  "merged_metrics ms = filter (\<lambda>m. met_points m \<noteq> []) (untyped_loop Map.empty ms 0)"

lemma deduplicate_scope_metrics_eq:
  assumes "typed (sm_metrics sm)" and "deduplicate_scope_metrics sm = Some sm'"
  shows "sm' = sm\<lparr>sm_metrics := merged_metrics (sm_metrics sm)\<rparr>"
proof -
  have r: "in_range Map.empty (sm_metrics sm)" by (simp add: in_range_def)
  from assms(2) obtain ms where ms: "metric_loop Map.empty (sm_metrics sm) 0 = Some ms"
    and sm': "sm' = sm\<lparr>sm_metrics := filter (\<lambda>m. \<not> moved_out m) ms\<rparr>"
    by (auto simp: deduplicate_scope_metrics_def split: option.splits)
  have u: "untyped_loop Map.empty (sm_metrics sm) 0 = ms"
    by (rule metric_loop_untyped [OF assms(1) r ms])
  have "typed ms" using untyped_types [OF r, of 0] assms(1) unfolding u typed_types by (simp only: not_False_eq_True)
  then have "filter (\<lambda>m. \<not> moved_out m) ms = filter (\<lambda>m. met_points m \<noteq> []) ms"
    by (intro filter_cong) (auto simp: moved_out_def typed_def)
  with sm' u show ?thesis by (simp add: merged_metrics_def)
qed

lemma deduplicate_scope_metrics_total:
  "typed (sm_metrics sm) \<Longrightarrow> agree (set (sm_metrics sm)) \<Longrightarrow> deduplicate_scope_metrics sm \<noteq> None"
  using metric_loop_total [of "sm_metrics sm" Map.empty 0]
  by (auto simp: deduplicate_scope_metrics_def in_range_def)

lemma those_map:
  "those (map f xs) = (if \<exists>x \<in> set xs. f x = None then None else Some (map (\<lambda>x. the (f x)) xs))"
  by (induction xs) (auto split: option.splits)

section \<open>Deduplicating metrics\<close>

definition all_scopes :: "('v, 'd, 'x) metrics \<Rightarrow> ('v, 'd, 'x) scope_metrics set" where
  "all_scopes rms = (\<Union>rm \<in> set rms. set (rm_scopes rm))"

definition all_metrics :: "('v, 'd, 'x) metrics \<Rightarrow> ('v, 'd, 'x) metric set" where
  "all_metrics rms = (\<Union>sm \<in> all_scopes rms. set (sm_metrics sm))"

definition all_typed :: "('v, 'd, 'x) metrics \<Rightarrow> bool" where
  "all_typed rms \<longleftrightarrow> (\<forall>m \<in> all_metrics rms. met_type m \<noteq> Empty)"

text \<open>The stages of \<open>DeduplicateResources\<close> where it does not panic.\<close>

definition merged_resources :: "('v \<Rightarrow> string) \<Rightarrow> ('v, 'd, 'x) metrics \<Rightarrow> ('v, 'd, 'x) metrics" where
  "merged_resources f rms =
     filter (\<lambda>rm. rm_scopes rm \<noteq> []) (resource_loop (canonicalAttrsKey f) Map.empty rms 0)"

definition merged_scopes :: "('v, 'd, 'x) scope_metrics list \<Rightarrow> ('v, 'd, 'x) scope_metrics list" where
  "merged_scopes sms = filter (\<lambda>sm. sm_metrics sm \<noteq> []) (scope_loop Map.empty sms 0)"

definition merged_by_name :: "('v, 'd, 'x) metrics \<Rightarrow> ('v, 'd, 'x) metrics" where
  "merged_by_name rms = map (\<lambda>rm. rm\<lparr>rm_scopes :=
     map (\<lambda>sm. sm\<lparr>sm_metrics := merged_metrics (sm_metrics sm)\<rparr>) (rm_scopes rm)\<rparr>) rms"

lemma deduplicateScopes_eq:
  "deduplicateScopes rms = map (\<lambda>rm. rm\<lparr>rm_scopes := merged_scopes (rm_scopes rm)\<rparr>) rms"
  by (simp add: deduplicateScopes_def merged_scopes_def)

lemma deduplicateMetricsByName_Some:
  assumes "all_typed rms" and "deduplicateMetricsByName rms = Some rms'"
  shows "rms' = merged_by_name rms"
proof -
  let ?g = "\<lambda>rm. case those (map deduplicate_scope_metrics (rm_scopes rm)) of
      None \<Rightarrow> None | Some sms \<Rightarrow> Some (rm\<lparr>rm_scopes := sms\<rparr>)"
  have "rms' = map (\<lambda>rm. the (?g rm)) rms" and ok: "\<forall>rm \<in> set rms. ?g rm \<noteq> None"
    using assms(2) by (auto simp: deduplicateMetricsByName_def those_map split: if_splits)
  moreover have "the (?g rm) = rm\<lparr>rm_scopes := map (\<lambda>sm. sm\<lparr>sm_metrics := merged_metrics (sm_metrics sm)\<rparr>) (rm_scopes rm)\<rparr>"
    if "rm \<in> set rms" for rm
  proof -
    have some: "\<forall>sm \<in> set (rm_scopes rm). deduplicate_scope_metrics sm \<noteq> None"
      using ok that by (auto simp: those_map split: option.splits if_splits)
    have "the (deduplicate_scope_metrics sm) = sm\<lparr>sm_metrics := merged_metrics (sm_metrics sm)\<rparr>"
      if "sm \<in> set (rm_scopes rm)" for sm
    proof -
      have "typed (sm_metrics sm)"
        unfolding typed_def
      proof
        fix m assume "m \<in> set (sm_metrics sm)"
        with that \<open>rm \<in> set rms\<close> have "m \<in> all_metrics rms" by (auto simp: all_metrics_def all_scopes_def)
        then show "met_type m \<noteq> Empty" by (rule assms(1) [unfolded all_typed_def, rule_format])
      qed
      moreover have "deduplicate_scope_metrics sm = Some (the (deduplicate_scope_metrics sm))"
        using bspec [OF some that] by (rule option.collapse [symmetric])
      ultimately show ?thesis by (rule deduplicate_scope_metrics_eq)
    qed
    moreover have none: "\<not> (\<exists>sm \<in> set (rm_scopes rm). deduplicate_scope_metrics sm = None)"
      using some by (simp only: not_None_eq bex_simps)
    ultimately show ?thesis unfolding those_map if_not_P [OF none] by simp
  qed
  ultimately show ?thesis by (simp add: merged_by_name_def)
qed

lemma deduplicateMetricsByName_defined:
  assumes "\<And>rm sm. rm \<in> set rms \<Longrightarrow> sm \<in> set (rm_scopes rm) \<Longrightarrow> deduplicate_scope_metrics sm \<noteq> None"
  shows "\<exists>rms'. deduplicateMetricsByName rms = Some rms'"
  using assms by (auto simp: deduplicateMetricsByName_def those_map)

lemma deduplicateMetricsByName_total:
  assumes "all_typed rms" and "agree (all_metrics rms)"
  shows "\<exists>rms'. deduplicateMetricsByName rms = Some rms'"
proof -
  have "deduplicate_scope_metrics sm \<noteq> None" if "rm \<in> set rms" "sm \<in> set (rm_scopes rm)" for rm sm
  proof (rule deduplicate_scope_metrics_total)
    have sub: "set (sm_metrics sm) \<subseteq> all_metrics rms"
      using that by (auto simp: all_metrics_def all_scopes_def)
    then show "typed (sm_metrics sm)" using assms(1) by (auto simp: all_typed_def typed_def)
    show "agree (set (sm_metrics sm))"
      by (rule agree_subset [OF sub assms(2)])
  qed
  then show ?thesis by (auto simp: deduplicateMetricsByName_def those_map)
qed

text \<open>Merging resources and scopes keeps the metrics.\<close>

lemma merged_resources_pairs:
  "res.pairs (canonicalAttrsKey f) (merged_resources f rms) = res.pairs (canonicalAttrsKey f) rms"
  unfolding merged_resources_def by (rule res.pairs_merged)

lemma all_scopes_pairs: "all_scopes rms = snd ` res.pairs (canonicalAttrsKey f) rms"
  by (auto simp: all_scopes_def res.pairs_def image_UN image_image)

lemma merged_resources_scopes: "all_scopes (merged_resources f rms) = all_scopes rms"
  by (simp only: all_scopes_pairs [of _ f] merged_resources_pairs)

lemma merged_scopes_metrics:
  "(\<Union>sm \<in> set (merged_scopes sms). set (sm_metrics sm)) = (\<Union>sm \<in> set sms. set (sm_metrics sm))"
proof -
  have "(\<Union>sm \<in> set l. set (sm_metrics sm)) = snd ` scp.pairs l" for l :: "('a, 'b, 'c) scope_metrics list"
    by (auto simp: scp.pairs_def image_UN image_image)
  then show ?thesis by (simp only: merged_scopes_def scp.pairs_merged)
qed

lemma deduplicateScopes_metrics: "all_metrics (deduplicateScopes rms) = all_metrics rms"
  by (simp add: all_metrics_def all_scopes_def deduplicateScopes_eq UN_UN_flatten merged_scopes_metrics)

lemma stages_metrics: "all_metrics (deduplicateScopes (merged_resources f rms)) = all_metrics rms"
  by (simp only: deduplicateScopes_metrics) (simp only: all_metrics_def merged_resources_scopes)

lemma DeduplicateResources_cases:
  "DeduplicateResources f rms =
   map_option (deduplicateDatapoints f) (deduplicateMetricsByName (deduplicateScopes (merged_resources f rms)))"
  by (simp add: DeduplicateResources_def merged_resources_def Let_def split: option.split)

lemma DeduplicateResources_eq:
  assumes "all_typed rms" and "DeduplicateResources f rms = Some rms'"
  shows "rms' = deduplicateDatapoints f (merged_by_name (deduplicateScopes (merged_resources f rms)))"
proof -
  have "all_typed (deduplicateScopes (merged_resources f rms))"
    using assms(1) by (simp add: all_typed_def stages_metrics)
  with assms(2) show ?thesis
    using deduplicateMetricsByName_Some by (fastforce simp: DeduplicateResources_cases)
qed

text \<open>The series of a set of metrics: the keys that identify each of its data points.\<close>

definition met_series :: "('v \<Rightarrow> string) \<Rightarrow> ('v, 'd, 'x) metric \<Rightarrow> (string \<times> string) set" where
  "met_series f m = (\<lambda>p. (met_name m, canonicalAttrsKey f (dp_attrs p))) ` set (met_points m)"

definition scope_series :: "('v \<Rightarrow> string) \<Rightarrow> ('v, 'd, 'x) scope_metrics \<Rightarrow> (string \<times> string \<times> string) set" where
  "scope_series f sm = (\<Union>m \<in> set (sm_metrics sm). Pair (sm_name sm) ` met_series f m)"

definition series ::
    "('v \<Rightarrow> string) \<Rightarrow> ('v, 'd, 'x) metrics \<Rightarrow> (string \<times> string \<times> string \<times> string) set" where
  "series f rms = (\<Union>rm \<in> set rms. \<Union>sm \<in> set (rm_scopes rm).
     Pair (canonicalAttrsKey f (rm_attrs rm)) ` scope_series f sm)"

lemma series_pairs:
  "series f rms = (\<Union>(k, sm) \<in> res.pairs (canonicalAttrsKey f) rms. Pair k ` scope_series f sm)"
  by (auto simp: series_def res.pairs_def)

lemma series_merged_resources: "series f (merged_resources f rms) = series f rms"
  by (simp only: series_pairs merged_resources_pairs)

lemma scopes_series_pairs:
  "(\<Union>sm \<in> set sms. scope_series f sm) = (\<Union>(n, m) \<in> scp.pairs sms. Pair n ` met_series f m)"
  by (auto simp: scope_series_def scp.pairs_def)

lemma scopes_series_merged:
  "(\<Union>sm \<in> set (merged_scopes sms). scope_series f sm) = (\<Union>sm \<in> set sms. scope_series f sm)"
  by (simp only: scopes_series_pairs merged_scopes_def scp.pairs_merged)

lemma metrics_series_pairs:
  "(\<Union>m \<in> set ms. met_series f m) = (\<lambda>(n, p). (n, canonicalAttrsKey f (dp_attrs p))) ` met.pairs ms"
  by (simp add: met_series_def met.pairs_def image_UN image_image)

lemma metrics_series_merged:
  "(\<Union>m \<in> set (merged_metrics ms). met_series f m) = (\<Union>m \<in> set ms. met_series f m)"
  by (simp only: metrics_series_pairs merged_metrics_def met.pairs_merged)

lemma points_series:
  "met_series f (m\<lparr>met_points := deduplicatePoints f (met_points m)\<rparr>) = met_series f m"
proof -
  have "(\<lambda>p. canonicalAttrsKey f (dp_attrs p)) ` set (deduplicatePoints f ps) =
      (\<lambda>p. canonicalAttrsKey f (dp_attrs p)) ` set ps" for ps :: "('a, 'b) datapoint list"
    using first_by_keys [of "\<lambda>p. canonicalAttrsKey f (dp_attrs p)" "{}" ps]
    by (simp add: deduplicatePoints_def remove_seen_first_by)
  then have "(\<lambda>k. (met_name m, k)) ` (\<lambda>p. canonicalAttrsKey f (dp_attrs p)) ` set (deduplicatePoints f (met_points m)) =
      (\<lambda>k. (met_name m, k)) ` (\<lambda>p. canonicalAttrsKey f (dp_attrs p)) ` set (met_points m)" by simp
  then show ?thesis by (simp add: met_series_def image_image)
qed

lemma series_resource:
  "series f rms = (\<Union>rm \<in> set rms. Pair (canonicalAttrsKey f (rm_attrs rm)) ` (\<Union>sm \<in> set (rm_scopes rm). scope_series f sm))"
  by (simp add: series_def image_UN)

lemma series_deduplicateScopes: "series f (deduplicateScopes rms) = series f rms"
  by (simp add: series_resource deduplicateScopes_eq scopes_series_merged)

lemma scope_series_metrics: "scope_series f sm = Pair (sm_name sm) ` (\<Union>m \<in> set (sm_metrics sm). met_series f m)"
  by (simp add: scope_series_def image_UN)

lemma series_merged_by_name: "series f (merged_by_name rms) = series f rms"
  by (simp add: series_def merged_by_name_def scope_series_metrics metrics_series_merged)

lemma series_deduplicateDatapoints: "series f (deduplicateDatapoints f rms) = series f rms"
proof -
  have "met_series f (deduplicate_metric f m) = met_series f m" for m :: "('a, 'b, 'c) metric"
    by (simp add: deduplicate_metric_def points_series)
  then show ?thesis by (simp add: series_def deduplicateDatapoints_def scope_series_def)
qed

text \<open>Normal form: no two resources, scopes, metrics or points share a key, and every metric has points.\<close>

definition normal_metric :: "('v \<Rightarrow> string) \<Rightarrow> ('v, 'd, 'x) metric \<Rightarrow> bool" where
  "normal_metric f m \<longleftrightarrow> met_points m \<noteq> [] \<and>
     distinct (map (\<lambda>p. canonicalAttrsKey f (dp_attrs p)) (met_points m))"

definition normal_scope :: "('v \<Rightarrow> string) \<Rightarrow> ('v, 'd, 'x) scope_metrics \<Rightarrow> bool" where
  "normal_scope f sm \<longleftrightarrow> distinct (map met_name (sm_metrics sm)) \<and> (\<forall>m \<in> set (sm_metrics sm). normal_metric f m)"

definition normal :: "('v \<Rightarrow> string) \<Rightarrow> ('v, 'd, 'x) metrics \<Rightarrow> bool" where
  "normal f rms \<longleftrightarrow> distinct (map (\<lambda>rm. canonicalAttrsKey f (rm_attrs rm)) rms) \<and>
     (\<forall>rm \<in> set rms. distinct (map sm_name (rm_scopes rm)) \<and> (\<forall>sm \<in> set (rm_scopes rm). normal_scope f sm))"

lemma first_by_empty: "first_by k {} xs = [] \<longleftrightarrow> xs = []"
  by (cases xs) auto

lemma deduplicate_metric_normal:
  "met_type m \<noteq> Empty \<Longrightarrow> met_points m \<noteq> [] \<Longrightarrow> normal_metric f (deduplicate_metric f m)"
  using first_by_distinct [of "\<lambda>p. canonicalAttrsKey f (dp_attrs p)" "{}" "met_points m"]
  by (simp add: normal_metric_def deduplicate_metric_def deduplicatePoints_def remove_seen_first_by
      first_by_empty)

lemma deduplicate_metric_name [simp]: "met_name (deduplicate_metric f m) = met_name m"
  by (simp add: deduplicate_metric_def)

lemma merged_metrics_typed:
  assumes "typed ms" and "m \<in> set (merged_metrics ms)"
  shows "met_type m \<noteq> Empty \<and> met_points m \<noteq> []"
proof -
  obtain x where x: "x \<in> set ms" "m = x\<lparr>met_points := met_points m\<rparr>"
    using met.merged_mem assms(2) unfolding merged_metrics_def by blast
  have "met_type m = met_type x" by (subst x(2)) simp
  moreover have "met_type x \<noteq> Empty" using assms(1) x(1) by (simp add: typed_def)
  ultimately show ?thesis using assms(2) by (simp add: merged_metrics_def)
qed

lemma dedup_scope_normal:
  assumes "typed (sm_metrics sm)"
  shows "normal_scope f (sm\<lparr>sm_metrics := map (deduplicate_metric f) (merged_metrics (sm_metrics sm))\<rparr>)"
proof -
  have "distinct (map met_name (merged_metrics (sm_metrics sm)))"
    unfolding merged_metrics_def by (rule met.merged_distinct)
  then show ?thesis
    using merged_metrics_typed [OF assms] by (simp add: normal_scope_def comp_def deduplicate_metric_normal)
qed

lemma stages_normal:
  assumes "all_typed rms"
  shows "normal f (deduplicateDatapoints f (merged_by_name (deduplicateScopes (merged_resources f rms))))"
proof -
  let ?r = "merged_resources f rms"
  have keys: "distinct (map (\<lambda>rm. canonicalAttrsKey f (rm_attrs rm)) ?r)"
    unfolding merged_resources_def by (rule res.merged_distinct)
  have names: "distinct (map sm_name (merged_scopes sms))" for sms :: "('a, 'b, 'c) scope_metrics list"
    unfolding merged_scopes_def by (rule scp.merged_distinct)
  have typed: "typed (sm_metrics sm)" if "rm \<in> set ?r" "sm \<in> set (merged_scopes (rm_scopes rm))" for rm sm
    unfolding typed_def
  proof
    fix m assume "m \<in> set (sm_metrics sm)"
    with that have "m \<in> all_metrics (deduplicateScopes ?r)"
      by (auto simp: all_metrics_def all_scopes_def deduplicateScopes_eq)
    then have "m \<in> all_metrics rms" by (simp only: stages_metrics)
    then show "met_type m \<noteq> Empty" by (rule assms [unfolded all_typed_def, rule_format])
  qed
  have "normal_scope f (sm\<lparr>sm_metrics := map (deduplicate_metric f) (merged_metrics (sm_metrics sm))\<rparr>)"
    if "rm \<in> set ?r" "sm \<in> set (merged_scopes (rm_scopes rm))" for rm sm
    by (rule dedup_scope_normal [OF typed [OF that]])
  then show ?thesis
    using keys names
    by (simp add: normal_def deduplicateDatapoints_def merged_by_name_def deduplicateScopes_eq comp_def)
qed

text \<open>
  C6: deduplication neither keeps a duplicate nor loses a series. When it returns (and all metrics have a
  type), the result has one resource per attribute key, one scope per name in it, one metric
  per name in it and one point per attribute key in that, and the set of (resource, scope, metric,
  point) keys is that of the input.
\<close>

theorem DeduplicateResources_normal:
  assumes "\<forall>m \<in> all_metrics rms. met_type m \<noteq> Empty" and "DeduplicateResources f rms = Some rms'"
  shows "normal f rms' \<and> series f rms' = series f rms"
proof -
  have t: "all_typed rms" using assms(1) by (simp add: all_typed_def)
  have "rms' = deduplicateDatapoints f (merged_by_name (deduplicateScopes (merged_resources f rms)))"
    by (rule DeduplicateResources_eq [OF t assms(2)])
  then show ?thesis
    using stages_normal [OF t, of f]
    by (simp only: series_deduplicateDatapoints series_merged_by_name series_deduplicateScopes
        series_merged_resources)
qed

text \<open>
  Deduplication does not panic on well-formed data: when every metric has a type and metrics of the
  same name have the same type, it returns.
\<close>

theorem DeduplicateResources_total:
  assumes "\<forall>m \<in> all_metrics rms. met_type m \<noteq> Empty"
    and "\<forall>m \<in> all_metrics rms. \<forall>n \<in> all_metrics rms. met_name m = met_name n \<longrightarrow> met_type m = met_type n"
  shows "\<exists>rms'. DeduplicateResources f rms = Some rms'"
proof -
  let ?r = "deduplicateScopes (merged_resources f rms)"
  have "all_typed ?r" unfolding all_typed_def stages_metrics by (rule assms(1))
  moreover have "agree (all_metrics ?r)" unfolding agree_def stages_metrics by (rule assms(2))
  ultimately obtain rms' where "deduplicateMetricsByName ?r = Some rms'"
    using deduplicateMetricsByName_total by blast
  then show ?thesis by (simp add: DeduplicateResources_cases)
qed

definition sample_point :: "string \<Rightarrow> nat \<Rightarrow> (nat, nat) datapoint" where
  "sample_point host b = \<lparr>dp_attrs = [(''host'', Str host)], dp_body = b\<rparr>"

definition sample_resource :: "metric_type \<Rightarrow> nat \<Rightarrow> (nat, nat, unit) resource_metrics" where
  "sample_resource ty b =
     \<lparr>rm_attrs = [(''pod'', Str ''*'')],
      rm_scopes = [\<lparr>sm_name = ''scope'', sm_version = ''1'',
        sm_metrics = [\<lparr>met_name = ''cpu'', met_type = ty, met_points = [sample_point ''*'' b], met_rest = ()\<rparr>],
        sm_rest = ()\<rparr>],
      rm_rest = ()\<rparr>"

lemma sample_all_metrics:
  "all_metrics [sample_resource ty b, sample_resource ty' b'] =
   {\<lparr>met_name = ''cpu'', met_type = ty, met_points = [sample_point ''*'' b], met_rest = ()\<rparr>,
    \<lparr>met_name = ''cpu'', met_type = ty', met_points = [sample_point ''*'' b'], met_rest = ()\<rparr>}"
  by (simp add: all_metrics_def all_scopes_def sample_resource_def insert_commute)

theorem DeduplicateResources_total_witness:
  "\<exists>rms'. DeduplicateResources (\<lambda>_. []) [sample_resource Gauge 2, sample_resource Gauge 3] = Some rms'"
  by (rule DeduplicateResources_total) (simp_all add: sample_all_metrics)

lemma sample_total: "\<exists>rms'. DeduplicateResources (\<lambda>_. []) [sample_resource Gauge 2, sample_resource Gauge 3] = Some rms'"
proof -
  let ?rms = "[sample_resource Gauge 2, sample_resource Gauge 3]"
  let ?r = "deduplicateScopes (merged_resources (\<lambda>_. []) ?rms)"
  have "all_typed ?r" "agree (all_metrics ?r)"
    unfolding all_typed_def agree_def stages_metrics by (simp_all add: sample_all_metrics)
  then show ?thesis
    using deduplicateMetricsByName_total by (auto simp: DeduplicateResources_cases)
qed

theorem DeduplicateResources_normal_witness:
  "\<exists>rms'. DeduplicateResources (\<lambda>_. []) [sample_resource Gauge 2, sample_resource Gauge 3] = Some rms' \<and>
     normal (\<lambda>_. []) rms' \<and>
     series (\<lambda>_. []) rms' = series (\<lambda>_. []) [sample_resource Gauge 2, sample_resource Gauge 3]"
proof -
  let ?rms = "[sample_resource Gauge 2, sample_resource Gauge 3]"
  obtain r where r: "DeduplicateResources (\<lambda>_. []) ?rms = Some r" using sample_total by blast
  have t: "\<forall>m \<in> all_metrics ?rms. met_type m \<noteq> Empty" by (simp add: sample_all_metrics)
  show ?thesis using r DeduplicateResources_normal [OF t r] by blast
qed

text \<open>Data in normal form without empty resources and scopes is left alone.\<close>

lemma normal_stages_fixed:
  assumes n: "normal f rms" and "\<forall>rm \<in> set rms. rm_scopes rm \<noteq> []"
    and ne: "\<forall>sm \<in> all_scopes rms. sm_metrics sm \<noteq> []"
  shows "deduplicateScopes (merged_resources f rms) = rms" and "merged_by_name rms = rms"
    and "deduplicateDatapoints f rms = rms"
proof -
  have "merged_resources f rms = rms"
    unfolding merged_resources_def by (rule res.merged_fixed) (use n assms(2) in \<open>simp_all add: normal_def\<close>)
  moreover have "merged_scopes (rm_scopes rm) = rm_scopes rm" if "rm \<in> set rms" for rm
    unfolding merged_scopes_def
    by (rule scp.merged_fixed) (use n ne that in \<open>auto simp: normal_def all_scopes_def\<close>)
  ultimately show "deduplicateScopes (merged_resources f rms) = rms"
    by (simp add: deduplicateScopes_eq map_idI)
  have "merged_metrics (sm_metrics sm) = sm_metrics sm" if "rm \<in> set rms" "sm \<in> set (rm_scopes rm)" for rm sm
    unfolding merged_metrics_def
    by (rule met.merged_fixed) (use n that in \<open>auto simp: normal_def normal_scope_def normal_metric_def\<close>)
  then have "map (\<lambda>sm. sm\<lparr>sm_metrics := merged_metrics (sm_metrics sm)\<rparr>) (rm_scopes rm) = rm_scopes rm"
    if "rm \<in> set rms" for rm using that by (intro map_idI) simp
  then show "merged_by_name rms = rms" by (simp add: merged_by_name_def map_idI)
  have "deduplicate_metric f m = m" if "normal_metric f m" for m :: "('a, 'b, 'c) metric"
    using that by (simp add: normal_metric_def deduplicate_metric_def deduplicatePoints_def
        remove_seen_first_by first_by_idem_gen)
  then have "map (deduplicate_metric f) (sm_metrics sm) = sm_metrics sm"
    if "rm \<in> set rms" "sm \<in> set (rm_scopes rm)" for rm sm
    by (intro map_idI) (use n that in \<open>auto simp: normal_def normal_scope_def\<close>)
  then have "map (\<lambda>sm. sm\<lparr>sm_metrics := map (deduplicate_metric f) (sm_metrics sm)\<rparr>) (rm_scopes rm) = rm_scopes rm"
    if "rm \<in> set rms" for rm using that by (intro map_idI) simp
  then show "deduplicateDatapoints f rms = rms" by (simp add: deduplicateDatapoints_def map_idI)
qed

lemma distinct_names_agree: "distinct (map met_name ms) \<Longrightarrow> agree (set ms)"
  unfolding agree_def distinct_map inj_on_def by blast

text \<open>
  C21: deduplication is idempotent on what it produces: data in its normal form, with no empty resource or
  scope, comes back unchanged and without a panic.
\<close>

theorem DeduplicateResources_fixpoint:
  assumes "normal f rms" and "\<forall>rm \<in> set rms. rm_scopes rm \<noteq> []"
    and "\<forall>sm \<in> all_scopes rms. sm_metrics sm \<noteq> []" and "\<forall>m \<in> all_metrics rms. met_type m \<noteq> Empty"
  shows "DeduplicateResources f rms = Some rms"
proof -
  note fixed = normal_stages_fixed [OF assms(1-3)]
  have "deduplicate_scope_metrics sm \<noteq> None" if "rm \<in> set rms" "sm \<in> set (rm_scopes rm)" for rm sm
  proof (rule deduplicate_scope_metrics_total)
    show "typed (sm_metrics sm)"
      using that assms(4) by (auto simp: typed_def all_metrics_def all_scopes_def)
    show "agree (set (sm_metrics sm))"
      by (rule distinct_names_agree) (use that assms(1) in \<open>auto simp: normal_def normal_scope_def\<close>)
  qed
  then obtain rms' where "deduplicateMetricsByName rms = Some rms'"
    using deduplicateMetricsByName_defined by blast
  moreover from deduplicateMetricsByName_Some [OF _ this] assms(4) have "rms' = rms"
    by (simp add: all_typed_def fixed)
  ultimately show ?thesis by (simp add: DeduplicateResources_cases fixed)
qed

theorem DeduplicateResources_fixpoint_witness:
  "DeduplicateResources (\<lambda>_. []) [sample_resource Gauge 2] = Some [sample_resource Gauge 2]"
  by (rule DeduplicateResources_fixpoint)
    (simp_all add: normal_def normal_scope_def normal_metric_def all_metrics_def all_scopes_def
      sample_resource_def)

text \<open>
  Two metrics of the same name but different types in one scope make the deduplication panic, for
  instance a gauge and a sum from two resources that are merged.
\<close>

theorem DeduplicateResources_type_mismatch:
  "DeduplicateResources f [sample_resource Gauge 2, sample_resource Sum 3] = None"
proof -
  let ?sm = "\<lambda>ty b. hd (rm_scopes (sample_resource ty b))"
  let ?m = "\<lambda>ty b. hd (sm_metrics (?sm ty b))"
  let ?rm = "(sample_resource Gauge 2)\<lparr>rm_scopes := [?sm Gauge 2, ?sm Sum 3]\<rparr>"
  have r: "merged_resources f [sample_resource Gauge 2, sample_resource Sum 3] = [?rm]"
    by (simp add: merged_resources_def res.loop_end res.loop_new res.loop_seen sample_resource_def)
  have s: "merged_scopes [?sm Gauge 2, ?sm Sum 3] = [(?sm Gauge 2)\<lparr>sm_metrics := [?m Gauge 2, ?m Sum 3]\<rparr>]"
    by (simp add: merged_scopes_def scp.loop_end scp.loop_new scp.loop_seen sample_resource_def)
  have "metric_loop Map.empty [?m Gauge 2, ?m Sum 3] 0 =
      metric_loop [met_name (?m Gauge 2) \<mapsto> 0] [?m Gauge 2, ?m Sum 3] 1"
    by (subst metric_loop.simps) simp
  also have "\<dots> = None"
    by (subst metric_loop_step [where f = 0]) (simp_all add: sample_resource_def typed_def)
  finally have "deduplicate_scope_metrics ((?sm Gauge 2)\<lparr>sm_metrics := [?m Gauge 2, ?m Sum 3]\<rparr>) = None"
    by (simp add: deduplicate_scope_metrics_def)
  then have "deduplicateMetricsByName [?rm\<lparr>rm_scopes := [(?sm Gauge 2)\<lparr>sm_metrics := [?m Gauge 2, ?m Sum 3]\<rparr>]\<rparr>] = None"
    by (simp add: deduplicateMetricsByName_def)
  moreover have "deduplicateScopes [?rm] =
      [?rm\<lparr>rm_scopes := [(?sm Gauge 2)\<lparr>sm_metrics := [?m Gauge 2, ?m Sum 3]\<rparr>]\<rparr>]"
    using s by (simp add: deduplicateScopes_eq)
  ultimately show ?thesis unfolding DeduplicateResources_cases r by simp
qed

text \<open>
  The attribute key is not injective, because values are not escaped: the two points below have
  different attributes, and the deduplication drops the second one although no other point has
  its attributes.
\<close>

theorem attrs_key_collision:
  "let p = \<lparr>dp_attrs = [(''a'', Str ''1,b=2'')], dp_body = x\<rparr>;
       q = \<lparr>dp_attrs = [(''a'', Str ''1''), (''b'', Str ''2'')], dp_body = y\<rparr>
   in dp_attrs p \<noteq> dp_attrs q \<and> deduplicatePoints f [p, q] = [p]"
proof -
  have "sort [''a'', ''b''] = [''a'', ''b'']" "sort [''a''] = [''a'']" by code_simp+
  then have "canonicalAttrsKey f [(''a'', Str ''1,b=2'')] = ''a=1,b=2,''"
    "canonicalAttrsKey f [(''a'', Str ''1''), (''b'', Str ''2'')] = ''a=1,b=2,''"
    by (simp_all add: canonicalAttrsKey_def attr_get_def Let_def)
  then show ?thesis by (simp add: deduplicatePoints_def Let_def)
qed

section \<open>Merging resources, replacing values, deduplicating records\<close>

lemma find_hash_index:
  "find_hash h k rs = (if k \<in> (\<lambda>r. h (rm_attrs r)) ` set rs
     then Some (length (takeWhile (\<lambda>r. h (rm_attrs r) \<noteq> k) rs)) else None)"
  by (induction rs) auto

abbreviation res_grouped ::
    "('v attrs \<Rightarrow> 'h) \<Rightarrow> ('v, 'd, 'x) metrics \<Rightarrow> ('v, 'd, 'x) metrics" where
  "res_grouped h \<equiv> keyed_merge.grouped (\<lambda>rm. h (rm_attrs rm)) rm_scopes (\<lambda>ss rm. rm\<lparr>rm_scopes := ss\<rparr>)"

lemma merge_loop_grouped: "merge_loop h (res_grouped h pre) rs = res_grouped h (pre @ rs)"
proof (induction rs arbitrary: pre)
  case (Cons r rs)
  let ?g = "res_grouped h pre" and ?k = "h (rm_attrs r)"
  have keys: "(\<lambda>r. h (rm_attrs r)) ` set ?g = (\<lambda>r. h (rm_attrs r)) ` set pre"
    using arg_cong [OF res.grouped_keys [where ak = h and xs = pre], of set] first_by_keys [of "\<lambda>r. h (rm_attrs r)" "{}" pre]
    by simp
  show ?case
  proof (cases "?k \<in> (\<lambda>r. h (rm_attrs r)) ` set pre")
    case False
    then have "merge_loop h ?g (r # rs) = merge_loop h (res_grouped h (pre @ [r])) rs"
      using res.grouped_snoc_new [where ak = h and x = r and xs = pre] by (simp add: find_hash_index keys)
    with Cons.IH [of "pre @ [r]"] show ?thesis by simp
  next
    case True
    let ?j = "length (takeWhile (\<lambda>r. h (rm_attrs r) \<noteq> ?k) ?g)"
    have j: "?j < length ?g" "h (rm_attrs (?g ! ?j)) = ?k"
    proof -
      from True have "?k \<in> (\<lambda>r. h (rm_attrs r)) ` set ?g" by (simp only: keys)
      then obtain y where "y \<in> set ?g" "\<not> h (rm_attrs y) \<noteq> ?k" by auto
      then show "?j < length ?g" by (rule takeWhile_length_less)
      from nth_length_takeWhile [OF this] show "h (rm_attrs (?g ! ?j)) = ?k" by simp
    qed
    have "merge_loop h ?g (r # rs) =
        merge_loop h (?g[?j := (?g ! ?j)\<lparr>rm_scopes := rm_scopes (?g ! ?j) @ rm_scopes r\<rparr>]) rs"
      using True by (simp add: find_hash_index keys)
    also have "?g[?j := (?g ! ?j)\<lparr>rm_scopes := rm_scopes (?g ! ?j) @ rm_scopes r\<rparr>] = res_grouped h (pre @ [r])"
      using res.grouped_snoc_old [where ak = h and x = r and xs = pre and j = ?j] True j by simp
    finally show ?thesis using Cons.IH [of "pre @ [r]"] by simp
  qed
qed simp

text \<open>
  C29: merging resources groups them by the hash of their attributes: one resource per hash, in the order
  of the first occurrence and with its attributes, holding the scope metrics of all resources of
  the hash in their order; nothing is dropped.
\<close>

theorem MergeResources_groups:
  "MergeResources h rms =
   map (\<lambda>rm. rm\<lparr>rm_scopes := concat (map rm_scopes (filter (\<lambda>r. h (rm_attrs r) = h (rm_attrs rm)) rms))\<rparr>)
     (first_by (\<lambda>rm. h (rm_attrs rm)) {} rms)"
  using merge_loop_grouped [of h "[]" rms]
  by (simp add: MergeResources_def res.grouped_def group_items_def)

lemma star_attrs_map: "star_attrs ks attrs = map (\<lambda>(k, v). (k, if k \<in> set ks then Str ''*'' else v)) attrs"
  by (induction ks attrs rule: star_attrs.induct) auto

text \<open>
  After the replacement two sets of attributes are equal exactly when they have the same keys in the
  same order and agree on the values of all keys that were not listed, which is what makes
  originally distinct resources and points duplicates.
\<close>

theorem star_attrs_identifies:
  "star_attrs ks a = star_attrs ks b \<longleftrightarrow>
   map fst a = map fst b \<and> filter (\<lambda>(k, v). k \<notin> set ks) a = filter (\<lambda>(k, v). k \<notin> set ks) b"
proof (induction a arbitrary: b)
  case Nil
  then show ?case by (cases b) (auto simp: star_attrs_map)
next
  case (Cons x a)
  show ?case
  proof (cases b)
    case (Cons y b')
    with Cons.IH [of b'] show ?thesis by (cases x; cases y) (auto simp: star_attrs_map)
  qed (cases x, simp add: star_attrs_map)
qed

lemma star_attrs_idem: "star_attrs ks (star_attrs ks a) = star_attrs ks a"
  by (simp add: star_attrs_map comp_def case_prod_beta)

text \<open>
  Replacing values twice is replacing them once, on resources, scope versions and data points alike.
\<close>

theorem ReplaceAttrValsWithStar_idem:
  "ReplaceAttrValsWithStar (ReplaceAttrValsWithStar rms rk dk) rk dk = ReplaceAttrValsWithStar rms rk dk"
proof -
  have m: "star_metric dk (star_metric dk m) = star_metric dk m" for m :: "('v, 'd, 'x) metric"
    by (simp add: star_metric_def star_attrs_idem comp_def)
  have "star_scope dk (star_scope dk s) = star_scope dk s" for s :: "('a, 'b, 'c) scope_metrics"
    by (simp add: star_scope_def Let_def comp_def star_metric_def star_attrs_idem)
  then show ?thesis by (simp add: ReplaceAttrValsWithStar_def star_attrs_idem comp_def)
qed

text \<open>
  Deduplicating logs keeps, in order, the first of every group of resource logs that are equal once
  timestamps are cleared, and never two of one group; for traces likewise with timestamps and ids.
\<close>

theorem DeduplicateLogs_Traces_first:
  "distinct (map (logsKey m) (DeduplicateLogs m logs)) \<and> subseq (DeduplicateLogs m logs) logs \<and>
   (\<forall>rl. find (\<lambda>x. logsKey m x = logsKey m rl) (DeduplicateLogs m logs) = find (\<lambda>x. logsKey m x = logsKey m rl) logs) \<and>
   distinct (map (tracesKey n) (DeduplicateTraces n traces)) \<and> subseq (DeduplicateTraces n traces) traces \<and>
   (\<forall>rs. find (\<lambda>x. tracesKey n x = tracesKey n rs) (DeduplicateTraces n traces) =
         find (\<lambda>x. tracesKey n x = tracesKey n rs) traces)"
  by (simp add: DeduplicateLogs_def DeduplicateTraces_def remove_seen_first_by first_by_distinct
      first_by_subseq first_by_find)

end
