(* ===== verification/Render_Workloads.thy ===== *)
theory Render_Workloads
  imports Go_Os Go_Flag
begin

text \<open>
  \<^verbatim>\<open>internal/renderworkloads/main.go\<close>: walking a directory tree, rendering its YAML templates and
  keeping the rendered collector workloads. An absolute clean path is the list of its segments;
  the names below a directory are a tree (in the lexical order the walk visits them), the
  contents are in the operating system's files. The template engine, the JSON and the
  Kubernetes YAML decoder are parameters.
\<close>

section \<open>Paths\<close>

type_synonym path = "string list"

definition path_str :: "path \<Rightarrow> string" where
  "path_str p = (if p = [] then ''/'' else concat (map (\<lambda>s. ''/'' @ s) p))"

text \<open>\<^verbatim>\<open>filepath.Join\<close> and \<^verbatim>\<open>filepath.Clean\<close> on an absolute path: empty and dot segments go, a double
  dot removes the segment before it.\<close>

definition resolve :: "path \<Rightarrow> string list \<Rightarrow> path" where
  "resolve base segs =
     foldl (\<lambda>acc s. if s = [] \<or> s = ''.'' then acc else if s = ''..'' then butlast acc else acc @ [s]) base segs"

definition join_path :: "path \<Rightarrow> string \<Rightarrow> path" where
  "join_path base p = resolve base (split_on p ''/'')"

definition abs_path :: "path \<Rightarrow> string \<Rightarrow> path" where
  "abs_path cwd p = (if has_prefix p ''/'' then resolve [] (split_on p ''/'') else join_path cwd p)"

text \<open>\<^verbatim>\<open>filepath.Rel\<close> on two absolute clean paths.\<close>

fun rel_path :: "path \<Rightarrow> path \<Rightarrow> path" where
  "rel_path (b # bs) (t # ts) = (if b = t then rel_path bs ts else replicate (length (b # bs)) ''..'' @ t # ts)"
| "rel_path bs ts = replicate (length bs) ''..'' @ ts"

text \<open>\<^verbatim>\<open>filepath.Ext\<close> of a name: from its last dot on.\<close>

definition ext_of :: "string \<Rightarrow> string" where
  "ext_of name =
     (if CHR ''.'' \<in> set name then CHR ''.'' # rev (takeWhile (\<lambda>c. c \<noteq> CHR ''.'') (rev name)) else [])"

definition isYAMLFile :: "path \<Rightarrow> bool" where
  "isYAMLFile p =
     (let ext = map to_lower (ext_of (if p = [] then [] else last p)) in ext = ''.yaml'' \<or> ext = ''.yml'')"

section \<open>Template functions\<close>

definition pad_lines :: "string \<Rightarrow> string list \<Rightarrow> string list" where
  "pad_lines pad lines =
     map (\<lambda>i. if lines ! i = [] \<and> i = length lines - 1 then lines ! i else pad @ lines ! i)
       [0..<length lines]"

definition indent :: "int \<Rightarrow> string \<Rightarrow> string" where
  "indent spaces s =
     (if spaces \<le> 0 \<or> s = [] then s
      else join (pad_lines (replicate (nat spaces) (CHR '' '')) (split_on s nl)) nl)"

definition nindent :: "int \<Rightarrow> string \<Rightarrow> string" where
  "nindent spaces s = (if s = [] then [] else nl @ indent spaces s)"

datatype 'a any = Nil_any | String_any string | Other_any 'a

definition defaultValue :: "'a any \<Rightarrow> 'a any \<Rightarrow> 'a any" where
  "defaultValue def v =
     (case v of Nil_any \<Rightarrow> def
      | String_any s \<Rightarrow> if s = [] then def else v
      | Other_any _ \<Rightarrow> v)"

text \<open>The encoders of YAML and JSON are parameters; the functions a template may call, by name.\<close>

definition toYAML :: "('a any \<Rightarrow> string result) \<Rightarrow> 'a any \<Rightarrow> string result" where
  "toYAML marshal v = (case marshal v of Inl err \<Rightarrow> Inl err | Inr b \<Rightarrow> Inr b)"

definition toJSON :: "('a any \<Rightarrow> string result) \<Rightarrow> 'a any \<Rightarrow> string result" where
  "toJSON marshal v = (case marshal v of Inl err \<Rightarrow> Inl err | Inr b \<Rightarrow> Inr b)"

datatype 'a template_func =
    On_text "int \<Rightarrow> string \<Rightarrow> string"
  | On_values "'a any \<Rightarrow> 'a any \<Rightarrow> 'a any"
  | To_text "'a any \<Rightarrow> string result"

definition templateFuncs ::
  "('a any \<Rightarrow> string result) \<Rightarrow> ('a any \<Rightarrow> string result) \<Rightarrow> (string \<times> 'a template_func) list" where
  "templateFuncs yaml json =
     [(''indent'', On_text indent), (''nindent'', On_text nindent), (''default'', On_values defaultValue),
      (''toYaml'', To_text (toYAML yaml)), (''toJson'', To_text (toJSON json))]"

section \<open>Workloads\<close>

definition collectorLabelKey :: string where "collectorLabelKey = ''app.kubernetes.io/name''"
definition collectorLabelValue :: string where "collectorLabelValue = ''opentelemetry-collector''"
definition workloadsIndexName :: string where "workloadsIndexName = ''workloads.txt''"

definition workloadKinds :: "string list" where
  "workloadKinds = [''Deployment'', ''DaemonSet'', ''StatefulSet'']"

definition isWorkloadKind :: "string \<Rightarrow> bool" where
  "isWorkloadKind kind \<longleftrightarrow> kind \<in> set workloadKinds"

text \<open>
  A decoded document: whether its object is empty, its kind, its labels and the labels of its
  pod template. Decoding gives the documents up to the end of the input or the first error.
\<close>

record k8s_doc =
  doc_empty :: bool
  doc_kind :: string
  doc_labels :: "string \<rightharpoonup> string"
  doc_template_labels :: "(string \<rightharpoonup> string) option"

fun workload_loop :: "k8s_doc list \<Rightarrow> bool" where
  "workload_loop [] = False"
| "workload_loop (u # us) =
     (if doc_empty u then workload_loop us
      else if \<not> isWorkloadKind (doc_kind u) then workload_loop us
      else if doc_labels u collectorLabelKey = Some collectorLabelValue then True
      else case doc_template_labels u of
             Some lbls \<Rightarrow> if lbls collectorLabelKey = Some collectorLabelValue then True else workload_loop us
           | None \<Rightarrow> workload_loop us)"

section \<open>Rendering\<close>

record Options =
  RepoRoot :: string
  InRoot :: string
  OutBase :: string
  VarsFile :: string
  WriteIndex :: bool
  Verbose :: bool

record ('vars, 'tpl) render_env =
  tpl_parse :: "string \<Rightarrow> string \<Rightarrow> 'tpl result"
  tpl_execute :: "'tpl \<Rightarrow> 'vars \<Rightarrow> string result"
  json_vars :: "string \<Rightarrow> 'vars result"
  k8s_decode :: "string \<Rightarrow> k8s_doc list"
  mkdir_all :: "os \<Rightarrow> path \<Rightarrow> go_error option"

definition isCollectorWorkloadYAML :: "('v, 't) render_env \<Rightarrow> string \<Rightarrow> bool" where
  "isCollectorWorkloadYAML env b = workload_loop (k8s_decode env b)"

definition loadVarsJSON :: "('v, 't) render_env \<Rightarrow> os \<Rightarrow> path \<Rightarrow> 'v result" where
  "loadVarsJSON env w p =
     (case read_file w (path_str p) of
        Inl err \<Rightarrow> Inl err
      | Inr b \<Rightarrow> (case json_vars env b of Inl err \<Rightarrow> Inl err | Inr v \<Rightarrow> Inr v))"

definition goTemplateRenderFile :: "('v, 't) render_env \<Rightarrow> os \<Rightarrow> path \<Rightarrow> 'v \<Rightarrow> string result" where
  "goTemplateRenderFile env w inFile vars =
     (case read_file w (path_str inFile) of
        Inl err \<Rightarrow> Inl err
      | Inr src \<Rightarrow>
          (case tpl_parse env (if inFile = [] then ''/'' else last inFile) src of
             Inl err \<Rightarrow> Inl (Wrapf ''template parse failed for %s: %w'' [path_str inFile] err)
           | Inr tpl \<Rightarrow>
               (case tpl_execute env tpl vars of
                  Inl err \<Rightarrow> Inl (Wrapf ''template execute failed for %s: %w'' [path_str inFile] err)
                | Inr out \<Rightarrow> Inr out)))"

text \<open>
  The callback of the walk for an entry that is not a directory; its state is the operating
  system and the list of workloads.
\<close>

type_synonym walk_state = "os \<times> string list"

definition out_path :: "path \<Rightarrow> path \<Rightarrow> path \<Rightarrow> path" where
  "out_path repoRoot outBase p = resolve outBase (rel_path repoRoot p)"

definition visit_file ::
    "('v, 't) render_env \<Rightarrow> path \<Rightarrow> path \<Rightarrow> 'v \<Rightarrow> bool \<Rightarrow> path \<Rightarrow> walk_state \<Rightarrow> walk_state \<times> go_error option"
  where
  "visit_file env repoRoot outBase vars writeIndex p st =
     (case st of (w, workloads) \<Rightarrow>
        if \<not> isYAMLFile p then (st, None)
        else
          let outPath = out_path repoRoot outBase p
          in case goTemplateRenderFile env w p vars of
               Inl err \<Rightarrow> (st, Some err)
             | Inr rendered \<Rightarrow>
                 (if \<not> isCollectorWorkloadYAML env rendered then (st, None)
                  else case mkdir_all env w (butlast outPath) of
                         Some err \<Rightarrow> (st, Some err)
                       | None \<Rightarrow>
                           (case write_file w (path_str outPath) rendered of
                              Inl err \<Rightarrow> (st, Some err)
                            | Inr w \<Rightarrow>
                                ((w, if writeIndex then workloads @ [path_str outPath] else workloads), None))))"

text \<open>
  \<^verbatim>\<open>filepath.WalkDir\<close> over a tree: the callback skips directories named \<^verbatim>\<open>.git\<close> and \<^verbatim>\<open>vendor\<close>, the
  first error ends the walk, and a directory that cannot be read is such an error.
\<close>

datatype tree = Leaf | Node "(string \<times> tree) list" | Unreadable go_error

definition skipped_dir :: "path \<Rightarrow> bool" where
  "skipped_dir p \<longleftrightarrow> p \<noteq> [] \<and> last p \<in> {''.git'', ''vendor''}"

fun walk :: "(path \<Rightarrow> 's \<Rightarrow> 's \<times> go_error option) \<Rightarrow> path \<Rightarrow> tree \<Rightarrow> 's \<Rightarrow> 's \<times> go_error option"
  and walk_entries ::
    "(path \<Rightarrow> 's \<Rightarrow> 's \<times> go_error option) \<Rightarrow> path \<Rightarrow> (string \<times> tree) list \<Rightarrow> 's \<Rightarrow> 's \<times> go_error option"
  where
  "walk visit p Leaf st = visit p st"
| "walk visit p (Unreadable err) st = (if skipped_dir p then (st, None) else (st, Some err))"
| "walk visit p (Node entries) st = (if skipped_dir p then (st, None) else walk_entries visit p entries st)"
| "walk_entries visit p [] st = (st, None)"
| "walk_entries visit p ((name, t) # entries) st =
     (case walk visit (p @ [name]) t st of
        (st, Some err) \<Rightarrow> (st, Some err)
      | (st, None) \<Rightarrow> walk_entries visit p entries st)"

definition renderCollectorWorkloads ::
    "('v, 't) render_env \<Rightarrow> path \<Rightarrow> path \<Rightarrow> path \<Rightarrow> tree \<Rightarrow> 'v \<Rightarrow> bool \<Rightarrow> os \<Rightarrow> walk_state \<times> go_error option"
  where
  "renderCollectorWorkloads env repoRoot inRoot outBase t vars writeIndex w =
     walk (visit_file env repoRoot outBase vars writeIndex) inRoot t (w, [])"

definition write_index :: "path \<Rightarrow> bool \<Rightarrow> string list \<Rightarrow> os \<Rightarrow> os result" where
  "write_index outBase writeIndex workloads w =
     (if writeIndex
      then (let indexPath = outBase @ [workloadsIndexName];
                content = join workloads nl;
                content = (if length content > 0 then content @ nl else content)
            in case write_file w (path_str indexPath) content of
                 Inl err \<Rightarrow> Inl err
               | Inr w \<Rightarrow> Inr (printf w (''Wrote workload index: %s'' @ nl) [path_str indexPath]))
      else Inr w)"

text \<open>
  \<open>main\<close>: a fatal error ends the process with status 1. The arguments are the parsed options,
  the working directory and what is found at a path (None when there is nothing).
\<close>

definition render_main ::
    "('v, 't) render_env \<Rightarrow> path \<Rightarrow> (path \<Rightarrow> tree option) \<Rightarrow> Options \<Rightarrow> os \<Rightarrow> os \<times> nat" where
  "render_main env cwd stat opt w =
     (if RepoRoot opt = [] \<or> InRoot opt = [] then (w, 1)
      else
        let repoRoot = abs_path cwd (RepoRoot opt);
            inRoot = join_path repoRoot (InRoot opt)
        in case stat inRoot of
             None \<Rightarrow> (w, 1)
           | Some t \<Rightarrow>
               (let outBase = abs_path cwd (OutBase opt)
                in case mkdir_all env w outBase of
                     Some err \<Rightarrow> (w, 1)
                   | None \<Rightarrow>
                       (let varsPath = join_path repoRoot (VarsFile opt)
                        in if stat varsPath = None then (w, 1)
                           else case loadVarsJSON env w varsPath of
                                  Inl err \<Rightarrow> (w, 1)
                                | Inr vars \<Rightarrow>
                                    (case renderCollectorWorkloads env repoRoot inRoot outBase t vars
                                            (WriteIndex opt) w of
                                       ((w, workloads), Some err) \<Rightarrow> (w, 1)
                                     | ((w, workloads), None) \<Rightarrow>
                                         (case write_index outBase (WriteIndex opt) workloads w of
                                            Inl err \<Rightarrow> (w, 1)
                                          | Inr w \<Rightarrow>
                                              (printf w (''Rendered collector workloads from %s to %s'' @ nl)
                                                 [path_str inRoot, path_str outBase], 0))))))"

text \<open>The options of the command line; what is printed for a verbose run goes to standard error.\<close>

definition defaultOutBase :: string where "defaultOutBase = ''/tmp/rendered''"
definition defaultVarsFile :: string where "defaultVarsFile = ''render-vars.json''"

definition render_flags :: flags where
  "render_flags = map_of
     [(''repo-root'', Text []), (''in-root'', Text []), (''out-base'', Text defaultOutBase),
      (''vars-file'', Text defaultVarsFile), (''write-index'', Flag True), (''verbose'', Flag False)]"

definition parseFlags :: "string list \<Rightarrow> flag_error + Options" where
  "parseFlags argv =
     (case parse_args render_flags argv of
        Inl e \<Rightarrow> Inl e
      | Inr (m, _) \<Rightarrow>
          Inr \<lparr>RepoRoot = text_flag m ''repo-root'', InRoot = text_flag m ''in-root'',
               OutBase = text_flag m ''out-base'', VarsFile = text_flag m ''vars-file'',
               WriteIndex = bool_flag m ''write-index'', Verbose = bool_flag m ''verbose''\<rparr>)"

definition renderworkloads ::
    "('v, 't) render_env \<Rightarrow> path \<Rightarrow> (path \<Rightarrow> tree option) \<Rightarrow> string list \<Rightarrow> os \<Rightarrow> os \<times> nat" where
  "renderworkloads env cwd stat argv w =
     (case parseFlags argv of
        Inl e \<Rightarrow> (w, usage_status e)
      | Inr opt \<Rightarrow> render_main env cwd stat opt w)"

lemma renderworkloads_required:
  "renderworkloads env cwd stat (map show_setting [(''in-root'', Text d)]) w = (w, 1)"
proof -
  have "parse_args render_flags (map show_setting [(''in-root'', Text d)] @ []) =
      Inr (render_flags ++ map_of (rev [(''in-root'', Text d)]), [])"
    by (rule parse_args_settings) (auto simp: render_flags_def flag_name_def)
  then show ?thesis
    by (simp add: renderworkloads_def parseFlags_def render_main_def render_flags_def text_flag_def)
qed

section \<open>The walk as a sequence of visits\<close>

datatype item = Visit path | Stop go_error

fun flat :: "path \<Rightarrow> tree \<Rightarrow> item list"
  and flat_entries :: "path \<Rightarrow> (string \<times> tree) list \<Rightarrow> item list" where
  "flat p Leaf = [Visit p]"
| "flat p (Unreadable err) = (if skipped_dir p then [] else [Stop err])"
| "flat p (Node entries) = (if skipped_dir p then [] else flat_entries p entries)"
| "flat_entries p [] = []"
| "flat_entries p ((name, t) # entries) = flat (p @ [name]) t @ flat_entries p entries"

fun run_items :: "(path \<Rightarrow> 's \<Rightarrow> 's \<times> go_error option) \<Rightarrow> item list \<Rightarrow> 's \<Rightarrow> 's \<times> go_error option" where
  "run_items visit [] st = (st, None)"
| "run_items visit (Stop err # items) st = (st, Some err)"
| "run_items visit (Visit p # items) st =
     (case visit p st of
        (st, Some err) \<Rightarrow> (st, Some err)
      | (st, None) \<Rightarrow> run_items visit items st)"

lemma run_items_append:
  "run_items visit (xs @ ys) st =
   (case run_items visit xs st of (st, Some err) \<Rightarrow> (st, Some err) | (st, None) \<Rightarrow> run_items visit ys st)"
  by (induction visit xs st rule: run_items.induct) (auto split: prod.split option.split)

lemma walk_flat:
  "walk visit p t st = run_items visit (flat p t) st"
  "walk_entries visit p es st = run_items visit (flat_entries p es) st"
proof (induction visit p t st and visit p es st rule: walk_walk_entries.induct)
  case (1 visit p st)
  then show ?case by (auto split: prod.split option.split)
qed (auto simp: run_items_append split: prod.split option.split)

text \<open>The files the walk visits: no directory on the way is named .git or vendor.\<close>

definition below :: "path \<Rightarrow> path \<Rightarrow> bool" where
  "below p q \<longleftrightarrow> (\<exists>r. q = p @ r \<and> (\<forall>k < length r. \<not> skipped_dir (p @ take k r)))"

lemma below_step: "\<not> skipped_dir p \<Longrightarrow> below (p @ [n]) q \<Longrightarrow> below p q"
proof -
  assume p: "\<not> skipped_dir p" and "below (p @ [n]) q"
  then obtain r where r: "q = p @ n # r" "\<forall>k < length r. \<not> skipped_dir ((p @ [n]) @ take k r)"
    by (auto simp: below_def)
  have "\<not> skipped_dir (p @ take k (n # r))" if "k < length (n # r)" for k
    using that p r(2) by (cases k) auto
  with r(1) show ?thesis unfolding below_def by blast
qed

lemma flat_below:
  "Visit q \<in> set (flat p t) \<Longrightarrow> below p q"
  "Visit q \<in> set (flat_entries p es) \<Longrightarrow> \<not> skipped_dir p \<Longrightarrow> below p q"
proof (induction p t and p es rule: flat_flat_entries.induct)
  case (1 p)
  then show ?case by (auto simp: below_def)
next
  case (5 p name t entries)
  then show ?case by (auto intro: below_step)
qed (auto split: if_splits)

section \<open>Properties\<close>

lemma visit_file_cases:
  assumes "visit_file env rr ob vars wi p (w, ws) = ((w', ws'), r)"
  shows "(w' = w \<and> ws' = ws) \<or>
    (\<exists>b. isYAMLFile p \<and> goTemplateRenderFile env w p vars = Inr b \<and> isCollectorWorkloadYAML env b \<and>
       w' = w\<lparr>os_files := (os_files w)(path_str (out_path rr ob p) \<mapsto> b)\<rparr> \<and>
       ws' = (if wi then ws @ [path_str (out_path rr ob p)] else ws) \<and> r = None)"
  using assms
  by (auto simp: visit_file_def Let_def write_file_def split: sum.splits option.splits if_splits)

text \<open>The invariant of the walk, over the files it visits.\<close>

definition walk_ok :: "('v, 't) render_env \<Rightarrow> path \<Rightarrow> path \<Rightarrow> path set \<Rightarrow> os \<Rightarrow> walk_state \<Rightarrow> bool" where
  "walk_ok env rr ob P w0 st \<longleftrightarrow>
     (\<forall>f. os_files (fst st) f \<noteq> os_files w0 f \<longrightarrow>
        (\<exists>q \<in> P. isYAMLFile q \<and> f = path_str (out_path rr ob q) \<and>
           (\<exists>b. os_files (fst st) f = Some b \<and> isCollectorWorkloadYAML env b))) \<and>
     (\<forall>f \<in> set (snd st). \<exists>b. os_files (fst st) f = Some b \<and> isCollectorWorkloadYAML env b)"

lemma walk_ok_step:
  assumes "visit_file env rr ob vars wi p st = (st', r)" and "walk_ok env rr ob P w0 st" and "p \<in> P"
  shows "walk_ok env rr ob P w0 st'"
proof -
  obtain w ws w' ws' where st: "st = (w, ws)" "st' = (w', ws')" by (cases st; cases st')
  from visit_file_cases [OF assms(1) [unfolded st]] show ?thesis
  proof
    assume "w' = w \<and> ws' = ws"
    with assms(2) st show ?thesis by simp
  next
    assume "\<exists>b. isYAMLFile p \<and> goTemplateRenderFile env w p vars = Inr b \<and> isCollectorWorkloadYAML env b \<and>
       w' = w\<lparr>os_files := (os_files w)(path_str (out_path rr ob p) \<mapsto> b)\<rparr> \<and>
       ws' = (if wi then ws @ [path_str (out_path rr ob p)] else ws) \<and> r = None"
    then obtain b where "isYAMLFile p" "isCollectorWorkloadYAML env b"
      "w' = w\<lparr>os_files := (os_files w)(path_str (out_path rr ob p) \<mapsto> b)\<rparr>"
      "set ws' \<subseteq> insert (path_str (out_path rr ob p)) (set ws)" by (cases wi) auto
    with assms(2,3) st show ?thesis
      unfolding walk_ok_def by (auto simp: fun_upd_apply)
  qed
qed

lemma walk_ok_run:
  "run_items (visit_file env rr ob vars wi) items st = (st', r) \<Longrightarrow> walk_ok env rr ob P w0 st \<Longrightarrow>
   {p. Visit p \<in> set items} \<subseteq> P \<Longrightarrow> walk_ok env rr ob P w0 st'"
proof (induction items arbitrary: st)
  case (Cons item items)
  show ?case
  proof (cases item)
    case (Visit p)
    obtain st1 r1 where v: "visit_file env rr ob vars wi p st = (st1, r1)" by fastforce
    have ok: "walk_ok env rr ob P w0 st1"
      by (rule walk_ok_step [OF v Cons.prems(2)]) (use Cons.prems(3) Visit in auto)
    show ?thesis
    proof (cases r1)
      case None
      with v Visit Cons.prems have "run_items (visit_file env rr ob vars wi) items st1 = (st', r)" by simp
      then show ?thesis by (rule Cons.IH [OF _ ok]) (use Cons.prems(3) in auto)
    next
      case (Some err)
      with v Visit Cons.prems(1) ok show ?thesis by simp
    qed
  qed (use Cons.prems in simp)
qed simp

text \<open>
  Only rendered collector workloads are written, also when the walk ends with an error: every file
  that differs afterwards is the output of a YAML file below the input root, reached without passing a
  directory named .git or vendor, and holds a collector workload; and so does every listed path.
\<close>

theorem render_writes_only_workloads:
  assumes "renderCollectorWorkloads env repoRoot inRoot outBase t vars wi w = ((w', workloads), r)"
  shows "(\<forall>f. os_files w' f \<noteq> os_files w f \<longrightarrow>
      (\<exists>q b. below inRoot q \<and> isYAMLFile q \<and> f = path_str (out_path repoRoot outBase q) \<and>
         os_files w' f = Some b \<and> isCollectorWorkloadYAML env b)) \<and>
    (\<forall>f \<in> set workloads. \<exists>b. os_files w' f = Some b \<and> isCollectorWorkloadYAML env b)"
proof -
  have "walk_ok env repoRoot outBase {q. Visit q \<in> set (flat inRoot t)} w (w', workloads)"
    using assms unfolding renderCollectorWorkloads_def walk_flat
    by (rule walk_ok_run) (auto simp: walk_ok_def)
  then show ?thesis using flat_below(1) [of _ inRoot t] unfolding walk_ok_def by fastforce
qed

definition sample_render :: "(unit, string) render_env" where
  "sample_render =
     \<lparr>tpl_parse = (\<lambda>n s. Inr s), tpl_execute = (\<lambda>t v. Inr t), json_vars = (\<lambda>_. Inr ()),
      k8s_decode = (\<lambda>s. if s = ''dep'' then [\<lparr>doc_empty = False, doc_kind = ''Deployment'',
        doc_labels = [''app.kubernetes.io/name'' \<mapsto> ''opentelemetry-collector''],
        doc_template_labels = None\<rparr>] else []),
      mkdir_all = (\<lambda>_ _. None)\<rparr>"

definition render_os :: os where
  "render_os = \<lparr>os_files = [''/r/in/a.yaml'' \<mapsto> ''dep'', ''/r/in/b.yml'' \<mapsto> ''cm''],
     os_readable = (\<lambda>_. True), os_writable = (\<lambda>_. True), os_env = Map.empty, os_stdout = []\<rparr>"

lemma sample_render_run:
  "renderCollectorWorkloads sample_render [''r''] [''r'', ''in''] [''o'']
     (Node [(''a.yaml'', Leaf), (''b.yml'', Leaf)]) () True render_os =
   ((render_os\<lparr>os_files := (os_files render_os)(''/o/in/a.yaml'' \<mapsto> ''dep'')\<rparr>, [''/o/in/a.yaml'']), None)"
  by (simp add: renderCollectorWorkloads_def skipped_dir_def visit_file_def isYAMLFile_def ext_of_def
      to_lower_def out_path_def resolve_def goTemplateRenderFile_def read_file_def path_str_def
      sample_render_def render_os_def isCollectorWorkloadYAML_def isWorkloadKind_def workloadKinds_def
      collectorLabelKey_def collectorLabelValue_def write_file_def Let_def)

theorem render_writes_only_workloads_witness:
  "\<exists>w' r. renderCollectorWorkloads sample_render [''r''] [''r'', ''in''] [''o'']
     (Node [(''a.yaml'', Leaf), (''b.yml'', Leaf)]) () True render_os = ((w', [''/o/in/a.yaml'']), r) \<and>
   (\<exists>b. os_files w' ''/o/in/a.yaml'' = Some b \<and> isCollectorWorkloadYAML sample_render b)"
  using sample_render_run render_writes_only_workloads [OF sample_render_run] by auto

text \<open>A file the walk visits, and what becomes of it when nothing it reads is overwritten.\<close>

definition rendered_workload :: "('v, 't) render_env \<Rightarrow> os \<Rightarrow> 'v \<Rightarrow> path \<Rightarrow> bool" where
  "rendered_workload env w vars q \<longleftrightarrow> isYAMLFile q \<and>
     (case goTemplateRenderFile env w q vars of Inl _ \<Rightarrow> False | Inr b \<Rightarrow> isCollectorWorkloadYAML env b)"

fun visits :: "item list \<Rightarrow> path list" where
  "visits [] = []"
| "visits (Visit p # items) = p # visits items"
| "visits (Stop err # items) = visits items"

definition same_inputs :: "path set \<Rightarrow> os \<Rightarrow> os \<Rightarrow> bool" where
  "same_inputs P w w' \<longleftrightarrow> os_readable w' = os_readable w \<and> (\<forall>q \<in> P. os_files w' (path_str q) = os_files w (path_str q))"

lemma render_same: "same_inputs P w w' \<Longrightarrow> q \<in> P \<Longrightarrow> goTemplateRenderFile env w' q vars = goTemplateRenderFile env w q vars"
proof -
  assume "same_inputs P w w'" and "q \<in> P"
  then have "os_readable w' = os_readable w" "os_files w' (path_str q) = os_files w (path_str q)"
    by (simp_all add: same_inputs_def)
  then have "read_file w' (path_str q) = read_file w (path_str q)" by (simp only: read_file_def)
  then show ?thesis by (simp only: goTemplateRenderFile_def)
qed

lemma run_items_exact:
  assumes "run_items (visit_file env rr ob vars True) items (w, ws) = ((w', ws'), None)"
    and "same_inputs P w0 w" and "set (visits items) \<subseteq> P"
    and "\<And>p q. p \<in> P \<Longrightarrow> q \<in> P \<Longrightarrow> path_str (out_path rr ob p) \<noteq> path_str q"
  shows "ws' = ws @ map (\<lambda>q. path_str (out_path rr ob q)) (filter (rendered_workload env w0 vars) (visits items))"
  using assms(1-3)
proof (induction items arbitrary: w ws)
  case (Cons item items)
  show ?case
  proof (cases item)
    case (Visit p)
    obtain w1 ws1 r1 where v: "visit_file env rr ob vars True p (w, ws) = ((w1, ws1), r1)"
      by (metis surj_pair)
    with Visit Cons.prems(1) have r1: "r1 = None"
      and rest: "run_items (visit_file env rr ob vars True) items (w1, ws1) = ((w', ws'), None)"
      by (auto split: option.splits)
    have p: "p \<in> P" using Visit Cons.prems(3) by simp
    have same: "goTemplateRenderFile env w p vars = goTemplateRenderFile env w0 p vars"
      by (rule render_same [OF Cons.prems(2) p])
    have step: "ws1 = ws @ (if rendered_workload env w0 vars p then [path_str (out_path rr ob p)] else [])"
      "same_inputs P w0 w1"
      using v r1 Cons.prems(2) assms(4) [OF p, symmetric]
      by (auto simp: visit_file_def rendered_workload_def same [symmetric] same_inputs_def write_file_def
          Let_def split: if_splits sum.splits option.splits)
    have "set (visits items) \<subseteq> P" using Visit Cons.prems(3) by simp
    from Cons.IH [OF rest step(2) this] show ?thesis using step(1) Visit by simp
  qed (use Cons.prems in simp)
qed simp

text \<open>
  A walk that succeeds lists, in the order of the walk, exactly the outputs of the YAML files it
  visits whose rendering is a collector workload, provided no output overwrites an input.
\<close>

theorem render_lists_all_workloads:
  assumes "renderCollectorWorkloads env repoRoot inRoot outBase t vars True w = ((w', workloads), None)"
    and "\<forall>p \<in> set (visits (flat inRoot t)). \<forall>q \<in> set (visits (flat inRoot t)).
           path_str (out_path repoRoot outBase p) \<noteq> path_str q"
  shows "workloads = map (\<lambda>q. path_str (out_path repoRoot outBase q))
    (filter (rendered_workload env w vars) (visits (flat inRoot t)))"
proof -
  let ?P = "set (visits (flat inRoot t))"
  have "workloads = [] @ map (\<lambda>q. path_str (out_path repoRoot outBase q))
      (filter (rendered_workload env w vars) (visits (flat inRoot t)))"
    by (rule run_items_exact [where P = ?P and w = w])
      (use assms in \<open>auto simp: renderCollectorWorkloads_def walk_flat same_inputs_def\<close>)
  then show ?thesis by simp
qed

theorem render_lists_all_workloads_witness:
  "[''/o/in/a.yaml''] = map (\<lambda>q. path_str (out_path [''r''] [''o''] q))
     (filter (rendered_workload sample_render render_os ())
       (visits (flat [''r'', ''in''] (Node [(''a.yaml'', Leaf), (''b.yml'', Leaf)]))))"
  by (rule render_lists_all_workloads [OF sample_render_run])
    (simp add: skipped_dir_def out_path_def resolve_def path_str_def)

section \<open>The command\<close>

lemma index_lines: "ws \<noteq> [] \<Longrightarrow> join ws nl @ nl = concat (map (\<lambda>l. l @ nl) ws)"
proof (induction ws)
  case (Cons l ws)
  then show ?case by (cases ws) (simp_all add: join_Cons)
qed simp

lemma path_str_nonempty: "path_str p \<noteq> []"
  by (cases p) (simp_all add: path_str_def)

lemma write_index_file:
  assumes "write_index outBase True (map path_str ps) w = Inr w'"
  shows "os_files w' = (os_files w)(path_str (outBase @ [workloadsIndexName]) \<mapsto> concat (map (\<lambda>p. path_str p @ nl) ps))"
proof (cases ps)
  case Nil
  with assms show ?thesis
    by (auto simp: write_index_def write_file_def printf_def Let_def split: if_splits)
next
  case (Cons p ps')
  have "join (map path_str ps) nl \<noteq> []"
    using Cons path_str_nonempty [of p] by (cases ps') (simp_all add: join_Cons)
  with assms index_lines [of "map path_str ps"] Cons show ?thesis
    by (auto simp: write_index_def write_file_def printf_def Let_def comp_def simp del: join.simps split: if_splits)
qed

lemma render_main_0:
  assumes "render_main env cwd stat opt w = (w', 0)"
    and "stat (join_path (abs_path cwd (RepoRoot opt)) (InRoot opt)) = Some t"
    and "loadVarsJSON env w (join_path (abs_path cwd (RepoRoot opt)) (VarsFile opt)) = Inr vars"
  obtains w1 workloads w2 where
    "renderCollectorWorkloads env (abs_path cwd (RepoRoot opt)) (join_path (abs_path cwd (RepoRoot opt)) (InRoot opt))
       (abs_path cwd (OutBase opt)) t vars (WriteIndex opt) w = ((w1, workloads), None)"
    and "write_index (abs_path cwd (OutBase opt)) (WriteIndex opt) workloads w1 = Inr w2" and "os_files w' = os_files w2"
  using assms by (auto simp: render_main_def Let_def printf_def split: if_splits option.splits sum.splits prod.splits)

text \<open>
  C11: a run of the command that ends with status 0 leaves an index that holds, one to a line and in the order of
  the walk, exactly the outputs of the files whose rendering is a collector workload, provided no output
  overwrites an input; and apart from the index it has changed only files that now hold a collector workload, each the
  output of a YAML file below the input root.
\<close>

theorem renderworkloads_index:
  assumes "renderworkloads env cwd stat argv w = (w', 0)" and "parseFlags argv = Inr opt" and "WriteIndex opt"
    and repo: "repo = abs_path cwd (RepoRoot opt)" and root: "root = join_path repo (InRoot opt)"
    and out: "out = abs_path cwd (OutBase opt)" and index: "index = path_str (out @ [workloadsIndexName])"
    and "stat root = Some t" and "loadVarsJSON env w (join_path repo (VarsFile opt)) = Inr vars"
    and apart: "\<forall>p \<in> set (visits (flat root t)). \<forall>q \<in> set (visits (flat root t)).
      path_str (out_path repo out p) \<noteq> path_str q"
  shows "os_files w' index = Some (concat (map (\<lambda>q. path_str (out_path repo out q) @ nl)
      (filter (rendered_workload env w vars) (visits (flat root t))))) \<and>
    (\<forall>f. f \<noteq> index \<and> os_files w' f \<noteq> os_files w f \<longrightarrow>
      (\<exists>q b. below root q \<and> isYAMLFile q \<and> f = path_str (out_path repo out q) \<and>
         os_files w' f = Some b \<and> isCollectorWorkloadYAML env b))"
proof -
  let ?ps = "map (out_path repo out) (filter (rendered_workload env w vars) (visits (flat root t)))"
  have "render_main env cwd stat opt w = (w', 0)" using assms(1,2) by (simp add: renderworkloads_def)
  then obtain w1 workloads w2 where
    r: "renderCollectorWorkloads env repo root out t vars True w = ((w1, workloads), None)"
    and i: "write_index out True workloads w1 = Inr w2" "os_files w' = os_files w2"
    using assms(3,8,9) unfolding repo root out by (elim render_main_0 [of env cwd stat opt w w' t vars]) auto
  have "workloads = map path_str ?ps" using render_lists_all_workloads [OF r apart] by simp
  then have "write_index out True (map path_str ?ps) w1 = Inr w2" using i(1) by (simp only:)
  then have files: "os_files w' = (os_files w1)(index \<mapsto> concat (map (\<lambda>p. path_str p @ nl) ?ps))"
    unfolding i(2) index by (rule write_index_file)
  then show ?thesis
    using render_writes_only_workloads [OF r] by (auto simp: comp_def)
qed

definition render_argv :: "string list" where
  "render_argv = map show_setting
     [(''repo-root'', Text ''/r''), (''in-root'', Text ''in''), (''out-base'', Text ''/o'')]"

definition render_stat :: "path \<Rightarrow> tree option" where
  "render_stat p =
     (if p = [''r'', ''in''] then Some (Node [(''a.yaml'', Leaf), (''b.yml'', Leaf)])
      else if p = [''r'', ''render-vars.json''] then Some Leaf else None)"

definition vars_os :: os where
  "vars_os = render_os\<lparr>os_files := (os_files render_os)(''/r/render-vars.json'' \<mapsto> ''{}'')\<rparr>"

lemma render_argv_options:
  "parseFlags render_argv = Inr \<lparr>RepoRoot = ''/r'', InRoot = ''in'', OutBase = ''/o'',
     VarsFile = ''render-vars.json'', WriteIndex = True, Verbose = False\<rparr>"
proof -
  let ?settings = "[(''repo-root'', Text ''/r''), (''in-root'', Text ''in''), (''out-base'', Text ''/o'')]"
  have "list_all (\<lambda>(n, v). flag_name n \<and> (\<exists>old. render_flags n = Some old \<and> same_kind old v)) ?settings"
    by (simp add: render_flags_def flag_name_def)
  then have "parse_args render_flags (render_argv @ []) = Inr (render_flags ++ map_of (rev ?settings), [])"
    unfolding render_argv_def list_all_iff by (intro parse_args_settings) auto
  then show ?thesis
    by (simp add: parseFlags_def render_flags_def text_flag_def bool_flag_def defaultVarsFile_def)
qed

lemma split_rooted: "CHR ''/'' \<notin> set p \<Longrightarrow> split_on (CHR ''/'' # p) ''/'' = [[], p]"
  using split_on_char_append [of "[]" "CHR ''/''" p] by (simp add: split_on_char_free)

lemma render_paths:
  "abs_path [] ''/r'' = [''r'']" "join_path [''r''] ''in'' = [''r'', ''in'']" "abs_path [] ''/o'' = [''o'']"
  "join_path [''r''] ''render-vars.json'' = [''r'', ''render-vars.json'']"
  by (simp_all add: abs_path_def join_path_def resolve_def has_prefix_def split_rooted split_on_char_free)

theorem renderworkloads_index_witness:
  "\<exists>w'. renderworkloads sample_render [] render_stat render_argv vars_os = (w', 0) \<and>
     os_files w' ''/o/workloads.txt'' = Some (''/o/in/a.yaml'' @ nl)"
proof -
  let ?t = "Node [(''a.yaml'', Leaf), (''b.yml'', Leaf)]"
  have r: "renderCollectorWorkloads sample_render [''r''] [''r'', ''in''] [''o''] ?t () True vars_os =
      ((vars_os\<lparr>os_files := (os_files vars_os)(''/o/in/a.yaml'' \<mapsto> ''dep'')\<rparr>, [''/o/in/a.yaml'']), None)"
    by (simp add: renderCollectorWorkloads_def skipped_dir_def visit_file_def isYAMLFile_def ext_of_def
        to_lower_def out_path_def resolve_def goTemplateRenderFile_def read_file_def path_str_def
        sample_render_def vars_os_def render_os_def isCollectorWorkloadYAML_def isWorkloadKind_def workloadKinds_def
        collectorLabelKey_def collectorLabelValue_def write_file_def Let_def)
  have vars: "loadVarsJSON sample_render vars_os [''r'', ''render-vars.json''] = Inr ()"
    by (simp add: loadVarsJSON_def read_file_def vars_os_def render_os_def path_str_def sample_render_def)
  have "mkdir_all sample_render vars_os [''o''] = None" "os_writable vars_os = (\<lambda>_. True)"
    by (simp_all add: sample_render_def vars_os_def render_os_def)
  then obtain w' where run: "renderworkloads sample_render [] render_stat render_argv vars_os = (w', 0)"
    by (simp add: renderworkloads_def render_argv_options render_main_def render_paths render_stat_def r vars
        write_index_def write_file_def Let_def)
  have w: "rendered_workload sample_render vars_os () [''r'', ''in'', ''a.yaml'']"
    "\<not> rendered_workload sample_render vars_os () [''r'', ''in'', ''b.yml'']"
    by (simp_all add: rendered_workload_def isYAMLFile_def ext_of_def to_lower_def goTemplateRenderFile_def
        read_file_def path_str_def sample_render_def vars_os_def render_os_def isCollectorWorkloadYAML_def
        isWorkloadKind_def workloadKinds_def collectorLabelKey_def collectorLabelValue_def)
  show ?thesis
    using renderworkloads_index [OF run render_argv_options _ refl refl refl refl, where t = ?t and vars = "()"] run
    by (simp add: render_paths render_stat_def vars w out_path_def resolve_def path_str_def workloadsIndexName_def
        skipped_dir_def)
qed

lemma rel_path_prefix: "rel_path b (b @ r) = r"
  by (induction b) simp_all

lemma resolve_plain: "\<forall>s \<in> set r. s \<notin> {[], ''.'', ''..''} \<Longrightarrow> resolve base r = base @ r"
  unfolding resolve_def by (induction r arbitrary: base) auto

text \<open>
  The output of a file below the repository root has the same relative path below the output base.
\<close>

theorem out_path_preserves_relative:
  assumes "\<forall>s \<in> set r. s \<notin> {[], ''.'', ''..''}"
  shows "out_path repoRoot outBase (repoRoot @ r) = outBase @ r"
  by (simp add: out_path_def rel_path_prefix resolve_plain [OF assms])

theorem out_path_preserves_relative_witness:
  "out_path [''r''] [''o''] ([''r''] @ [''in'', ''a.yaml'']) = [''o''] @ [''in'', ''a.yaml'']"
  by (rule out_path_preserves_relative) simp

text \<open>
  Indentation pads every line and leaves a trailing empty line empty: the lines of the result are the
  lines of the input, each but an empty last one with the padding in front, so the line count is
  kept and a text that ends in a newline still does.
\<close>

theorem indent_lines:
  assumes "0 < n" and "s \<noteq> []"
  shows "split_on (indent n s) nl =
    (let ls = split_on s nl; pad = replicate (nat n) (CHR '' '')
     in map (\<lambda>l. pad @ l) (butlast ls) @ [if last ls = [] then [] else pad @ last ls])"
proof -
  let ?ls = "split_on s nl" and ?pad = "replicate (nat n) (CHR '' '')"
  have ne: "?ls \<noteq> []" by (rule split_on_nonempty)
  have p: "pad_lines ?pad ls = map (\<lambda>l. ?pad @ l) (butlast ls) @ [if last ls = [] then [] else ?pad @ last ls]"
    if "ls \<noteq> []" for ls
    using that
    by (cases ls rule: rev_cases) (auto simp: pad_lines_def nth_append intro: nth_equalityI)
  have "CHR 0x0A \<notin> set l" if "l \<in> set (pad_lines ?pad ?ls)" for l
    using that split_on_char_parts [of _ s "CHR 0x0A"] split_on_char_parts [OF last_in_set [OF ne]]
    unfolding p [OF ne] by (auto dest: in_set_butlastD split: if_splits)
  then have "split_on (join (pad_lines ?pad ?ls) nl) nl = pad_lines ?pad ?ls"
    by (intro split_on_join_char) (auto simp: pad_lines_def ne)
  then show ?thesis using assms p [OF ne] by (simp add: indent_def Let_def)
qed

theorem indent_lines_witness: "split_on (indent 2 (''a'' @ nl)) nl = [''  a'', []]"
proof -
  have "split_on (''a'' @ nl) nl = [''a'', []]" by code_simp
  then show ?thesis using indent_lines [of 2 "''a'' @ nl"] by (simp add: Let_def numeral_2_eq_2)
qed

text \<open>
  A run of the tool that exits with status 0 and writes the index leaves in it the listed paths, one
  per line and nothing else; an empty list gives an empty file.
\<close>

theorem write_index_content:
  assumes "write_index outBase True workloads w = Inr w'" and "\<forall>p \<in> set workloads. p \<noteq> [] \<and> CHR 0x0A \<notin> set p"
  shows "\<exists>text. os_files w' (path_str (outBase @ [''workloads.txt''])) = Some text \<and>
    split_on text nl = workloads @ [[]]"
proof -
  let ?c = "join workloads nl"
  have "os_files w' (path_str (outBase @ [''workloads.txt''])) = Some (if length ?c > 0 then ?c @ nl else ?c)"
    using assms(1) by (auto simp: write_index_def workloadsIndexName_def printf_def write_file_Inr Let_def
        split: sum.splits)
  moreover have "split_on (if length ?c > 0 then ?c @ nl else ?c) nl = workloads @ [[]]"
  proof (cases "workloads = []")
    case True
    then show ?thesis by (simp add: split_on_char_free)
  next
    case False
    then obtain x xs where "workloads = x # xs" by (cases workloads) auto
    then have "?c \<noteq> []" using assms(2) by (cases xs) auto
    moreover have "split_on (?c @ nl @ []) nl = split_on ?c nl @ split_on [] nl"
      by (rule split_on_char_append)
    moreover have "split_on ?c nl = workloads" using False assms(2) by (intro split_on_join_char) auto
    ultimately show ?thesis by (simp add: split_on_char_free)
  qed
  ultimately show ?thesis by blast
qed

theorem write_index_content_witness:
  "\<exists>text w'. write_index [''o''] True [''/o/in/a.yaml''] render_os = Inr w' \<and>
     os_files w' (path_str ([''o''] @ [''workloads.txt''])) = Some text \<and> split_on text nl = [''/o/in/a.yaml'', []]"
proof -
  obtain w' where w': "write_index [''o''] True [''/o/in/a.yaml''] render_os = Inr w'"
    by (simp add: write_index_def write_file_def render_os_def Let_def)
  from write_index_content [OF this] w' show ?thesis by simp
qed

end
