(* ===== verification/Go_Text.thy ===== *)
theory Go_Text
  imports Go_Strings
begin

text \<open>
  Functions on texts that the test helpers use: the replacer of several strings
  (\<^verbatim>\<open>strings.NewReplacer\<close>) and the line scanner (\<^verbatim>\<open>bufio.Scanner\<close> with its default buffer).
\<close>

section \<open>Replacing several strings\<close>

text \<open>At every position the first old string of the list that occurs there is replaced.\<close>

definition replacement_at :: "(string \<times> string) list \<Rightarrow> string \<Rightarrow> (string \<times> string) option" where
  "replacement_at ps s = find (\<lambda>p. fst p \<noteq> [] \<and> prefix (fst p) s) ps"

lemma replacement_at_SomeD: "replacement_at ps s = Some (old, new) \<Longrightarrow> old \<noteq> [] \<and> prefix old s \<and> (old, new) \<in> set ps"
  unfolding replacement_at_def find_Some_iff by (metis fst_conv nth_mem)

function replacer :: "(string \<times> string) list \<Rightarrow> string \<Rightarrow> string" where
  "replacer ps [] = []"
| "replacer ps (c # s) =
     (case replacement_at ps (c # s) of
        None \<Rightarrow> c # replacer ps s
      | Some (old, new) \<Rightarrow> new @ replacer ps (drop (length old) (c # s)))"
  by pat_completeness auto
termination
proof (relation "measure (\<lambda>(ps, s). length s)")
  fix ps c s p old new
  assume "replacement_at ps (c # s) = Some p" and "(old, new) = p"
  then have "old \<noteq> []" using replacement_at_SomeD [of ps "c # s" old new] by simp
  then show "((ps, drop (length old) (c # s)), (ps, c # s)) \<in> measure (\<lambda>(ps, s). length s)"
    by (cases old) simp_all
qed simp_all

declare replacer.simps [simp del]

lemma replacer_Nil [simp]: "replacer ps [] = []"
  by (simp add: replacer.simps)

text \<open>A text in which none of the old strings occurs stays as it is.\<close>

lemma replacer_absent: "(\<And>old. old \<in> fst ` set ps \<Longrightarrow> old \<noteq> [] \<Longrightarrow> \<not> sublist old s) \<Longrightarrow> replacer ps s = s"
proof (induction s)
  case (Cons c s)
  have "replacement_at ps (c # s) = None"
  proof (cases "replacement_at ps (c # s)")
    case (Some p)
    then have "fst p \<noteq> []" "prefix (fst p) (c # s)" "fst p \<in> fst ` set ps"
      using replacement_at_SomeD [of ps "c # s" "fst p" "snd p"] by (auto intro: rev_image_eqI)
    with Cons.prems show ?thesis by (meson prefix_imp_sublist)
  qed simp
  moreover have "replacer ps s = s"
    using Cons by (meson sublist_Cons_right)
  ultimately show ?case by (simp add: replacer.simps)
qed simp

lemma replacer_at:
  "replacement_at ps (old @ s) = Some (old, new) \<Longrightarrow> replacer ps (old @ s) = new @ replacer ps s"
proof -
  assume r: "replacement_at ps (old @ s) = Some (old, new)"
  then obtain c t where "old @ s = c # t"
    using replacement_at_SomeD [of ps "old @ s" old new] by (cases old) auto
  then have "replacer ps (old @ s) = new @ replacer ps (drop (length old) (old @ s))"
    using r by (simp only: replacer.simps) simp
  then show ?thesis by simp
qed

lemma replacer_skip:
  "replacement_at ps (c # s) = None \<Longrightarrow> replacer ps (c # s) = c # replacer ps s"
  by (simp add: replacer.simps)

section \<open>Scanning lines\<close>

text \<open>
  Lines end at a newline; a carriage return before it is dropped, as is an empty last line. A
  line that does not fit the scanner's buffer of 64 KiB is an error, for which the code gets no
  lines at all.
\<close>

definition max_token :: nat where "max_token = 65536"

definition drop_cr :: "string \<Rightarrow> string" where
  "drop_cr l = (if l \<noteq> [] \<and> last l = CHR 0x0D then butlast l else l)"

definition err_too_long :: go_error where
  "err_too_long = Errorf ''bufio.Scanner: token too long'' []"

definition raw_lines :: "string \<Rightarrow> string list" where
  "raw_lines s = (let ls = split_on s nl in if last ls = [] then butlast ls else ls)"

definition scan_lines :: "string \<Rightarrow> string list result" where
  "scan_lines s =
     (if list_ex (\<lambda>l. length l \<ge> max_token) (raw_lines s) then Inl err_too_long
      else Inr (map drop_cr (raw_lines s)))"

lemma raw_lines_no_nl: "l \<in> set (raw_lines s) \<Longrightarrow> CHR 0x0A \<notin> set l"
  using split_on_char_parts [of l s "CHR 0x0A"]
  by (auto simp: raw_lines_def Let_def split: if_splits dest: in_set_butlastD)

lemma raw_lines_terminated:
  assumes "list_all (\<lambda>l. CHR 0x0A \<notin> set l) ls"
  shows "raw_lines (concat (map (\<lambda>l. l @ nl) ls)) = ls"
proof -
  have "split_on (concat (map (\<lambda>l. l @ nl) ls)) nl = ls @ [[]]"
    using assms
  proof (induction ls)
    case Nil
    show ?case using split_on_char_free [of "CHR 0x0A" "[]"] by simp
  next
    case (Cons l ls)
    then have "CHR 0x0A \<notin> set l" by simp
    then have "split_on (l @ nl @ concat (map (\<lambda>l. l @ nl) ls)) nl =
        l # split_on (concat (map (\<lambda>l. l @ nl) ls)) nl"
      using split_on_char_append [of l "CHR 0x0A"] split_on_char_free [of "CHR 0x0A" l] by simp
    with Cons show ?case by simp
  qed
  then show ?thesis by (simp add: raw_lines_def)
qed

section \<open>Joining paths\<close>

text \<open>\<^verbatim>\<open>filepath.Clean\<close> of a path and \<^verbatim>\<open>filepath.Join\<close> of two, on slash-separated paths.\<close>

definition clean_step :: "bool \<Rightarrow> string list \<Rightarrow> string \<Rightarrow> string list" where
  "clean_step rooted acc s =
     (if s = [] \<or> s = ''.'' then acc
      else if s = ''..''
      then (if acc \<noteq> [] \<and> last acc \<noteq> ''..'' then butlast acc else if rooted then acc else acc @ [s])
      else acc @ [s])"

definition clean_path :: "string \<Rightarrow> string" where
  "clean_path p =
     (let rooted = has_prefix p ''/'';
          body = join (foldl (clean_step rooted) [] (split_on p ''/'')) ''/''
      in if rooted then ''/'' @ body else if body = [] then ''.'' else body)"

definition path_join :: "string \<Rightarrow> string \<Rightarrow> string" where
  "path_join dir name =
     (if dir = [] then (if name = [] then [] else clean_path name)
      else if name = [] then clean_path dir
      else clean_path (dir @ ''/'' @ name))"

section \<open>Host and port\<close>

text \<open>\<^verbatim>\<open>net.SplitHostPort\<close>: the port follows the last colon; a host with colons stands in brackets.\<close>

definition err_addr :: "string \<Rightarrow> string \<Rightarrow> go_error" where
  "err_addr why addr = Errorf ''address %s: %s'' [addr, why]"

fun last_index :: "char \<Rightarrow> string \<Rightarrow> nat option" where
  "last_index c [] = None"
| "last_index c (x # xs) =
     (case last_index c xs of Some i \<Rightarrow> Some (Suc i) | None \<Rightarrow> if x = c then Some 0 else None)"

definition bracket_check :: "string \<Rightarrow> string \<Rightarrow> string \<Rightarrow> string \<Rightarrow> string \<Rightarrow> (string \<times> string) result" where
  "bracket_check addr host port opens closes =
     (if CHR ''['' \<in> set opens then Inl (err_addr ''unexpected '[' in address'' addr)
      else if CHR '']'' \<in> set closes then Inl (err_addr ''unexpected ']' in address'' addr)
      else Inr (host, port))"

definition split_host_port :: "string \<Rightarrow> (string \<times> string) result" where
  "split_host_port addr =
     (case last_index CHR '':'' addr of
        None \<Rightarrow> Inl (err_addr ''missing port in address'' addr)
      | Some i \<Rightarrow>
          let port = drop (Suc i) addr
          in if hd addr = CHR ''[''
             then (case index_of addr '']'' of
                     None \<Rightarrow> Inl (err_addr ''missing ']' in address'' addr)
                   | Some e \<Rightarrow>
                       if Suc e = length addr then Inl (err_addr ''missing port in address'' addr)
                       else if Suc e = i
                       then bracket_check addr (drop 1 (take e addr)) port (drop 1 addr) (drop (Suc e) addr)
                       else if addr ! Suc e = CHR '':''
                       then Inl (err_addr ''too many colons in address'' addr)
                       else Inl (err_addr ''missing port in address'' addr))
             else if CHR '':'' \<in> set (take i addr)
             then Inl (err_addr ''too many colons in address'' addr)
             else bracket_check addr (take i addr) port addr addr)"

lemma last_index_None [simp]: "c \<notin> set s \<Longrightarrow> last_index c s = None"
  by (induction s) auto

lemma last_index_append: "c \<notin> set t \<Longrightarrow> last_index c (s @ c # t) = Some (length s)"
  by (induction s) auto

text \<open>An address of a plain host and a port is taken apart again.\<close>

lemma split_host_port_plain:
  assumes "set (host @ port) \<inter> {CHR '':'', CHR ''['', CHR '']''} = {}"
  shows "split_host_port (host @ '':'' @ port) = Inr (host, port)"
proof -
  have "last_index CHR '':'' (host @ '':'' @ port) = Some (length host)"
    using assms last_index_append [of "CHR '':''" port host] by auto
  moreover have "hd (host @ '':'' @ port) \<noteq> CHR ''[''"
    using assms by (cases host) auto
  ultimately show ?thesis using assms
    by (auto simp: split_host_port_def bracket_check_def Let_def)
qed

section \<open>Waiting\<close>

text \<open>
  \<^verbatim>\<open>require.Eventually\<close>: a condition is checked at every tick until the time is over. The number of
  checks that fit into the time is given.
\<close>

definition eventually :: "nat \<Rightarrow> (nat \<Rightarrow> bool) \<Rightarrow> bool" where
  "eventually ticks cond = list_ex cond [1..<Suc ticks]"

lemma eventually_iff: "eventually ticks cond \<longleftrightarrow> (\<exists>i. 1 \<le> i \<and> i \<le> ticks \<and> cond i)"
  by (auto simp: eventually_def list_ex_iff)

end
