(* ===== verification/Collector_Config.thy ===== *)
theory Collector_Config
  imports Go_Text Go_Os "HOL-Library.List_Lexorder" "HOL-Library.Char_ord"
begin

text \<open>
  How the tests prepare a Collector's configuration (\<^verbatim>\<open>testcommon/testutil\<close>, collector.go and the first
  half of testutil.go): edits of a configuration text that must have an effect, ports that are
  replaced inside endpoint fields only, free ports outside the ranges Windows reserves, and the
  configuration of a load test put together from the parts of sender and receiver. A failed
  requirement, which stops the test, is an error.
\<close>

section \<open>Edits\<close>

definition SubpackageConfigExamplesDir :: string where
  "SubpackageConfigExamplesDir = ''../../../../config_examples''"

definition LoadConfig :: "os \<Rightarrow> string \<Rightarrow> string result" where
  "LoadConfig w path = read_file w path"

definition LoadConfigExample :: "os \<Rightarrow> string \<Rightarrow> string result" where
  "LoadConfigExample w name = LoadConfig w (path_join SubpackageConfigExamplesDir name)"

text \<open>The methods of \<^verbatim>\<open>Config\<close>, whose state is the text.\<close>

definition Replace :: "string \<Rightarrow> (string \<Rightarrow> string) \<Rightarrow> string \<Rightarrow> string result" where
  "Replace name f cfg =
     (let out = f cfg
      in if cfg = out then Inl (Errorf ''config replacement %q had no effect'' [name]) else Inr out)"

definition ReplaceString :: "string \<Rightarrow> string \<Rightarrow> string \<Rightarrow> string result" where
  "ReplaceString old new = Replace old (\<lambda>s. replace_first s old new)"

definition DisableInternalMetrics :: "string \<Rightarrow> string" where
  "DisableInternalMetrics cfg =
     replace_first cfg (''service:'' @ nl)
       (''service:'' @ nl @ ''  telemetry:'' @ nl @ ''    metrics:'' @ nl @ ''      level: none'' @ nl)"

definition SetInternalMetricsPort :: "string \<Rightarrow> int \<Rightarrow> string" where
  "SetInternalMetricsPort cfg port =
     (let reader = ''service:'' @ nl @ ''  telemetry:'' @ nl @ ''    metrics:'' @ nl @ ''      readers:'' @ nl @
            ''        - pull:'' @ nl @ ''            exporter:'' @ nl @ ''              prometheus:'' @ nl @
            ''                host: 127.0.0.1'' @ nl @ ''                port: '' @ itoa port @ nl
      in replace_first cfg (''service:'' @ nl) reader)"

definition DisableSendingQueueAndRetry :: "string \<Rightarrow> string \<Rightarrow> string" where
  "DisableSendingQueueAndRetry cfg exporter =
     (let header = nl @ ''  '' @ exporter @ '':'' @ nl
      in replace_first cfg header
           (header @ ''    retry_on_failure:'' @ nl @ ''      enabled: false'' @ nl @
            ''    sending_queue:'' @ nl @ ''      enabled: false'' @ nl))"

section \<open>Ports of endpoints\<close>

text \<open>
  The regular expression \<^verbatim>\<open>(endpoint:\s*\S+:)PORT\b\<close>. The white space after the field's name is
  matched as a whole, since no byte is both white space and not; of the run of other bytes that
  follows, the longest prefix is taken that is followed by a colon and the port, at a word boundary.
\<close>

definition re_space :: "char \<Rightarrow> bool" where
  "re_space c \<longleftrightarrow> c \<in> {CHR 0x09, CHR 0x0A, CHR 0x0C, CHR 0x0D, CHR '' ''}"

definition word_char :: "char \<Rightarrow> bool" where
  "word_char c \<longleftrightarrow> is_digit c \<or> c = CHR ''_'' \<or>
     of_char (to_lower c) \<in> {of_char (CHR ''a'') .. (of_char (CHR ''z'') :: nat)}"

definition at_port :: "int \<Rightarrow> string \<Rightarrow> nat \<Rightarrow> bool" where
  "at_port port run j \<longleftrightarrow>
     prefix ('':'' @ itoa port) (drop j run) \<and>
     (case drop (j + length (itoa port) + 1) run of [] \<Rightarrow> True | c # _ \<Rightarrow> \<not> word_char c)"

definition last_port :: "int \<Rightarrow> string \<Rightarrow> nat option" where
  "last_port port run = find (at_port port run) (rev [1..<length run])"

text \<open>The match at the start of a text: its part up to the port and the text after the port.\<close>

definition match_endpoint :: "int \<Rightarrow> string \<Rightarrow> (string \<times> string) option" where
  "match_endpoint port s =
     (if \<not> has_prefix s ''endpoint:'' then None
      else let s1 = drop (length ''endpoint:'') s;
               sp = takeWhile re_space s1;
               run = takeWhile (\<lambda>c. \<not> re_space c) (dropWhile re_space s1)
           in case last_port port run of
                None \<Rightarrow> None
              | Some j \<Rightarrow>
                  Some (''endpoint:'' @ sp @ take j run @ '':'',
                        drop (j + length (itoa port) + 1) (dropWhile re_space s1)))"

lemma match_endpoint_shorter:
  "match_endpoint port s = Some (a, r) \<Longrightarrow> length r < length s"
proof -
  assume m: "match_endpoint port s = Some (a, r)"
  let ?s1 = "drop (length ''endpoint:'') s"
  have p: "has_prefix s ''endpoint:''" using m by (simp add: match_endpoint_def split: if_splits)
  have "length r \<le> length (dropWhile re_space ?s1)"
    using m by (auto simp: match_endpoint_def Let_def split: if_splits option.splits)
  also have "\<dots> \<le> length ?s1" by (rule length_dropWhile_le)
  also have "\<dots> < length s"
    using p by (auto simp: has_prefix_def prefix_def)
  finally show ?thesis .
qed

function replace_endpoints :: "int \<Rightarrow> int \<Rightarrow> string \<Rightarrow> string" where
  "replace_endpoints oldPort newPort [] = []"
| "replace_endpoints oldPort newPort (c # s) =
     (case match_endpoint oldPort (c # s) of
        None \<Rightarrow> c # replace_endpoints oldPort newPort s
      | Some (keep, rest) \<Rightarrow> keep @ itoa newPort @ replace_endpoints oldPort newPort rest)"
  by pat_completeness auto
termination
proof (relation "measure (\<lambda>(p, q, s). length s)")
  fix p q :: int and c s x keep rest
  assume "match_endpoint p (c # s) = Some x" and "(keep, rest) = x"
  then have "length rest < length (c # s)" using match_endpoint_shorter [of p "c # s" keep rest] by simp
  then show "((p, q, rest), (p, q, c # s)) \<in> measure (\<lambda>(p, q, s). length s)" by simp
qed simp_all

declare replace_endpoints.simps [simp del]

definition replaceEndpointPort :: "string \<Rightarrow> int \<Rightarrow> int \<Rightarrow> string" where
  "replaceEndpointPort cfg oldPort newPort = replace_endpoints oldPort newPort cfg"

definition ReplaceOtlpGrpcReceiverPort :: "string \<Rightarrow> int \<Rightarrow> string" where
  "ReplaceOtlpGrpcReceiverPort cfg receiverPort = replaceEndpointPort cfg 4317 receiverPort"

definition ReplaceOtlpHttpReceiverPort :: "string \<Rightarrow> int \<Rightarrow> string" where
  "ReplaceOtlpHttpReceiverPort cfg receiverPort = replaceEndpointPort cfg 4318 receiverPort"

definition ReplaceJaegerGrpcReceiverPort :: "string \<Rightarrow> int \<Rightarrow> string" where
  "ReplaceJaegerGrpcReceiverPort cfg receiverPort = replaceEndpointPort cfg 14250 receiverPort"

definition ReplaceZipkinReceiverPort :: "string \<Rightarrow> int \<Rightarrow> string" where
  "ReplaceZipkinReceiverPort cfg receiverPort = replaceEndpointPort cfg 9411 receiverPort"

definition ReplaceStatsdReceiverPort :: "string \<Rightarrow> int \<Rightarrow> string" where
  "ReplaceStatsdReceiverPort cfg receiverPort = replaceEndpointPort cfg 8125 receiverPort"

definition ReplaceSyslogHostReceiverPort :: "string \<Rightarrow> int \<Rightarrow> string" where
  "ReplaceSyslogHostReceiverPort cfg receiverPort = replaceEndpointPort cfg 54527 receiverPort"

definition ReplaceSyslogF5ReceiverPort :: "string \<Rightarrow> int \<Rightarrow> string" where
  "ReplaceSyslogF5ReceiverPort cfg receiverPort = replaceEndpointPort cfg 54526 receiverPort"

definition ReplaceHealthCheckPort :: "string \<Rightarrow> int \<Rightarrow> string" where
  "ReplaceHealthCheckPort cfg port = replaceEndpointPort cfg 13133 port"

definition ReplaceDynatraceExporterEndpoint :: "string \<Rightarrow> int \<Rightarrow> string" where
  "ReplaceDynatraceExporterEndpoint cfg exporterPort =
     replacer [(''${env:DT_ENDPOINT}'', ''http://0.0.0.0:'' @ itoa exporterPort),
       (''${env:DT_PLATFORM_TOKEN}'', [])] cfg"

section \<open>Free ports\<close>

text \<open>
  Windows reserves ranges of ports that the system still hands out. The ranges are read from the
  output of \<^verbatim>\<open>netsh\<close> and kept as the strings found there.
\<close>

record portpair =
  pp_first :: string
  pp_last :: string

fun exclusion_lines :: "string list \<Rightarrow> portpair list result" where
  "exclusion_lines [] = Inr []"
| "exclusion_lines (line # lines) =
     (if trim_space line \<noteq> []
      then let entries = str_fields (trim_space line)
           in if length entries \<noteq> 2 then Inl (Errorf ''%q should have 2 item(s)'' entries)
              else (case exclusion_lines lines of
                      Inl err \<Rightarrow> Inl err
                    | Inr ps \<Rightarrow> Inr (\<lparr>pp_first = entries ! 0, pp_last = entries ! 1\<rparr> # ps))
      else exclusion_lines lines)"

definition createExclusionsList :: "string \<Rightarrow> portpair list result" where
  "createExclusionsList exclusionsText =
     (let parts = split_on exclusionsText ''--------''
      in if length parts \<noteq> 3 then Inl (Errorf ''%q should have 3 item(s)'' parts)
         else let portsText = split_on (parts ! 2) ''*''
              in if \<not> length portsText > 1 then Inl (Errorf ''%v is not greater than 1'' [])
                 else exclusion_lines (split_on (portsText ! 0) nl))"

text \<open>The two outputs of \<^verbatim>\<open>netsh\<close> are parameters.\<close>

definition getExclusionsList :: "string result \<Rightarrow> string result \<Rightarrow> portpair list result" where
  "getExclusionsList outputTCP outputUDP =
     (case outputTCP of
        Inl err \<Rightarrow> Inl err
      | Inr tcp \<Rightarrow>
          (case createExclusionsList tcp of
             Inl err \<Rightarrow> Inl err
           | Inr ps \<Rightarrow>
               (case outputUDP of
                  Inl err \<Rightarrow> Inl err
                | Inr udp \<Rightarrow>
                    (case createExclusionsList udp of Inl err \<Rightarrow> Inl err | Inr qs \<Rightarrow> Inr (ps @ qs)))))"

text \<open>
  What the network does is a record: whether the platform is Windows, the two outputs above and
  the address the system gives to the \<open>n\<close>-th listener.
\<close>

record net =
  is_windows :: bool
  netsh_tcp :: "string result"
  netsh_udp :: "string result"
  free_addr :: "string \<Rightarrow> nat \<Rightarrow> string result"

definition known_network :: "string \<Rightarrow> bool" where
  "known_network network \<longleftrightarrow>
     network \<in> {''tcp'', ''tcp4'', ''tcp6'', ''unix'', ''unixpacket'', ''udp'', ''udp4'', ''udp6'', ''unixgram''}"

definition findAvailableAddress :: "net \<Rightarrow> string \<Rightarrow> nat \<Rightarrow> string result" where
  "findAvailableAddress w network n = (if known_network network then free_addr w network n else Inr [])"

definition excluded :: "portpair list \<Rightarrow> string \<Rightarrow> bool" where
  "excluded exclusions port \<longleftrightarrow> list_ex (\<lambda>p. pp_first p \<le> port \<and> port \<le> pp_last p) exclusions"

text \<open>The search has no bound: it ends when the system gives a port outside the ranges.\<close>

partial_function (option) search_address ::
  "net \<Rightarrow> string \<Rightarrow> portpair list \<Rightarrow> nat \<Rightarrow> (string result \<times> nat) option" where
  "search_address w network exclusions n =
     (case findAvailableAddress w network n of
        Inl err \<Rightarrow> Some (Inl err, Suc n)
      | Inr endpoint \<Rightarrow>
          (case split_host_port endpoint of
             Inl err \<Rightarrow> Some (Inl err, Suc n)
           | Inr hp \<Rightarrow>
               if is_windows w \<and> excluded exclusions (snd hp)
               then search_address w network exclusions (Suc n)
               else Some (Inr endpoint, Suc n)))"

text \<open>The number of listeners opened so far is passed through.\<close>

definition GetAvailableLocalNetworkAddress :: "net \<Rightarrow> string \<Rightarrow> nat \<Rightarrow> (string result \<times> nat) option" where
  "GetAvailableLocalNetworkAddress w network n =
     (if is_windows w
      then case getExclusionsList (netsh_tcp w) (netsh_udp w) of
             Inl err \<Rightarrow> Some (Inl err, n)
           | Inr exclusions \<Rightarrow> search_address w network exclusions n
      else search_address w network [] n)"

definition GetAvailableLocalAddress :: "net \<Rightarrow> nat \<Rightarrow> (string result \<times> nat) option" where
  "GetAvailableLocalAddress w n = GetAvailableLocalNetworkAddress w ''tcp'' n"

definition port_number :: "string result \<Rightarrow> int result" where
  "port_number endpoint =
     (case endpoint of
        Inl err \<Rightarrow> Inl err
      | Inr e \<Rightarrow> (case split_host_port e of Inl err \<Rightarrow> Inl err | Inr hp \<Rightarrow> atoi (snd hp)))"

definition GetAvailablePort :: "net \<Rightarrow> nat \<Rightarrow> (int result \<times> nat) option" where
  "GetAvailablePort w n = map_option (map_prod port_number id) (GetAvailableLocalAddress w n)"

definition GetAvailableUDPPort :: "net \<Rightarrow> nat \<Rightarrow> (int result \<times> nat) option" where
  "GetAvailableUDPPort w n =
     map_option (map_prod port_number id) (GetAvailableLocalNetworkAddress w ''udp'' n)"

text \<open>A number of ports; the first one that cannot be had stops the test.\<close>

fun GetAvailablePorts :: "net \<Rightarrow> nat \<Rightarrow> nat \<Rightarrow> (int list result \<times> nat) option" where
  "GetAvailablePorts w 0 n = Some (Inr [], n)"
| "GetAvailablePorts w (Suc numberOfPorts) n =
     (case GetAvailablePort w n of
        None \<Rightarrow> None
      | Some (Inl err, m) \<Rightarrow> Some (Inl err, m)
      | Some (Inr p, m) \<Rightarrow>
          (case GetAvailablePorts w numberOfPorts m of
             None \<Rightarrow> None
           | Some (Inl err, k) \<Rightarrow> Some (Inl err, k)
           | Some (Inr ps, k) \<Rightarrow> Some (Inr (p # ps), k)))"

section \<open>Random strings\<close>

definition charset :: string where
  "charset = ''abcdefghijklmnopqrstuvwxyz0123456789''"

text \<open>
  The random source gives the \<open>i\<close>-th draw below a bound, or fails; a negative length makes the
  allocation panic.
\<close>

fun random_chars :: "(nat \<Rightarrow> nat \<Rightarrow> nat result) \<Rightarrow> nat \<Rightarrow> nat \<Rightarrow> string result" where
  "random_chars draw i 0 = Inr []"
| "random_chars draw i (Suc k) =
     (case draw (length charset) i of
        Inl err \<Rightarrow> Inl err
      | Inr num \<Rightarrow>
          (case random_chars draw (Suc i) k of
             Inl err \<Rightarrow> Inl err
           | Inr cs \<Rightarrow> Inr (charset ! num # cs)))"

definition err_makeslice :: go_error where
  "err_makeslice = Errorf ''panic: makeslice: len out of range'' []"

definition GenerateRandomString :: "(nat \<Rightarrow> nat \<Rightarrow> nat result) \<Rightarrow> int \<Rightarrow> string result" where
  "GenerateRandomString draw len =
     (if len < 0 then Inl err_makeslice else random_chars draw 0 (nat len))"

section \<open>The configuration of a load test\<close>

text \<open>
  Sender and receiver of the test bed give their own part of the configuration. The kind of a
  sender is one of the three the code asks for, or none of them.
\<close>

datatype sender_kind = TraceDataSender | MetricDataSender | LogDataSender | OtherDataSender

record data_sender =
  ds_kind :: sender_kind
  ds_config :: string
  ds_protocol :: string

record data_receiver =
  dr_config :: string
  dr_protocol :: string

text \<open>
  The loop over a map of configurations: their texts one after the other and the list of their
  names. The order in which the map is traversed is up to the runtime: it is a parameter.
\<close>

fun config_sections :: "(string \<times> string) list \<Rightarrow> string \<Rightarrow> string \<Rightarrow> bool \<Rightarrow> string \<times> string" where
  "config_sections [] sections names first = (sections, names)"
| "config_sections ((name, cfg) # ps) sections names first =
     config_sections ps (sections @ cfg @ nl) ((if \<not> first then names @ '','' else names) @ name) False"

definition pipeline_of :: "sender_kind \<Rightarrow> string \<times> string list" where
  "pipeline_of k =
     (case k of
        TraceDataSender \<Rightarrow> (''traces'', [])
      | MetricDataSender \<Rightarrow> (''metrics'', [])
      | LogDataSender \<Rightarrow> (''logs'', [])
      | OtherDataSender \<Rightarrow> ([], [''Invalid DataSender type'']))"

type_synonym map_order = "(string \<rightharpoonup> string) \<Rightarrow> (string \<times> string) list"

text \<open>The configuration, with the errors that were reported to the test, which goes on.\<close>

definition CreateGeneralConfigYaml ::
  "map_order \<Rightarrow> data_sender \<Rightarrow> data_receiver \<Rightarrow> (string \<rightharpoonup> string) \<Rightarrow> (string \<rightharpoonup> string) \<Rightarrow>
   string \<times> string list" where
  "CreateGeneralConfigYaml order sender receiver processors extensions =
     (let (processorsSections, processorsList) = config_sections (order processors) [] [] True;
          (extensionsSections, extensionsList) = config_sections (order extensions) [] [] True;
          (pipeline, errs) = pipeline_of (ds_kind sender)
      in (nl @ ''receivers:'' @ ds_config sender @ nl @
          ''exporters:'' @ dr_config receiver @ nl @
          ''processors:'' @ nl @ processorsSections @ nl @ nl @
          ''extensions:'' @ nl @ extensionsSections @ nl @ nl @
          ''service:'' @ nl @
          ''  extensions: ['' @ extensionsList @ '']'' @ nl @
          ''  pipelines:'' @ nl @
          ''    '' @ pipeline @ '':'' @ nl @
          ''      receivers: ['' @ ds_protocol sender @ '']'' @ nl @
          ''      processors: ['' @ processorsList @ '']'' @ nl @
          ''      exporters: ['' @ dr_protocol receiver @ '']'' @ nl, errs))"

text \<open>
  The load tests add the profiler to the extensions, in the caller's own map: the map that is
  left to the caller is returned too. A nil map is replaced by a new one.
\<close>

definition pprof_config :: "string \<Rightarrow> string" where
  "pprof_config resultDir = nl @ ''  pprof:'' @ nl @ ''    save_to_file: '' @ resultDir @ ''/cpu.prof'' @ nl"

definition CreateLoadTestConfigYaml ::
  "map_order \<Rightarrow> data_sender \<Rightarrow> data_receiver \<Rightarrow> string \<Rightarrow> (string \<rightharpoonup> string) \<Rightarrow>
   (string \<rightharpoonup> string) option \<Rightarrow> (string \<times> string list) \<times> (string \<rightharpoonup> string) option" where
  "CreateLoadTestConfigYaml order sender receiver resultDir processors extensions =
     (let ext = (case extensions of None \<Rightarrow> Map.empty | Some m \<Rightarrow> m)(''pprof'' \<mapsto> pprof_config resultDir)
      in (CreateGeneralConfigYaml order sender receiver processors ext,
          case extensions of None \<Rightarrow> None | Some m \<Rightarrow> Some ext))"

section \<open>Feature gates\<close>

text \<open>
  The registry of feature gates belongs to the Collector: which gates are enabled and the
  operation that sets one, which may refuse. The function sets a gate and leaves the function
  that sets it back to the value it had.
\<close>

definition SetFeatureGateForTest ::
  "('r \<Rightarrow> string \<Rightarrow> bool) \<Rightarrow> ('r \<Rightarrow> string \<Rightarrow> bool \<Rightarrow> 'r result) \<Rightarrow> 'r \<Rightarrow> string \<Rightarrow> bool \<Rightarrow>
   ('r \<times> ('r \<Rightarrow> 'r result)) result" where
  "SetFeatureGateForTest is_enabled set_gate reg gate enabled =
     (let originalValue = is_enabled reg gate
      in (case set_gate reg gate enabled of
            Inl err \<Rightarrow> Inl err
          | Inr reg' \<Rightarrow> Inr (reg', \<lambda>r. set_gate r gate originalValue)))"

section \<open>Lemmas: endpoints\<close>

lemma replace_endpoints_Nil [simp]: "replace_endpoints p q [] = []"
  by (simp add: replace_endpoints.simps)

definition endpoint_field :: "string \<Rightarrow> bool" where
  "endpoint_field u \<longleftrightarrow>
     (\<exists>p sp host. u = p @ ''endpoint:'' @ sp @ host @ '':'' \<and>
        list_all re_space sp \<and> host \<noteq> [] \<and> list_all (\<lambda>c. \<not> re_space c) host)"

lemma match_endpoint_parts:
  assumes "match_endpoint port s = Some (keep, rest)"
  shows "s = keep @ itoa port @ rest \<and> endpoint_field keep"
proof -
  define s1 where "s1 = drop (length ''endpoint:'') s"
  define sp where "sp = takeWhile re_space s1"
  define t where "t = dropWhile re_space s1"
  define run where "run = takeWhile (\<lambda>c. \<not> re_space c) t"
  note d = s1_def sp_def t_def run_def
  from assms obtain j where p: "has_prefix s ''endpoint:''" and j: "last_port port run = Some j"
    and keep: "keep = ''endpoint:'' @ sp @ take j run @ '':''"
    and rest: "rest = drop (j + length (itoa port) + 1) t"
    by (auto simp: match_endpoint_def Let_def d split: if_splits option.splits)
  from j have at: "at_port port run j" and "j \<in> set (rev [1..<length run])"
    unfolding last_port_def by (auto dest!: find_Some_iff_mem)
  then have jb: "1 \<le> j" "j < length run" by auto
  have "prefix run t" by (simp add: run_def takeWhile_is_prefix)
  then obtain u where t: "t = run @ u" by (auto simp: prefix_def)
  from at obtain v where v: "drop j run = '':'' @ itoa port @ v"
    by (auto simp: at_port_def prefix_def)
  have run: "run = take j run @ '':'' @ itoa port @ v"
    using v append_take_drop_id [of j run] by simp
  have "t = take j run @ '':'' @ itoa port @ v @ u" by (subst t, subst run) simp
  moreover from this have "rest = v @ u"
    using jb(2) rest by (simp add: min_def)
  moreover have "s = ''endpoint:'' @ sp @ t"
    using p by (auto simp: has_prefix_def prefix_def s1_def sp_def t_def)
  ultimately have "s = keep @ itoa port @ rest" using keep by simp
  moreover have "list_all re_space sp"
    by (auto simp: sp_def list_all_iff dest: set_takeWhileD)
  moreover have "take j run \<noteq> []" using jb by auto
  moreover have "list_all (\<lambda>c. \<not> re_space c) (take j run)"
    by (auto simp: run_def list_all_iff dest!: in_set_takeD set_takeWhileD)
  ultimately have "endpoint_field keep"
    unfolding endpoint_field_def keep by (intro exI [of _ "[]"] exI [of _ sp] exI [of _ "take j run"]) simp
  with \<open>s = keep @ itoa port @ rest\<close> show ?thesis ..
qed

lemma endpoint_field_prepend: "endpoint_field u \<Longrightarrow> endpoint_field (c # u)"
  unfolding endpoint_field_def by (metis append_Cons)

lemma replace_endpoints_parts:
  "\<exists>us v. list_all endpoint_field us \<and> cfg = concat (map (\<lambda>u. u @ itoa p) us) @ v \<and>
          replace_endpoints p q cfg = concat (map (\<lambda>u. u @ itoa q) us) @ v"
proof (induction p q cfg rule: replace_endpoints.induct)
  case (1 p q)
  show ?case by (intro exI [of _ "[]"]) simp
next
  case (2 p q c s)
  show ?case
  proof (cases "match_endpoint p (c # s)")
    case None
    with 2 obtain us v where uv: "list_all endpoint_field us" "s = concat (map (\<lambda>u. u @ itoa p) us) @ v"
      "replace_endpoints p q s = concat (map (\<lambda>u. u @ itoa q) us) @ v" by blast
    from None have r: "replace_endpoints p q (c # s) = c # replace_endpoints p q s"
      by (simp add: replace_endpoints.simps)
    show ?thesis
    proof (cases us)
      case Nil
      with uv r show ?thesis by (intro exI [of _ "[]"] exI [of _ "c # v"]) simp
    next
      case (Cons u us')
      with uv r endpoint_field_prepend [of u c] show ?thesis
        by (intro exI [of _ "(c # u) # us'"] exI [of _ v]) simp
    qed
  next
    case (Some kr)
    obtain keep rest where kr: "kr = (keep, rest)" by (cases kr)
    from "2.IH"(2) [OF Some kr [symmetric]] obtain us v where uv: "list_all endpoint_field us"
      "rest = concat (map (\<lambda>u. u @ itoa p) us) @ v"
      "replace_endpoints p q rest = concat (map (\<lambda>u. u @ itoa q) us) @ v" by blast
    from Some kr have r: "replace_endpoints p q (c # s) = keep @ itoa q @ replace_endpoints p q rest"
      by (simp add: replace_endpoints.simps)
    from match_endpoint_parts [of p "c # s" keep rest] Some kr
    have "c # s = keep @ itoa p @ rest" and "endpoint_field keep" by simp_all
    with uv r show ?thesis
      by (intro exI [of _ "keep # us"] exI [of _ v]) simp
  qed
qed

lemma replace_endpoints_skip:
  assumes "\<And>i. i < length pre \<Longrightarrow> \<not> has_prefix (drop i (pre @ s)) ''endpoint:''"
  shows "replace_endpoints p q (pre @ s) = pre @ replace_endpoints p q s"
  using assms
proof (induction pre)
  case (Cons c pre)
  have "match_endpoint p (c # pre @ s) = None"
    using Cons.prems [of 0] by (simp add: match_endpoint_def)
  moreover have "replace_endpoints p q (pre @ s) = pre @ replace_endpoints p q s"
  proof (rule Cons.IH)
    fix i assume "i < length pre"
    then show "\<not> has_prefix (drop i (pre @ s)) ''endpoint:''"
      using Cons.prems [of "Suc i"] by simp
  qed
  ultimately show ?case by (simp add: replace_endpoints.simps)
qed simp

lemma find_rev_upt:
  "P j \<Longrightarrow> a \<le> j \<Longrightarrow> j < n \<Longrightarrow> (\<And>k. j < k \<Longrightarrow> k < n \<Longrightarrow> \<not> P k) \<Longrightarrow> find P (rev [a..<n]) = Some j"
proof (induction n)
  case (Suc n)
  then show ?case by (cases "j = n") auto
qed simp

lemma itoa_chars: "c \<in> set (itoa i) \<Longrightarrow> is_digit c \<or> c = CHR ''-''"
  using show_nat_digits [of "nat i"] show_nat_digits [of "nat (- i)"]
  by (auto simp: itoa_def list_all_iff split: if_splits)

lemma digit_not_re_space: "is_digit c \<or> c = CHR ''-'' \<Longrightarrow> \<not> re_space c"
  by (auto simp: re_space_def is_digit_def)

lemma itoa_no_colon: "CHR '':'' \<notin> set (itoa i)"
  using itoa_chars [of "CHR '':''" i] by (auto simp: is_digit_def)

lemma last_port_at:
  assumes "host \<noteq> []" and "rt = [] \<or> \<not> word_char (hd rt)" and "CHR '':'' \<notin> set rt"
  shows "last_port port (host @ '':'' @ itoa port @ rt) = Some (length host)"
  unfolding last_port_def
proof (rule find_rev_upt)
  show "at_port port (host @ '':'' @ itoa port @ rt) (length host)"
    using assms(2) by (cases rt) (auto simp: at_port_def)
  show "1 \<le> length host" using assms(1) by (cases host) auto
  show "length host < length (host @ '':'' @ itoa port @ rt)" by simp
  fix k assume k: "length host < k" "k < length (host @ '':'' @ itoa port @ rt)"
  then obtain d where d: "k = length host + Suc d" using less_imp_Suc_add by auto
  have "CHR '':'' \<notin> set (drop d (itoa port @ rt))"
    using assms(3) itoa_no_colon [of port] by (auto dest: in_set_dropD)
  moreover have "CHR '':'' \<in> set (drop d (itoa port @ rt))"
    if "prefix ('':'' @ itoa port) (drop d (itoa port @ rt))"
    using set_mono_prefix [OF that] by simp
  moreover have "drop k (host @ '':'' @ itoa port @ rt) = drop d (itoa port @ rt)"
    unfolding d by simp
  ultimately show "\<not> at_port port (host @ '':'' @ itoa port @ rt) k"
    unfolding at_port_def by metis
qed

text \<open>An endpoint field whose port is followed by no further colon before the next white space.\<close>

lemma match_endpoint_field:
  assumes "list_all re_space sp" and "host \<noteq> []" and "list_all (\<lambda>c. \<not> re_space c) host"
    and "tail = [] \<or> \<not> word_char (hd tail)"
    and "CHR '':'' \<notin> set (takeWhile (\<lambda>c. \<not> re_space c) tail)"
  shows "match_endpoint port (''endpoint:'' @ sp @ host @ '':'' @ itoa port @ tail) =
           Some (''endpoint:'' @ sp @ host @ '':'', tail)"
proof -
  let ?t = "host @ '':'' @ itoa port @ tail"
  let ?rt = "takeWhile (\<lambda>c. \<not> re_space c) tail"
  obtain h hs where h: "host = h # hs" "\<not> re_space h" using assms(2,3) by (cases host) auto
  have sp: "dropWhile re_space (sp @ ?t) = ?t" "takeWhile re_space (sp @ ?t) = sp"
    using assms(1) h by (auto simp: list_all_iff dropWhile_append2 takeWhile_append2)
  have colon: "\<not> re_space CHR '':''" by (simp add: re_space_def)
  have "takeWhile (\<lambda>c. \<not> re_space c) (itoa port @ tail) = itoa port @ ?rt"
    using itoa_chars digit_not_re_space by (auto intro!: takeWhile_append2)
  then have "takeWhile (\<lambda>c. \<not> re_space c) ?t = host @ '':'' @ itoa port @ ?rt"
    using assms(3) colon by (simp add: list_all_iff takeWhile_append2)
  moreover have "?rt = [] \<or> \<not> word_char (hd ?rt)"
    using assms(4) by (cases tail) auto
  ultimately show ?thesis
    using sp last_port_at [OF assms(2), of ?rt port] assms(5)
    by (simp add: match_endpoint_def Let_def has_prefix_def)
qed

lemma replace_endpoints_field:
  assumes "list_all re_space sp" and "host \<noteq> []" and "list_all (\<lambda>c. \<not> re_space c) host"
    and "tail = [] \<or> \<not> word_char (hd tail)"
    and "CHR '':'' \<notin> set (takeWhile (\<lambda>c. \<not> re_space c) tail)"
  shows "replace_endpoints p q (''endpoint:'' @ sp @ host @ '':'' @ itoa p @ tail) =
           ''endpoint:'' @ sp @ host @ '':'' @ itoa q @ replace_endpoints p q tail"
  using match_endpoint_field [OF assms, of p] by (simp add: replace_endpoints.simps)

section \<open>Lemmas: ports, random strings and configurations\<close>

lemma search_address_step:
  "search_address w network ex n =
     (case findAvailableAddress w network n of
        Inl err \<Rightarrow> Some (Inl err, Suc n)
      | Inr endpoint \<Rightarrow>
          (case split_host_port endpoint of
             Inl err \<Rightarrow> Some (Inl err, Suc n)
           | Inr hp \<Rightarrow>
               if is_windows w \<and> excluded ex (snd hp) then search_address w network ex (Suc n)
               else Some (Inr endpoint, Suc n)))"
  by (rule search_address.simps)

definition skipped :: "net \<Rightarrow> string \<Rightarrow> portpair list \<Rightarrow> nat \<Rightarrow> bool" where
  "skipped w network ex n =
     (case findAvailableAddress w network n of
        Inl err \<Rightarrow> False
      | Inr e \<Rightarrow> (case split_host_port e of
                      Inl err \<Rightarrow> False
                    | Inr hp \<Rightarrow> is_windows w \<and> excluded ex (snd hp)))"

lemma search_address_skips:
  "(\<And>i. i < k \<Longrightarrow> skipped w network ex (n + i)) \<Longrightarrow>
   search_address w network ex n = search_address w network ex (n + k)"
proof (induction k)
  case (Suc k)
  have "skipped w network ex (n + k)" using Suc.prems by simp
  then obtain e hp where "findAvailableAddress w network (n + k) = Inr e" "split_host_port e = Inr hp"
    "is_windows w \<and> excluded ex (snd hp)"
    unfolding skipped_def by (auto split: sum.splits)
  then have "search_address w network ex (n + k) = search_address w network ex (n + Suc k)"
    by (subst search_address_step) simp
  with Suc show ?case by simp
qed simp

lemma search_address_takes:
  "\<not> skipped w network ex n \<Longrightarrow> findAvailableAddress w network n = Inr e \<Longrightarrow>
   split_host_port e = Inr hp \<Longrightarrow> search_address w network ex n = Some (Inr e, Suc n)"
  by (subst search_address_step) (auto simp: skipped_def)

text \<open>Strings of digits of one length are ordered as the numbers they denote.\<close>

lemma of_char_le: "c \<le> d \<longleftrightarrow> (of_char c :: nat) \<le> of_char d"
  by (rule less_eq_char_def)

lemma digits_val_Cons: "digits_val (c # s) = digit_val c * 10 ^ length s + digits_val s"
proof (induction s rule: rev_induct)
  case (snoc d s)
  have "digits_val (c # s @ [d]) = 10 * digits_val (c # s) + digit_val d"
    using digits_val_snoc [of "c # s" d] by simp
  with snoc show ?case by (simp add: digits_val_snoc algebra_simps)
qed (simp add: digits_val_def)

lemma digits_val_bound: "list_all is_digit s \<Longrightarrow> digits_val s < 10 ^ length s"
proof (induction s)
  case (Cons c s)
  then have "digit_val c \<le> 9" "digits_val s < 10 ^ length s"
    by (auto simp: is_digit_def digit_val_def)
  then have "digit_val c * 10 ^ length s + digits_val s < 9 * 10 ^ length s + 10 ^ length s"
    by (intro add_le_less_mono mult_le_mono1)
  then show ?case by (simp add: digits_val_Cons)
qed (simp add: digits_val_def)

lemma digits_order:
  "list_all is_digit s \<Longrightarrow> list_all is_digit t \<Longrightarrow> length s = length t \<Longrightarrow>
   s \<le> t \<longleftrightarrow> digits_val s \<le> digits_val t"
proof (induction s arbitrary: t)
  case (Cons c s)
  then obtain d u where t: "t = d # u" "length s = length u" by (cases t) auto
  with Cons.prems have dg: "is_digit c" "is_digit d" "list_all is_digit s" "list_all is_digit u" by auto
  have bound: "digits_val s < 10 ^ length s" "digits_val u < 10 ^ length s"
    using digits_val_bound dg t(2) by metis+
  consider "digit_val c < digit_val d" | "digit_val d < digit_val c" | "c = d"
    using dg by (metis digit_val_def diff_le_mono2 is_digit_def le_add_diff_inverse linorder_neqE_nat of_char_eq_iff)
  then show ?case
  proof cases
    case 1
    then have "c < d" using dg by (simp add: less_char_def digit_val_def is_digit_def)
    moreover have "(digit_val c + 1) * 10 ^ length s \<le> digit_val d * 10 ^ length s"
      using 1 by (intro mult_le_mono1) simp
    ultimately show ?thesis using bound t by (simp add: digits_val_Cons)
  next
    case 2
    then have "d < c" using dg by (simp add: less_char_def digit_val_def is_digit_def)
    moreover have "(digit_val d + 1) * 10 ^ length s \<le> digit_val c * 10 ^ length s"
      using 2 by (intro mult_le_mono1) simp
    ultimately show ?thesis using bound t by (auto simp: digits_val_Cons)
  next
    case 3
    then show ?thesis using Cons.IH [of u] dg t by (simp add: digits_val_Cons)
  qed
qed simp

lemma random_chars_ok:
  "random_chars draw i k = Inr s \<Longrightarrow> length s = k \<and> (\<forall>j<k. \<exists>v. draw (length charset) (i + j) = Inr v \<and> s ! j = charset ! v)"
proof (induction k arbitrary: i s)
  case (Suc k)
  then obtain v t where v: "draw (length charset) i = Inr v" "random_chars draw (Suc i) k = Inr t"
    "s = charset ! v # t" by (auto split: sum.splits)
  with Suc.IH [OF v(2)] show ?case by (auto simp: nth_Cons split: nat.splits)
qed simp

lemma random_chars_err:
  "random_chars draw i k = Inl e \<Longrightarrow> \<exists>j<k. draw (length charset) (i + j) = Inl e"
proof (induction k arbitrary: i)
  case (Suc k)
  then show ?case by (force split: sum.splits)
qed simp

lemma config_sections_later:
  "config_sections ps s n False = (s @ concat (map (\<lambda>(name, cfg). cfg @ nl) ps),
     n @ concat (map (\<lambda>(name, cfg). '','' @ name) ps))"
  by (induction ps arbitrary: s n) auto

lemma join_concat: "join (x # xs) sep = x @ concat (map (\<lambda>y. sep @ y) xs)"
  by (induction xs arbitrary: x) auto

lemma config_sections_eq:
  "config_sections ps [] [] True = (concat (map (\<lambda>(name, cfg). cfg @ nl) ps), join (map fst ps) '','')"
  by (cases ps) (auto simp: config_sections_later join_concat case_prod_unfold comp_def)

section \<open>Properties\<close>


text \<open>
  An endpoint field with the old port gets the new port, and the edit goes on behind it: white
  space, a host of bytes that are not white space, a colon and the old port at a word boundary, with
  no further colon before the next white space. The text before the field is kept when the field is
  the first one.
\<close>

theorem replaceEndpointPort_field:
  assumes "list_all re_space sp" and "host \<noteq> []" and "list_all (\<lambda>c. \<not> re_space c) host"
    and "tail = [] \<or> \<not> word_char (hd tail)"
    and "CHR '':'' \<notin> set (takeWhile (\<lambda>c. \<not> re_space c) tail)"
    and "\<And>i. i < length pre \<Longrightarrow>
           \<not> has_prefix (drop i (pre @ ''endpoint:'' @ sp @ host @ '':'' @ itoa oldPort @ tail)) ''endpoint:''"
  shows "replaceEndpointPort (pre @ ''endpoint:'' @ sp @ host @ '':'' @ itoa oldPort @ tail) oldPort newPort =
           pre @ ''endpoint:'' @ sp @ host @ '':'' @ itoa newPort @ replaceEndpointPort tail oldPort newPort"
  using replace_endpoints_skip [of pre _ oldPort newPort, OF assms(6)]
    replace_endpoints_field [OF assms(1-5), of oldPort newPort]
  by (simp only: replaceEndpointPort_def)

theorem replaceEndpointPort_field_witness:
  "replaceEndpointPort (''  '' @ ''endpoint:'' @ '' '' @ ''0.0.0.0'' @ '':'' @ itoa 4317 @ nl @ ''x: 4317'') 4317 55001 =
     ''  '' @ ''endpoint:'' @ '' '' @ ''0.0.0.0'' @ '':'' @ itoa 55001 @
       replaceEndpointPort (nl @ ''x: 4317'') 4317 55001"
  by (rule replaceEndpointPort_field)
    (auto simp: re_space_def word_char_def to_lower_def Let_def is_digit_def has_prefix_def less_Suc_eq
       numeral_2_eq_2)

text \<open>
  C37: on a platform that reserves ports, the search returns: when the first \<open>k\<close> addresses the system
  gives lie in the excluded ranges and the next one does not, that one is the result, and exactly
  one listener more was opened than there were excluded addresses.
\<close>

theorem GetAvailableLocalNetworkAddress_returns:
  assumes "getExclusionsList (netsh_tcp w) (netsh_udp w) = Inr ex"
    and "\<And>i. i < k \<Longrightarrow> skipped w network ex (n + i)"
    and "\<not> skipped w network ex (n + k)"
    and "findAvailableAddress w network (n + k) = Inr endpoint"
    and "split_host_port endpoint = Inr hp"
    and "is_windows w"
  shows "GetAvailableLocalNetworkAddress w network n = Some (Inr endpoint, Suc (n + k))"
  using assms(1,6) search_address_skips [OF assms(2)] search_address_takes [OF assms(3-5)]
  by (simp add: GetAvailableLocalNetworkAddress_def)

definition windows_net :: net where
  "windows_net =
     \<lparr>is_windows = True,
      netsh_tcp = Inr (''Start Port    End Port'' @ nl @ ''----------    --------'' @ nl @
        ''     50000       50059     *'' @ nl),
      netsh_udp = Inr (''Start Port    End Port'' @ nl @ ''----------    --------'' @ nl @ ''* - none''),
      free_addr = (\<lambda>network n. if n = 0 then Inr ''127.0.0.1:50012'' else Inr ''127.0.0.1:50100'')\<rparr>"

theorem GetAvailableLocalNetworkAddress_returns_witness:
  "GetAvailableLocalNetworkAddress windows_net ''tcp'' 0 = Some (Inr ''127.0.0.1:50100'', 2)"
proof -
  have ex: "getExclusionsList (netsh_tcp windows_net) (netsh_udp windows_net) =
      Inr [\<lparr>pp_first = ''50000'', pp_last = ''50059''\<rparr>]"
    by code_simp
  have skip: "skipped windows_net ''tcp'' [\<lparr>pp_first = ''50000'', pp_last = ''50059''\<rparr>] 0"
    "\<not> skipped windows_net ''tcp'' [\<lparr>pp_first = ''50000'', pp_last = ''50059''\<rparr>] 1"
    by code_simp+
  have rest: "findAvailableAddress windows_net ''tcp'' 1 = Inr ''127.0.0.1:50100''"
    "split_host_port ''127.0.0.1:50100'' = Inr (''127.0.0.1'', ''50100'')" "is_windows windows_net"
    by code_simp+
  have "GetAvailableLocalNetworkAddress windows_net ''tcp'' 0 = Some (Inr ''127.0.0.1:50100'', Suc (0 + 1))"
    by (rule GetAvailableLocalNetworkAddress_returns [OF ex]) (use skip rest in simp_all)
  then show ?thesis by simp
qed

text \<open>
  The text behind the first asterisk is cut off. In the system's output an asterisk marks a single
  range, so the ranges listed after a marked one are lost.
\<close>

lemma createExclusionsList_stops_at_mark:
  "createExclusionsList (''Start Port    End Port'' @ nl @ ''----------    --------'' @ nl @
     ''     50000       50059     *'' @ nl @ ''     60000       60010'' @ nl) =
   Inr [\<lparr>pp_first = ''50000'', pp_last = ''50059''\<rparr>]"
  by code_simp

text \<open>
  The ports are compared as strings. For ranges whose bounds have as many digits as the port this
  is the comparison of the numbers.
\<close>

theorem excluded_numeric:
  assumes "list_all is_digit port"
    and "\<And>p. p \<in> set ex \<Longrightarrow> list_all is_digit (pp_first p) \<and> list_all is_digit (pp_last p) \<and>
           length (pp_first p) = length port \<and> length (pp_last p) = length port"
  shows "excluded ex port \<longleftrightarrow>
           (\<exists>p \<in> set ex. digits_val (pp_first p) \<le> digits_val port \<and> digits_val port \<le> digits_val (pp_last p))"
proof -
  have "pp_first p \<le> port \<longleftrightarrow> digits_val (pp_first p) \<le> digits_val port"
    "port \<le> pp_last p \<longleftrightarrow> digits_val port \<le> digits_val (pp_last p)" if "p \<in> set ex" for p
    using assms(1) assms(2) [OF that] by (simp_all add: digits_order)
  then show ?thesis by (auto simp: excluded_def list_ex_iff)
qed

theorem excluded_numeric_witness:
  "excluded [\<lparr>pp_first = ''50000'', pp_last = ''50059''\<rparr>] ''50012'' \<longleftrightarrow>
     (\<exists>p \<in> set [\<lparr>pp_first = ''50000'', pp_last = ''50059''\<rparr>].
        digits_val (pp_first p) \<le> digits_val ''50012'' \<and> digits_val ''50012'' \<le> digits_val (pp_last p))"
  by (rule excluded_numeric) (simp_all add: is_digit_def)

text \<open>With a different number of digits it is not: a reserved port is taken as free.\<close>

lemma excluded_misses_port:
  "\<not> excluded [\<lparr>pp_first = ''9990'', pp_last = ''10089''\<rparr>] ''10000''"
  "digits_val ''9990'' \<le> digits_val ''10000'' \<and> digits_val ''10000'' \<le> digits_val ''10089''"
  by (simp_all add: excluded_def less_eq_list_code less_char_def less_eq_char_def digits_val_def digit_val_def)

text \<open>
  A random string has the length that was asked for and consists of characters of the charset; it
  fails for a negative length and when the random source does, with the error of the source.
\<close>

theorem GenerateRandomString_bounds:
  assumes "\<And>bound i v. draw bound i = Inr v \<Longrightarrow> v < bound"
  shows "case GenerateRandomString draw n of
           Inl err \<Rightarrow> (n < 0 \<and> err = err_makeslice) \<or> (\<exists>j. int j < n \<and> draw (length charset) j = Inl err)
         | Inr s \<Rightarrow> int (length s) = n \<and> set s \<subseteq> set charset"
proof (cases "n < 0")
  case False
  show ?thesis
  proof (cases "random_chars draw 0 (nat n)")
    case (Inl err)
    then obtain j where "j < nat n" "draw (length charset) j = Inl err"
      using random_chars_err [OF Inl] by auto
    with False Inl show ?thesis
      by (auto simp: GenerateRandomString_def intro!: exI [of _ j])
  next
    case (Inr s)
    have "s ! j \<in> set charset" if "j < nat n" for j
      using random_chars_ok [OF Inr] assms that by (metis add_0 nth_mem)
    with False Inr random_chars_ok [OF Inr] show ?thesis
      by (auto simp: GenerateRandomString_def in_set_conv_nth subset_iff)
  qed
qed (simp add: GenerateRandomString_def)

theorem GenerateRandomString_bounds_witness:
  "case GenerateRandomString (\<lambda>b i. if i < b then Inr i else Inl err_range) 3 of
     Inl err \<Rightarrow> ((3::int) < 0 \<and> err = err_makeslice) \<or>
       (\<exists>j. int j < 3 \<and> (if j < length charset then Inr j else Inl err_range) = Inl err)
   | Inr s \<Rightarrow> int (length s) = 3 \<and> set s \<subseteq> set charset"
  by (rule GenerateRandomString_bounds) (simp split: if_splits)

text \<open>
  The configuration of a load test lists exactly the caller's extensions and the profiler, and its
  section of extensions holds the text of each, whatever the order in which the runtime walks over a
  map, as long as it visits every entry once.
\<close>

theorem CreateLoadTestConfigYaml_extensions:
  assumes order: "map_of (order (ext(''pprof'' \<mapsto> pprof_config dir))) = ext(''pprof'' \<mapsto> pprof_config dir)"
      "distinct (map fst (order (ext(''pprof'' \<mapsto> pprof_config dir))))"
    and names: "\<And>name. name \<in> dom ext \<Longrightarrow> CHR '','' \<notin> set name"
  shows "\<exists>names sections a b c.
           fst (fst (CreateLoadTestConfigYaml order sender receiver dir processors (Some ext))) =
             a @ ''extensions:'' @ nl @ sections @ b @ ''extensions: ['' @ names @ '']'' @ c \<and>
           set (split_on names '','') = insert ''pprof'' (dom ext) \<and> distinct (split_on names '','') \<and>
           sublist (pprof_config dir) sections"
proof -
  let ?m = "ext(''pprof'' \<mapsto> pprof_config dir)"
  let ?ps = "order ?m"
  let ?names = "join (map fst ?ps) '',''" and ?sections = "concat (map (\<lambda>(name, cfg). cfg @ nl) ?ps)"
  have dom: "set (map fst ?ps) = insert ''pprof'' (dom ext)"
    using order(1) by (metis dom_map_of_conv_image_fst dom_fun_upd list.set_map option.distinct(1))
  then have "map fst ?ps \<noteq> []" by (metis insert_not_empty list.set(1))
  moreover have "CHR '','' \<notin> set x" if "x \<in> set (map fst ?ps)" for x
    using that names unfolding dom by auto
  ultimately have "split_on ?names '','' = map fst ?ps"
    by (intro split_on_join_char) (auto simp: list_all_iff)
  with dom order(2) have nm: "set (split_on ?names '','') = insert ''pprof'' (dom ext)"
    "distinct (split_on ?names '','')" by simp_all
  have "map_of ?ps ''pprof'' = Some (pprof_config dir)" using order(1) by simp
  then have "(''pprof'', pprof_config dir) \<in> set ?ps" by (rule map_of_SomeD)
  then have sec: "sublist (pprof_config dir) ?sections"
    by (auto dest!: split_list intro: sublist_appendI)
  have "fst (fst (CreateLoadTestConfigYaml order sender receiver dir processors (Some ext))) =
      (nl @ ''receivers:'' @ ds_config sender @ nl @ ''exporters:'' @ dr_config receiver @ nl @
       ''processors:'' @ nl @ fst (config_sections (order processors) [] [] True) @ nl @ nl) @
      ''extensions:'' @ nl @ ?sections @ (nl @ nl @ ''service:'' @ nl @ ''  '') @
      ''extensions: ['' @ ?names @ '']'' @
      (nl @ ''  pipelines:'' @ nl @ ''    '' @ fst (pipeline_of (ds_kind sender)) @ '':'' @ nl @
       ''      receivers: ['' @ ds_protocol sender @ '']'' @ nl @
       ''      processors: ['' @ snd (config_sections (order processors) [] [] True) @ '']'' @ nl @
       ''      exporters: ['' @ dr_protocol receiver @ '']'' @ nl)"
    by (simp add: CreateLoadTestConfigYaml_def CreateGeneralConfigYaml_def Let_def config_sections_eq
        case_prod_beta)
  with nm sec show ?thesis by metis
qed

theorem CreateLoadTestConfigYaml_extensions_witness:
  "\<exists>names sections a b c.
     fst (fst (CreateLoadTestConfigYaml (\<lambda>m. case m ''pprof'' of None \<Rightarrow> [] | Some v \<Rightarrow> [(''pprof'', v)])
       \<lparr>ds_kind = LogDataSender, ds_config = [], ds_protocol = ''otlp''\<rparr> \<lparr>dr_config = [], dr_protocol = ''otlp''\<rparr>
       ''out'' Map.empty (Some Map.empty))) =
       a @ ''extensions:'' @ nl @ sections @ b @ ''extensions: ['' @ names @ '']'' @ c \<and>
     set (split_on names '','') = insert ''pprof'' (dom (Map.empty :: string \<rightharpoonup> string)) \<and> distinct (split_on names '','') \<and>
     sublist (pprof_config ''out'') sections"
  by (rule CreateLoadTestConfigYaml_extensions) auto

end
