(* ===== verification/Load_Scenarios.thy ===== *)
theory Load_Scenarios
  imports Collector_Config "HOL-Library.Word"
begin

text \<open>
  The scenarios of the test bed: the sender that stands for several scraped hosts
  (\<^verbatim>\<open>load/tests/datasenders/prometheus.go\<close>), the load tests (\<^verbatim>\<open>load/tests/scenarios.go\<close>) and the test of a
  filtering configuration (\<^verbatim>\<open>integration/filtering_scenario.go\<close>). The test bed itself belongs to the
  Collector: a scenario is the sequence of what it asks of it, and what happens when the test ends.
\<close>

section \<open>A sender for several hosts\<close>

text \<open>What one Prometheus sender does, over its state.\<close>

record ('m, 's) metric_sender =
  ms_new :: "string \<Rightarrow> int \<Rightarrow> 's"
  ms_start :: "'s \<Rightarrow> 's \<times> go_error option"
  ms_flush :: "'s \<Rightarrow> 's"
  ms_config :: "'s \<Rightarrow> string"
  ms_protocol :: "'s \<Rightarrow> string"
  ms_consume :: "'m \<Rightarrow> 's \<Rightarrow> 's \<times> go_error option"

definition NewMultiHostPrometheusDataSender :: "('m, 's) metric_sender \<Rightarrow> string \<Rightarrow> int list \<Rightarrow> 's list" where
  "NewMultiHostPrometheusDataSender p host ports = map (ms_new p host) ports"

text \<open>The loops that end at the first error.\<close>

fun each_until :: "('s \<Rightarrow> 's \<times> go_error option) \<Rightarrow> 's list \<Rightarrow> 's list \<times> go_error option" where
  "each_until f [] = ([], None)"
| "each_until f (s # ss) =
     (case f s of
        (s, Some err) \<Rightarrow> (s # ss, Some err)
      | (s, None) \<Rightarrow> (case each_until f ss of (ss, e) \<Rightarrow> (s # ss, e)))"

definition multi_Start :: "('m, 's) metric_sender \<Rightarrow> 's list \<Rightarrow> 's list \<times> go_error option" where
  "multi_Start p m = each_until (ms_start p) m"

definition multi_Flush :: "('m, 's) metric_sender \<Rightarrow> 's list \<Rightarrow> 's list" where
  "multi_Flush p m = map (ms_flush p) m"

definition multi_ConsumeMetrics :: "('m, 's) metric_sender \<Rightarrow> 'm \<Rightarrow> 's list \<Rightarrow> 's list \<times> go_error option" where
  "multi_ConsumeMetrics p md m = each_until (ms_consume p md) m"

definition quote :: string where
  "quote = [CHR 0x27]"

definition getIndexedPrometheusReceiverConfig :: "string \<Rightarrow> nat \<Rightarrow> string" where
  "getIndexedPrometheusReceiverConfig config i =
     (let config = replace_first config ''prometheus:'' (''prometheus/'' @ show_nat i @ '':'')
      in replace_first config (''- job_name: 'testbed'' @ quote) (''- job_name: 'testbed-'' @ show_nat i @ quote))"

fun gen_config :: "('m, 's) metric_sender \<Rightarrow> nat \<Rightarrow> 's list \<Rightarrow> string" where
  "gen_config p i [] = []"
| "gen_config p i (prom # m) = getIndexedPrometheusReceiverConfig (ms_config p prom) i @ gen_config p (Suc i) m"

definition multi_GenConfigYAMLStr :: "('m, 's) metric_sender \<Rightarrow> 's list \<Rightarrow> string" where
  "multi_GenConfigYAMLStr p m = gen_config p 0 m"

fun protocol_names :: "('m, 's) metric_sender \<Rightarrow> nat \<Rightarrow> nat \<Rightarrow> 's list \<Rightarrow> string" where
  "protocol_names p len i [] = []"
| "protocol_names p len i (prom # m) =
     (if int i < int len - 1 then ms_protocol p prom @ ''/'' @ show_nat i @ '',''
      else ms_protocol p prom @ ''/'' @ show_nat i)
     @ protocol_names p len (Suc i) m"

definition multi_ProtocolName :: "('m, 's) metric_sender \<Rightarrow> 's list \<Rightarrow> string" where
  "multi_ProtocolName p m = protocol_names p (length m) 0 m"

section \<open>Random attributes\<close>

text \<open>
  The source of random numbers gives the \<open>n\<close>-th draw below a bound; a bound that is not positive is
  a panic, \<open>None\<close>. The number of draws so far is passed through.
\<close>

definition intn :: "(nat \<Rightarrow> nat \<Rightarrow> nat) \<Rightarrow> int \<Rightarrow> nat \<Rightarrow> (nat \<times> nat) option" where
  "intn draw bound n = (if bound \<le> 0 then None else Some (draw n (nat bound), Suc n))"

fun genRandByteString :: "(nat \<Rightarrow> nat \<Rightarrow> nat) \<Rightarrow> nat \<Rightarrow> nat \<Rightarrow> string \<times> nat" where
  "genRandByteString draw 0 n = ([], n)"
| "genRandByteString draw (Suc len) n =
     (let (s, k) = genRandByteString draw len (Suc n) in (char_of (draw n 128) # s, k))"

record ExtendedLoadOptions =
  attrCount :: int
  attrSizeByte :: int
  attrKeySizeByte :: int
  numberOfMetrics :: int
  scrapeIntervalMilliSeconds :: int
  lo_Attributes :: "string \<rightharpoonup> string"

fun attributes_loop ::
  "(nat \<Rightarrow> nat \<Rightarrow> nat) \<Rightarrow> int \<Rightarrow> int \<Rightarrow> nat \<Rightarrow> nat \<Rightarrow> (string \<rightharpoonup> string) \<Rightarrow> ((string \<rightharpoonup> string) \<times> nat) option" where
  "attributes_loop draw keySize valSize 0 n m = Some (m, n)"
| "attributes_loop draw keySize valSize (Suc k) n m =
     (case intn draw (keySize * 2 - 1) n of
        None \<Rightarrow> None
      | Some (l, n) \<Rightarrow>
          (let (attrName, n) = genRandByteString draw (l + 1) n
           in (case intn draw (valSize * 2 - 1) n of
                 None \<Rightarrow> None
               | Some (l, n) \<Rightarrow>
                   (let (v, n) = genRandByteString draw (l + 1) n
                    in attributes_loop draw keySize valSize k n (m(attrName \<mapsto> v))))))"

definition constructAttributes ::
  "(nat \<Rightarrow> nat \<Rightarrow> nat) \<Rightarrow> ExtendedLoadOptions \<Rightarrow> nat \<Rightarrow> (ExtendedLoadOptions \<times> nat) option" where
  "constructAttributes draw opts n =
     map_option (\<lambda>(m, n). (opts\<lparr>lo_Attributes := m\<rparr>, n))
       (attributes_loop draw (attrKeySizeByte opts) (attrSizeByte opts) (nat (attrCount opts)) n Map.empty)"

section \<open>Validators\<close>

text \<open>
  Recording the results may panic, \<open>None\<close>: the wrapper recovers and only logs. A validator that is
  asked for a missing test case does nothing.
\<close>

definition safe_Validate :: "('tc \<Rightarrow> 'r option) \<Rightarrow> 'tc \<Rightarrow> 'r option" where
  "safe_Validate inner tc = inner tc"

datatype 'r recorded = Skipped | Recorded 'r | Recovered string

definition safe_RecordResults :: "('tc \<Rightarrow> 'r option) \<Rightarrow> 'tc option \<Rightarrow> 'r recorded" where
  "safe_RecordResults inner tc =
     (case tc of
        None \<Rightarrow> Skipped
      | Some tc \<Rightarrow>
          (case inner tc of
             None \<Rightarrow> Recovered ''RecordResults skipped due to panic (agent likely never started): %v''
           | Some r \<Rightarrow> Recorded r))"

definition simple_Validate :: "'tc \<Rightarrow> unit" where
  "simple_Validate tc = ()"

definition simple_RecordResults :: "('tc \<Rightarrow> 'r option) \<Rightarrow> 'tc \<Rightarrow> 'r option" where
  "simple_RecordResults perf tc = perf tc"

section \<open>Scenarios\<close>

datatype tc_event =
    PrepareConfig string
  | CleanConfig
  | NewTestCase "string \<rightharpoonup> string"
  | EnableRecording
  | StartBackend
  | SenderStart
  | GenerateMetrics
  | StartAgent
  | StartLoad
  | WaitFor string
  | Sleep
  | StopLoad
  | StopAgent
  | IncDataItemsSent
  | ValidateData
  | StopTestCase
  | Failed go_error

text \<open>
  What the test bed answers: whether the results directory has a path and the configuration can be
  written, whether the sender starts, the two type assertions, and the counters. A wait that runs
  out of time is reported and the scenario goes on.
\<close>

record bed =
  result_dir :: "string result"
  prepare :: "string \<Rightarrow> go_error option"
  start_sender :: "go_error option"
  is_provider_sender :: bool
  is_metric_sender :: bool
  sent :: "64 word"
  received :: "64 word"

text \<open>\<^verbatim>\<open>defer\<close> runs when the scenario returns, the function of \<^verbatim>\<open>t.Cleanup\<close> when the test ends.\<close>

definition GenericScenario ::
  "bed \<Rightarrow> (nat \<Rightarrow> nat \<Rightarrow> nat) \<Rightarrow> map_order \<Rightarrow> data_sender \<Rightarrow> data_receiver \<Rightarrow> (string \<rightharpoonup> string) \<Rightarrow>
   (string \<rightharpoonup> string) option \<Rightarrow> ExtendedLoadOptions \<Rightarrow> tc_event list option" where
  "GenericScenario b draw order sender receiver processors extensions opts =
     (case result_dir b of
        Inl err \<Rightarrow> Some [Failed err]
      | Inr resultDir \<Rightarrow>
          (case constructAttributes draw opts 0 of
             None \<Rightarrow> None
           | Some (opts, _) \<Rightarrow>
               (let ((configStr, errs), ext) =
                      CreateLoadTestConfigYaml order sender receiver resultDir processors extensions;
                    reported = map (\<lambda>e. Failed (Errorf e [])) errs
                in (case prepare b configStr of
                      Some err \<Rightarrow> Some (reported @ [Failed err])
                    | None \<Rightarrow>
                        Some (reported @ [PrepareConfig configStr, NewTestCase (lo_Attributes opts), StartBackend, StartAgent, StartLoad,
                          WaitFor ''load generator started'', Sleep, StopLoad, WaitFor ''all data items received'',
                          ValidateData] @ [CleanConfig] @ [StopTestCase])))))"

lemma unat_step: "i < (n :: 64 word) \<Longrightarrow> unat (i + 1) = Suc (unat i)"
proof -
  assume l: "i < n"
  then have "i + 1 \<noteq> 0" using max_word_wrap [of i] word_order.extremum_strict [of n] by auto
  then show ?thesis by (metis add.commute unatSuc)
qed

text \<open>
  The scraped senders: their metrics are generated before the agent starts. The counter of sent
  items is raised until it has reached the number of received ones, which no longer changes.
\<close>

function inc_loop :: "64 word \<Rightarrow> 64 word \<Rightarrow> tc_event list" where
  "inc_loop i r = (if i < r then IncDataItemsSent # inc_loop (i + 1) r else [])"
  by pat_completeness auto

termination
  by (relation "measure (\<lambda>(i, r). unat r - unat i)") (auto simp: unat_step word_less_nat_alt)

declare inc_loop.simps [simp del]

text \<open>The counter after a sequence of events.\<close>

fun items_sent :: "64 word \<Rightarrow> tc_event list \<Rightarrow> 64 word" where
  "items_sent n [] = n"
| "items_sent n (e # es) = items_sent (if e \<in> {GenerateMetrics, IncDataItemsSent} then n + 1 else n) es"

definition pull_steps :: "bed \<Rightarrow> ExtendedLoadOptions \<Rightarrow> tc_event list" where
  "pull_steps b opts =
     (case start_sender b of
        Some err \<Rightarrow> [SenderStart, Failed err]
      | None \<Rightarrow>
          if \<not> is_provider_sender b then [SenderStart, Failed (Errorf ''Should be true'' [])]
          else if \<not> is_metric_sender b then [SenderStart, Failed (Errorf ''Should be true'' [])]
          else let generated = SenderStart # replicate (nat (numberOfMetrics opts)) GenerateMetrics
               in generated @
                  [StartAgent, Sleep, StopLoad, WaitFor ''all data items received'', StopAgent] @
                  inc_loop (items_sent (sent b) generated) (received b) @ [ValidateData])"

definition PullBasedSenderScenario ::
  "bed \<Rightarrow> map_order \<Rightarrow> data_sender \<Rightarrow> data_receiver \<Rightarrow> (string \<rightharpoonup> string) \<Rightarrow>
   (string \<rightharpoonup> string) option \<Rightarrow> ExtendedLoadOptions \<Rightarrow> tc_event list" where
  "PullBasedSenderScenario b order sender receiver processors extensions opts =
     (case result_dir b of
        Inl err \<Rightarrow> [Failed err]
      | Inr resultDir \<Rightarrow>
          (let ((configStr, errs), ext) = CreateLoadTestConfigYaml order sender receiver resultDir processors extensions;
               configStr = replace_first configStr ''scrape_interval: 100ms''
                 (''scrape_interval: '' @ itoa (scrapeIntervalMilliSeconds opts) @ ''ms'');
               reported = map (\<lambda>e. Failed (Errorf e [])) errs
           in (case prepare b configStr of
                 Some err \<Rightarrow> reported @ [Failed err]
               | None \<Rightarrow>
                   reported @ [PrepareConfig configStr, NewTestCase (lo_Attributes opts), StartBackend] @
                   pull_steps b opts @ [CleanConfig] @ [StopTestCase])))"

definition ConfigExamplesDir :: string where
  "ConfigExamplesDir = ''../../../config_examples''"

text \<open>
  The test of a filtering configuration: both clean-up functions run at the end of the test, the
  last one registered first. \<open>None\<close> when no free port is found.
\<close>

definition FilteringScenario :: "os \<Rightarrow> net \<Rightarrow> bed \<Rightarrow> string \<Rightarrow> tc_event list option" where
  "FilteringScenario w nw b configName =
     (case read_file w (path_join ConfigExamplesDir configName) of
        Inl err \<Rightarrow> Some [Failed err]
      | Inr cfg \<Rightarrow>
          (case GetAvailablePort nw 0 of
             None \<Rightarrow> None
           | Some (Inl err, _) \<Rightarrow> Some [Failed err]
           | Some (Inr receiverPort, n) \<Rightarrow>
               (case GetAvailablePort nw n of
                  None \<Rightarrow> None
                | Some (Inl err, _) \<Rightarrow> Some [Failed err]
                | Some (Inr exporterPort, _) \<Rightarrow>
                    (let parsedConfig = ReplaceOtlpGrpcReceiverPort cfg receiverPort;
                         parsedConfig = ReplaceDynatraceExporterEndpoint parsedConfig exporterPort
                     in (case prepare b parsedConfig of
                           Some err \<Rightarrow> Some [Failed err]
                         | None \<Rightarrow>
                             Some ([PrepareConfig parsedConfig, NewTestCase Map.empty, EnableRecording, StartBackend,
                               StartAgent, StartLoad, Sleep, StopLoad, WaitFor ''all data items received'', ValidateData]
                               @ [StopTestCase, CleanConfig]))))))"

section \<open>Lemmas\<close>

lemma each_until_ok:
  "snd (each_until f ss) = None \<longleftrightarrow> list_all (\<lambda>s. snd (f s) = None) ss"
  "snd (each_until f ss) = None \<Longrightarrow> fst (each_until f ss) = map (fst \<circ> f) ss"
  by (induction ss) (auto split: prod.splits option.splits)

lemma each_until_fails:
  "each_until f ss = (ss', Some err) \<longleftrightarrow>
     (\<exists>before s after. ss = before @ s # after \<and> list_all (\<lambda>s. snd (f s) = None) before \<and>
        snd (f s) = Some err \<and> ss' = map (fst \<circ> f) before @ fst (f s) # after)"
proof (induction ss arbitrary: ss')
  case (Cons s ss)
  obtain t e where f: "f s = (t, e)" by fastforce
  show ?case
  proof (cases e)
    case None
    obtain u e' where u: "each_until f ss = (u, e')" by fastforce
    have "each_until f (s # ss) = (ss', Some err) \<longleftrightarrow> (\<exists>v. each_until f ss = (v, Some err) \<and> ss' = t # v)"
      using f None u by auto
    also have "\<dots> \<longleftrightarrow> (\<exists>before x after. s # ss = before @ x # after \<and> list_all (\<lambda>s. snd (f s) = None) before \<and>
        snd (f x) = Some err \<and> ss' = map (fst \<circ> f) before @ fst (f x) # after)" (is "?l \<longleftrightarrow> ?r")
    proof
      assume ?l
      then obtain v before x after where "ss = before @ x # after" "list_all (\<lambda>s. snd (f s) = None) before"
        "snd (f x) = Some err" "ss' = t # map (fst \<circ> f) before @ fst (f x) # after"
        using Cons.IH by blast
      with f None show ?r by (intro exI [of _ "s # before"]) auto
    next
      assume ?r
      then obtain before x after where x: "s # ss = before @ x # after" "list_all (\<lambda>s. snd (f s) = None) before"
        "snd (f x) = Some err" "ss' = map (fst \<circ> f) before @ fst (f x) # after" by blast
      with f None obtain b where b: "before = s # b" by (cases before) auto
      with x have "each_until f ss = (map (fst \<circ> f) b @ fst (f x) # after, Some err)"
        by (intro Cons.IH [THEN iffD2] exI [of _ b] exI [of _ x] exI [of _ after]) auto
      with b x f show ?l
        by (intro exI [of _ "map (fst \<circ> f) b @ fst (f x) # after"] conjI) simp_all
    qed
    finally show ?thesis .
  next
    case (Some e')
    have "each_until f (s # ss) = (ss', Some err) \<longleftrightarrow> e' = err \<and> ss' = t # ss"
      using f Some by auto
    also have "\<dots> \<longleftrightarrow> (\<exists>before x after. s # ss = before @ x # after \<and> list_all (\<lambda>s. snd (f s) = None) before \<and>
        snd (f x) = Some err \<and> ss' = map (fst \<circ> f) before @ fst (f x) # after)" (is "?l \<longleftrightarrow> ?r")
    proof
      assume ?l
      with f Some show ?r by (intro exI [of _ "[]"] exI [of _ s] exI [of _ ss]) simp
    next
      assume ?r
      then obtain before x after where "s # ss = before @ x # after" "list_all (\<lambda>s. snd (f s) = None) before"
        "snd (f x) = Some err" "ss' = map (fst \<circ> f) before @ fst (f x) # after" by blast
      with f Some show ?l by (cases before) auto
    qed
    finally show ?thesis .
  qed
qed simp

lemma protocol_names_join:
  "i + length m = len \<Longrightarrow>
   protocol_names p len i m = join (map (\<lambda>(j, s). ms_protocol p s @ ''/'' @ show_nat j) (enumerate i m)) '',''"
proof (induction m arbitrary: i)
  case (Cons s m)
  then have "protocol_names p len (Suc i) m =
      join (map (\<lambda>(j, s). ms_protocol p s @ ''/'' @ show_nat j) (enumerate (Suc i) m)) '',''"
    by simp
  with Cons.prems show ?case by (cases m) (auto simp: join_Cons)
qed simp

text \<open>Replacing a text that shares no first letter with another one leaves the latter in place.\<close>

lemma sublist_replace_first:
  assumes "sublist p c" and "p \<noteq> []" and "q \<noteq> []" and "hd p \<notin> set q" and "hd q \<notin> set p"
  shows "sublist p (replace_first c q new)"
proof (cases "index_of c q")
  case None
  with assms(1) show ?thesis by (simp add: replace_first_def)
next
  case (Some i)
  define a where "a = take i c"
  define b where "b = drop (i + length q) c"
  have c: "c = a @ q @ b" and r: "replace_first c q new = a @ new @ b"
    using index_of_SomeD [OF Some] Some by (simp_all add: a_def b_def replace_first_def)
  from assms(1) obtain u v where u: "c = u @ p @ v" by (auto simp: sublist_def)
  consider "length u + length p \<le> length a" | "length a + length q \<le> length u"
    | "length a \<le> length u" "length u < length a + length q"
    | "length u \<le> length a" "length a < length u + length p" by linarith
  then show ?thesis
  proof cases
    case 1
    then have "take (length u + length p) c = take (length u + length p) a" by (simp add: c)
    then have "u @ p = take (length u + length p) a" by (simp add: u)
    then have "a = u @ p @ drop (length u + length p) a" by (metis append.assoc append_take_drop_id)
    then have "replace_first c q new = u @ p @ (drop (length u + length p) a @ new @ b)"
      unfolding r by (metis append.assoc)
    then show ?thesis by (metis sublist_appendI)
  next
    case 2
    then have "drop (length a + length q) c = drop (length a + length q) u @ p @ v" by (simp add: u)
    then have "b = drop (length a + length q) u @ p @ v" by (simp add: c)
    then have "replace_first c q new = (a @ new @ drop (length a + length q) u) @ p @ v" by (simp add: r)
    then show ?thesis by (metis sublist_appendI)
  next
    case 3
    have "c ! length u = hd p" using assms(2) by (simp add: u nth_append hd_conv_nth)
    moreover have "c ! length u = q ! (length u - length a)"
      using 3 less_diff_conv2 [of "length a" "length u" "length q"] by (simp add: c nth_append add.commute)
    moreover have "q ! (length u - length a) \<in> set q" using 3 by simp
    ultimately show ?thesis using assms(4) by simp
  next
    case 4
    have "c ! length a = hd q" using assms(3) by (simp add: c nth_append hd_conv_nth)
    moreover have "c ! length a = p ! (length a - length u)"
      using 4 less_diff_conv2 [of "length u" "length a" "length p"] by (simp add: u nth_append add.commute)
    moreover have "p ! (length a - length u) \<in> set p" using 4 by simp
    ultimately show ?thesis using assms(5) by simp
  qed
qed

lemma show_nat_no_dash: "CHR ''-'' \<notin> set (show_nat n)"
  using show_nat_digits [of n] by (auto simp: list_all_iff is_digit_def)

lemma gen_config_lists:
  assumes "\<And>s. s \<in> set m \<Longrightarrow> sublist ''prometheus:'' (ms_config p s)"
    and "j < length m"
  shows "sublist (''prometheus/'' @ show_nat (i + j) @ '':'') (gen_config p i m)"
  using assms
proof (induction m arbitrary: i j)
  case (Cons s m)
  show ?case
  proof (cases j)
    case 0
    have "index_of (ms_config p s) ''prometheus:'' \<noteq> None"
      using Cons.prems(1) by (simp add: index_of_None_iff)
    then obtain k where k: "index_of (ms_config p s) ''prometheus:'' = Some k" by blast
    then have "sublist (''prometheus/'' @ show_nat i @ '':'')
        (replace_first (ms_config p s) ''prometheus:'' (''prometheus/'' @ show_nat i @ '':''))"
      by (simp only: replace_first_def option.case) (rule sublist_appendI)
    then have "sublist (''prometheus/'' @ show_nat i @ '':'') (getIndexedPrometheusReceiverConfig (ms_config p s) i)"
      unfolding getIndexedPrometheusReceiverConfig_def Let_def
      by (rule sublist_replace_first) (simp_all add: show_nat_no_dash quote_def)
    with 0 show ?thesis by (simp add: sublist_append)
  next
    case (Suc j')
    with Cons.IH [of j' "Suc i"] Cons.prems show ?thesis by (simp add: sublist_append)
  qed
qed simp

lemma items_sent_append [simp]: "items_sent n (xs @ ys) = items_sent (items_sent n xs) ys"
  by (induction xs arbitrary: n) auto

lemma items_sent_generate: "items_sent n (replicate k GenerateMetrics) = n + of_nat k"
  by (induction k arbitrary: n) auto

text \<open>The loop raises the counter to the number of received items and never above it.\<close>

lemma items_sent_inc: "items_sent i (inc_loop i r) = (if i < r then r else i)"
proof (induction i r rule: inc_loop.induct)
  case (1 i r)
  show ?case
  proof (cases "i < r")
    case True
    then have "i + 1 < r \<or> i + 1 = r" using inc_le [OF True] by auto
    with True 1 show ?thesis by (subst inc_loop.simps) auto
  next
    case False
    then show ?thesis by (subst inc_loop.simps) simp
  qed
qed

section \<open>Properties\<close>

text \<open>
  The scraped senders are wired consistently: the pipeline names one receiver per host, with the
  protocol of the host and its position, in order, and the configuration has the key of every one of
  them, whenever each host's own part has the key \<^verbatim>\<open>prometheus:\<close>.
\<close>

theorem multi_host_names_agree:
  assumes "\<And>s. s \<in> set m \<Longrightarrow> ms_protocol p s = ''prometheus''"
    and "\<And>s. s \<in> set m \<Longrightarrow> sublist ''prometheus:'' (ms_config p s)"
    and "m \<noteq> []"
  shows "split_on (multi_ProtocolName p m) '','' = map (\<lambda>j. ''prometheus/'' @ show_nat j) [0..<length m] \<and>
    list_all (\<lambda>name. sublist (name @ '':'') (multi_GenConfigYAMLStr p m)) (split_on (multi_ProtocolName p m) '','')"
proof -
  let ?names = "map (\<lambda>j. ''prometheus/'' @ show_nat j) [0..<length m]"
  have "map (\<lambda>(j, s). ms_protocol p s @ ''/'' @ show_nat j) (enumerate 0 m) = ?names"
    using assms(1) by (intro nth_equalityI) (simp_all add: nth_enumerate_eq)
  then have "multi_ProtocolName p m = join ?names '',''"
    using protocol_names_join [of 0 m "length m" p] by (simp add: multi_ProtocolName_def)
  moreover have "CHR '','' \<notin> set (show_nat j)" for j
    using show_nat_digits [of j] by (auto simp: list_all_iff is_digit_def)
  ultimately have names: "split_on (multi_ProtocolName p m) '','' = ?names"
    using assms(3) by (simp add: split_on_join_char list_all_iff)
  have "sublist (name @ '':'') (multi_GenConfigYAMLStr p m)" if "name \<in> set ?names" for name
    using that gen_config_lists [of m p _ 0] assms(2) by (auto simp: multi_GenConfigYAMLStr_def)
  with names show ?thesis by (simp add: list_all_iff)
qed

text \<open>
  Metrics are offered to the hosts in order until one refuses them: an error means that some host gave
  it, all hosts before it accepted the metrics and no host behind it was asked.
\<close>

theorem multi_ConsumeMetrics_outcome:
  "multi_ConsumeMetrics p md m = (m', Some err) \<longleftrightarrow>
     (\<exists>before s after. m = before @ s # after \<and> list_all (\<lambda>s. snd (ms_consume p md s) = None) before \<and>
        snd (ms_consume p md s) = Some err \<and>
        m' = map (fst \<circ> ms_consume p md) before @ fst (ms_consume p md s) # after)"
  unfolding multi_ConsumeMetrics_def by (rule each_until_fails)

text \<open>
  C40: in the scraping scenario the counters agree when the data are validated: the number of sent items is
  the number of received ones, unless more were generated than received. Nothing is sent after the
  validation, and the configuration is removed and the test case stopped at the end.
\<close>

theorem PullBasedSenderScenario_counts:
  assumes "result_dir b = Inr dir" and "ds_kind sender \<noteq> OtherDataSender"
    and "\<And>cfg. prepare b cfg = None" and "start_sender b = None"
    and "is_provider_sender b" and "is_metric_sender b"
  shows "\<exists>before. PullBasedSenderScenario b order sender receiver processors extensions opts =
      before @ [ValidateData, CleanConfig, StopTestCase] \<and>
    items_sent (sent b) before = max (sent b + of_nat (nat (numberOfMetrics opts))) (received b)"
proof -
  let ?n = "sent b + of_nat (nat (numberOfMetrics opts))"
  have errs: "snd (fst (CreateLoadTestConfigYaml order sender receiver dir processors extensions)) = []"
    using assms(2) by (cases "ds_kind sender")
      (simp_all add: CreateLoadTestConfigYaml_def CreateGeneralConfigYaml_def Let_def pipeline_of_def case_prod_unfold)
  have steps: "pull_steps b opts =
      SenderStart # replicate (nat (numberOfMetrics opts)) GenerateMetrics @
      [StartAgent, Sleep, StopLoad, WaitFor ''all data items received'', StopAgent] @
      inc_loop ?n (received b) @ [ValidateData]"
    using assms(4-6) by (simp add: pull_steps_def Let_def items_sent_generate)
  have mx: "(if ?n < received b then received b else ?n) = max ?n (received b)"
    by (metis max.absorb1 max.absorb2 not_le order.strict_implies_order)
  obtain cfg where "PullBasedSenderScenario b order sender receiver processors extensions opts =
      [PrepareConfig cfg, NewTestCase (lo_Attributes opts), StartBackend] @ pull_steps b opts @ [CleanConfig] @ [StopTestCase]"
    using assms(1,3) errs
    by (simp add: PullBasedSenderScenario_def Let_def case_prod_unfold)
  then have "PullBasedSenderScenario b order sender receiver processors extensions opts =
      ([PrepareConfig cfg, NewTestCase (lo_Attributes opts), StartBackend, SenderStart] @
       replicate (nat (numberOfMetrics opts)) GenerateMetrics @
       [StartAgent, Sleep, StopLoad, WaitFor ''all data items received'', StopAgent] @
       inc_loop ?n (received b)) @ [ValidateData, CleanConfig, StopTestCase]"
    by (simp add: steps)
  moreover have "items_sent (sent b) ([PrepareConfig cfg, NewTestCase (lo_Attributes opts), StartBackend, SenderStart] @
       replicate (nat (numberOfMetrics opts)) GenerateMetrics @
       [StartAgent, Sleep, StopLoad, WaitFor ''all data items received'', StopAgent] @
       inc_loop ?n (received b)) = max ?n (received b)"
    by (simp add: items_sent_generate items_sent_inc mx)
  ultimately show ?thesis by blast
qed

definition ready_bed :: bed where
  "ready_bed = \<lparr>result_dir = Inr ''results'', prepare = (\<lambda>_. None), start_sender = None,
     is_provider_sender = True, is_metric_sender = True, sent = 0, received = 12\<rparr>"

theorem PullBasedSenderScenario_counts_witness:
  "\<exists>before. PullBasedSenderScenario ready_bed (\<lambda>_. []) \<lparr>ds_kind = MetricDataSender, ds_config = [], ds_protocol = ''p''\<rparr>
      \<lparr>dr_config = [], dr_protocol = ''otlp''\<rparr> Map.empty None
      \<lparr>attrCount = 0, attrSizeByte = 0, attrKeySizeByte = 0, numberOfMetrics = 5, scrapeIntervalMilliSeconds = 10,
       lo_Attributes = Map.empty\<rparr> = before @ [ValidateData, CleanConfig, StopTestCase] \<and>
    items_sent 0 before = 12"
  using PullBasedSenderScenario_counts [of ready_bed "''results''"
      "\<lparr>ds_kind = MetricDataSender, ds_config = [], ds_protocol = ''p''\<rparr>" "\<lambda>_. []" "\<lparr>dr_config = [], dr_protocol = ''otlp''\<rparr>"
      Map.empty None "\<lparr>attrCount = 0, attrSizeByte = 0, attrKeySizeByte = 0, numberOfMetrics = 5,
       scrapeIntervalMilliSeconds = 10, lo_Attributes = Map.empty\<rparr>"]
  by (simp add: ready_bed_def max_def)

definition plain_prometheus :: "(unit, int) metric_sender" where
  "plain_prometheus = \<lparr>ms_new = (\<lambda>host port. port), ms_start = (\<lambda>s. (s, None)), ms_flush = id,
     ms_config = (\<lambda>s. nl @ ''  prometheus:'' @ nl), ms_protocol = (\<lambda>s. ''prometheus''),
     ms_consume = (\<lambda>m s. (s, None))\<rparr>"

theorem multi_host_names_agree_witness:
  "split_on (multi_ProtocolName plain_prometheus [9001, 9002]) '','' =
     map (\<lambda>j. ''prometheus/'' @ show_nat j) [0..<length [9001::int, 9002]] \<and>
   list_all (\<lambda>name. sublist (name @ '':'') (multi_GenConfigYAMLStr plain_prometheus [9001, 9002]))
     (split_on (multi_ProtocolName plain_prometheus [9001, 9002]) '','')"
proof (rule multi_host_names_agree)
  show "sublist ''prometheus:'' (ms_config plain_prometheus s)" for s
    using sublist_appendI [of "''prometheus:''" "nl @ ''  ''" nl] by (simp add: plain_prometheus_def)
qed (simp_all add: plain_prometheus_def)

lemma genRand_length: "length (fst (genRandByteString draw len n)) = len"
  by (induction draw len n rule: genRandByteString.induct) (auto simp: Let_def split: prod.splits)

definition sized :: "int \<Rightarrow> int \<Rightarrow> string \<times> string \<Rightarrow> bool" where
  "sized keySize valSize kv \<longleftrightarrow>
     fst kv \<noteq> [] \<and> int (length (fst kv)) < 2 * keySize \<and> snd kv \<noteq> [] \<and> int (length (snd kv)) < 2 * valSize"

text \<open>What the random source promises.\<close>

definition draws_below :: "(nat \<Rightarrow> nat \<Rightarrow> nat) \<Rightarrow> bool" where
  "draws_below draw \<longleftrightarrow> (\<forall>n bound. 0 < bound \<longrightarrow> draw n bound < bound)"

lemma intn_length:
  assumes "draws_below draw" and "0 < sz"
  shows "\<exists>l. intn draw (sz * 2 - 1) n = Some (l, Suc n) \<and> int (l + 1) < 2 * sz"
proof -
  have "draw n (nat (sz * 2 - 1)) < nat (sz * 2 - 1)" using assms by (simp add: draws_below_def)
  then show ?thesis using assms(2) by (auto simp: intn_def)
qed

lemma attributes_loop_sized:
  assumes draw: "draws_below draw" and size: "0 < keySize" "0 < valSize"
  shows "finite (dom m) \<Longrightarrow> (\<forall>a v. m a = Some v \<longrightarrow> sized keySize valSize (a, v)) \<Longrightarrow>
    \<exists>m' n'. attributes_loop draw keySize valSize k n m = Some (m', n') \<and> finite (dom m') \<and>
      card (dom m') \<le> card (dom m) + k \<and> (\<forall>a v. m' a = Some v \<longrightarrow> sized keySize valSize (a, v))"
proof (induction k arbitrary: n m)
  case (Suc k)
  obtain l where l: "intn draw (keySize * 2 - 1) n = Some (l, Suc n)" "int (l + 1) < 2 * keySize"
    using intn_length [OF draw size(1)] by blast
  obtain a n1 where a: "genRandByteString draw (l + 1) (Suc n) = (a, n1)" by fastforce
  obtain l' where l': "intn draw (valSize * 2 - 1) n1 = Some (l', Suc n1)" "int (l' + 1) < 2 * valSize"
    using intn_length [OF draw size(2)] by blast
  obtain v n2 where v: "genRandByteString draw (l' + 1) (Suc n1) = (v, n2)" by fastforce
  have len: "length a = l + 1" "length v = l' + 1"
    using genRand_length [of draw "l + 1" "Suc n"] genRand_length [of draw "l' + 1" "Suc n1"] a v by simp_all
  then have "sized keySize valSize (a, v)" using l(2) l'(2) by (auto simp: sized_def)
  with Suc.prems have "\<forall>b w. (m(a \<mapsto> v)) b = Some w \<longrightarrow> sized keySize valSize (b, w)" by auto
  moreover have "finite (dom (m(a \<mapsto> v)))" using Suc.prems by simp
  ultimately obtain m' n' where m': "attributes_loop draw keySize valSize k n2 (m(a \<mapsto> v)) = Some (m', n')"
    "finite (dom m')" "card (dom m') \<le> card (dom (m(a \<mapsto> v))) + k"
    "\<forall>b w. m' b = Some w \<longrightarrow> sized keySize valSize (b, w)"
    using Suc.IH by blast
  have "card (dom (m(a \<mapsto> v))) \<le> Suc (card (dom m))"
    using Suc.prems(1) by (simp add: card_insert_if)
  with m' l l' a v show ?case by auto
qed auto

text \<open>
  Generated attributes stay within what was asked for: at most as many as asked, each with a name and a
  value of at least one byte and fewer than twice their size, when both sizes are positive.
\<close>

theorem constructAttributes_bounds:
  assumes "draws_below draw" and "0 < attrKeySizeByte opts" and "0 < attrSizeByte opts"
  shows "\<exists>opts' n'. constructAttributes draw opts n = Some (opts', n') \<and>
    card (dom (lo_Attributes opts')) \<le> nat (attrCount opts) \<and>
    (\<forall>a v. lo_Attributes opts' a = Some v \<longrightarrow> sized (attrKeySizeByte opts) (attrSizeByte opts) (a, v))"
  using attributes_loop_sized [OF assms, of Map.empty "nat (attrCount opts)" n]
  by (auto simp: constructAttributes_def)

theorem constructAttributes_bounds_witness:
  "\<exists>opts' n'. constructAttributes (\<lambda>n bound. 0) \<lparr>attrCount = 2, attrSizeByte = 4, attrKeySizeByte = 3,
      numberOfMetrics = 0, scrapeIntervalMilliSeconds = 0, lo_Attributes = Map.empty\<rparr> 0 = Some (opts', n')"
  using constructAttributes_bounds [of "\<lambda>n bound. 0" "\<lparr>attrCount = 2, attrSizeByte = 4, attrKeySizeByte = 3,
      numberOfMetrics = 0, scrapeIntervalMilliSeconds = 0, lo_Attributes = Map.empty\<rparr>" 0]
  by (auto simp: draws_below_def)

end
