(* ===== verification/Validators.thy ===== *)
theory Validators
  imports Pdata "HOL-Library.Word"
begin

text \<open>
  The validators of the integration test bed (\<^verbatim>\<open>internal/testbed/integration\<close>): each indexes the
  telemetry it expects by a key of the single records (a span's identifiers, a log's body, a
  metric's name), then walks over what the backend received and compares every record's batch
  with the batch expected under its key. What a test reports is kept in order; a failed
  \<^verbatim>\<open>require\<close> stops the test at once, \<^verbatim>\<open>t.Error\<close> only records. The comparison of two batches
  (the \<^verbatim>\<open>pdatatest\<close> packages, with the options the code passes) is a parameter.
  The providers of sample data, which hand out their batch until the counter of generated items
  shows it, are modelled at the end.
\<close>

section \<open>What a test reports\<close>

datatype t_entry =
    NotContained string go_error   \<comment> \<open>\<^verbatim>\<open>require.Contains\<close>: the key looked for, and the message\<close>
  | UnexpectedError go_error       \<comment> \<open>\<^verbatim>\<open>require.NoError\<close>\<close>
  | ErrorMsg string                \<comment> \<open>\<^verbatim>\<open>t.Error\<close>\<close>

text \<open>\<open>Inl\<close>: the test was stopped by a failed requirement; \<open>Inr\<close>: it went on.\<close>

type_synonym t_run = "t_entry list + t_entry list"

fun for_each :: "('a \<Rightarrow> t_entry list \<Rightarrow> t_run) \<Rightarrow> 'a list \<Rightarrow> t_entry list \<Rightarrow> t_run" where
  "for_each f [] l = Inr l"
| "for_each f (x # xs) l = (case f x l of Inl l' \<Rightarrow> Inl l' | Inr l' \<Rightarrow> for_each f xs l')"

lemma for_each_append:
  "for_each f (xs @ ys) l = (case for_each f xs l of Inl l' \<Rightarrow> Inl l' | Inr l' \<Rightarrow> for_each f ys l')"
  by (induction xs arbitrary: l) (auto split: sum.splits)

lemma for_each_concat: "for_each (\<lambda>x. for_each f (g x)) xs = for_each f (concat (map g xs))"
proof
  show "for_each (\<lambda>x. for_each f (g x)) xs l = for_each f (concat (map g xs)) l" for l
    by (induction xs arbitrary: l) (auto simp: for_each_append split: sum.splits)
qed

lemma for_each_map: "for_each f (map g xs) l = for_each (\<lambda>x. f (g x)) xs l"
  by (induction xs arbitrary: l) (auto split: sum.splits)

section \<open>Traces\<close>

type_synonym ('d, 'x) traces = "('d, 'x) resource_spans list"

record ('d, 'x) TraceValidator =
  expectedTraces :: "('d, 'x) traces list"
  hideTraceErrors :: bool

definition WithHiddenTracesValidationErrorMessages ::
  "('d, 'x) TraceValidator \<Rightarrow> ('d, 'x) TraceValidator" where
  "WithHiddenTracesValidationErrorMessages v = v\<lparr>hideTraceErrors := True\<rparr>"

definition NewTraceValidator ::
  "('d, 'x) traces list \<Rightarrow> (('d, 'x) TraceValidator \<Rightarrow> ('d, 'x) TraceValidator) list \<Rightarrow>
   ('d, 'x) TraceValidator" where
  "NewTraceValidator expected opts =
     foldl (\<lambda>v opt. opt v) \<lparr>expectedTraces = expected, hideTraceErrors = False\<rparr> opts"

definition traceIDAndSpanIDToString :: "string \<Rightarrow> string \<Rightarrow> string" where
  "traceIDAndSpanIDToString traceID spanID = traceID @ ''-'' @ spanID"

definition span_key :: "'d span \<Rightarrow> string" where
  "span_key s = traceIDAndSpanIDToString (sp_trace_id s) (sp_span_id s)"

definition populateSpansMap ::
  "(string \<rightharpoonup> ('d, 'x) traces) \<Rightarrow> ('d, 'x) traces list \<Rightarrow> (string \<rightharpoonup> ('d, 'x) traces)" where
  "populateSpansMap m tds =
     foldl (\<lambda>m td. foldl (\<lambda>m rs. foldl (\<lambda>m ss. foldl (\<lambda>m span. m(span_key span \<mapsto> td))
       m (ss_spans ss)) m (rs_scopes rs)) m td) m tds"

definition check_span ::
  "(('d, 'x) traces \<Rightarrow> ('d, 'x) traces \<Rightarrow> go_error option) \<Rightarrow> bool \<Rightarrow> (string \<rightharpoonup> ('d, 'x) traces) \<Rightarrow>
   ('d, 'x) traces \<Rightarrow> 'd span \<Rightarrow> t_entry list \<Rightarrow> t_run" where
  "check_span compare hideError m td span l =
     (case m (span_key span) of
        None \<Rightarrow> Inl (l @ [NotContained (span_key span)
          (Errorf ''Span with ID: %q not found among expected spans'' [sp_span_id span])])
      | Some e \<Rightarrow>
          (case compare e td of
             None \<Rightarrow> Inr l
           | Some err \<Rightarrow>
               if hideError then Inr (l @ [ErrorMsg ''Received traces did not match expected traces''])
               else Inl (l @ [UnexpectedError err])))"

definition assertExpectedSpansAreInReceived ::
  "(('d, 'x) traces \<Rightarrow> ('d, 'x) traces \<Rightarrow> go_error option) \<Rightarrow>
   ('d, 'x) traces list \<Rightarrow> ('d, 'x) traces list \<Rightarrow> bool \<Rightarrow> t_run" where
  "assertExpectedSpansAreInReceived compare expected actual hideError =
     (let m = populateSpansMap Map.empty expected
      in for_each (\<lambda>td. for_each (\<lambda>rs. for_each (\<lambda>ss. for_each (check_span compare hideError m td)
           (ss_spans ss)) (rs_scopes rs)) td) actual [])"

definition ValidateTraces ::
  "(('d, 'x) traces \<Rightarrow> ('d, 'x) traces \<Rightarrow> go_error option) \<Rightarrow> ('d, 'x) TraceValidator \<Rightarrow>
   ('d, 'x) traces list \<Rightarrow> t_run" where
  "ValidateTraces compare v received =
     assertExpectedSpansAreInReceived compare (expectedTraces v) received (hideTraceErrors v)"

section \<open>Logs\<close>

type_synonym ('d, 'x) logs = "('d, 'x) resource_logs list"

record ('d, 'x) LogsValidator =
  expectedLogs :: "('d, 'x) logs list"
  hideLogErrors :: bool

definition WithHiddenLogsValidationErrorMessages ::
  "('d, 'x) LogsValidator \<Rightarrow> ('d, 'x) LogsValidator" where
  "WithHiddenLogsValidationErrorMessages v = v\<lparr>hideLogErrors := True\<rparr>"

definition NewLogsValidator ::
  "('d, 'x) logs list \<Rightarrow> (('d, 'x) LogsValidator \<Rightarrow> ('d, 'x) LogsValidator) list \<Rightarrow>
   ('d, 'x) LogsValidator" where
  "NewLogsValidator expected opts =
     foldl (\<lambda>v opt. opt v) \<lparr>expectedLogs = expected, hideLogErrors = False\<rparr> opts"

text \<open>The string of a body, \<^verbatim>\<open>pcommon.Value.AsString\<close>, is a parameter.\<close>

definition populateLogsMap ::
  "('d \<Rightarrow> string) \<Rightarrow> (string \<rightharpoonup> ('d, 'x) logs) \<Rightarrow> ('d, 'x) logs list \<Rightarrow> (string \<rightharpoonup> ('d, 'x) logs)" where
  "populateLogsMap body m tds =
     foldl (\<lambda>m td. foldl (\<lambda>m rl. foldl (\<lambda>m sl. foldl (\<lambda>m log. m(body (lr_body log) \<mapsto> td))
       m (sl_records sl)) m (rl_scopes rl)) m td) m tds"

definition check_log ::
  "('d \<Rightarrow> string) \<Rightarrow> (('d, 'x) logs \<Rightarrow> ('d, 'x) logs \<Rightarrow> go_error option) \<Rightarrow> bool \<Rightarrow>
   (string \<rightharpoonup> ('d, 'x) logs) \<Rightarrow> ('d, 'x) logs \<Rightarrow> 'd log_record \<Rightarrow> t_entry list \<Rightarrow> t_run" where
  "check_log body compare hideError m td log l =
     (case m (body (lr_body log)) of
        None \<Rightarrow> Inl (l @ [NotContained (body (lr_body log))
          (Errorf ''Actual log with body : %q not found among expected logRecords'' [body (lr_body log)])])
      | Some e \<Rightarrow>
          (case compare e td of
             None \<Rightarrow> Inr l
           | Some err \<Rightarrow>
               if hideError then Inr (l @ [ErrorMsg ''Received logs did not match expected logs''])
               else Inl (l @ [UnexpectedError err])))"

definition assertExpectedLogsAreInReceived ::
  "('d \<Rightarrow> string) \<Rightarrow> (('d, 'x) logs \<Rightarrow> ('d, 'x) logs \<Rightarrow> go_error option) \<Rightarrow>
   ('d, 'x) logs list \<Rightarrow> ('d, 'x) logs list \<Rightarrow> bool \<Rightarrow> t_run" where
  "assertExpectedLogsAreInReceived body compare expected actual hideError =
     (let m = populateLogsMap body Map.empty expected
      in for_each (\<lambda>td. for_each (\<lambda>rl. for_each (\<lambda>sl. for_each (check_log body compare hideError m td)
           (sl_records sl)) (rl_scopes rl)) td) actual [])"

definition ValidateLogs ::
  "('d \<Rightarrow> string) \<Rightarrow> (('d, 'x) logs \<Rightarrow> ('d, 'x) logs \<Rightarrow> go_error option) \<Rightarrow>
   ('d, 'x) LogsValidator \<Rightarrow> ('d, 'x) logs list \<Rightarrow> t_run" where
  "ValidateLogs body compare v received =
     assertExpectedLogsAreInReceived body compare (expectedLogs v) received (hideLogErrors v)"

section \<open>Metrics\<close>

record ('v, 'd, 'x) MetricsValidator =
  expectedMetrics :: "('v, 'd, 'x) metrics list"
  hideMetricErrors :: bool

definition WithHiddenMetricsValidationErrorMessages ::
  "('v, 'd, 'x) MetricsValidator \<Rightarrow> ('v, 'd, 'x) MetricsValidator" where
  "WithHiddenMetricsValidationErrorMessages v = v\<lparr>hideMetricErrors := True\<rparr>"

definition NewMetricValidator ::
  "('v, 'd, 'x) metrics list \<Rightarrow> (('v, 'd, 'x) MetricsValidator \<Rightarrow> ('v, 'd, 'x) MetricsValidator) list \<Rightarrow>
   ('v, 'd, 'x) MetricsValidator" where
  "NewMetricValidator expected opts =
     foldl (\<lambda>v opt. opt v) \<lparr>expectedMetrics = expected, hideMetricErrors = False\<rparr> opts"

definition populateMetricsMap ::
  "(string \<rightharpoonup> ('v, 'd, 'x) metrics) \<Rightarrow> ('v, 'd, 'x) metrics list \<Rightarrow> (string \<rightharpoonup> ('v, 'd, 'x) metrics)" where
  "populateMetricsMap m tds =
     foldl (\<lambda>m td. foldl (\<lambda>m rm. foldl (\<lambda>m sm. foldl (\<lambda>m metric. m(met_name metric \<mapsto> td))
       m (sm_metrics sm)) m (rm_scopes rm)) m td) m tds"

definition check_metric ::
  "(('v, 'd, 'x) metrics \<Rightarrow> ('v, 'd, 'x) metrics \<Rightarrow> go_error option) \<Rightarrow> bool \<Rightarrow>
   (string \<rightharpoonup> ('v, 'd, 'x) metrics) \<Rightarrow> ('v, 'd, 'x) metrics \<Rightarrow> ('v, 'd, 'x) metric \<Rightarrow>
   t_entry list \<Rightarrow> t_run" where
  "check_metric compare hideError m td metric l =
     (case m (met_name metric) of
        None \<Rightarrow> Inl (l @ [NotContained (met_name metric)
          (Errorf ''Metric with name : %q not found among expected metrics'' [met_name metric])])
      | Some e \<Rightarrow>
          (case compare e td of
             None \<Rightarrow> Inr l
           | Some err \<Rightarrow>
               if hideError then Inr (l @ [ErrorMsg ''Received metrics did not match expected metrics''])
               else Inl (l @ [UnexpectedError err])))"

definition assertExpectedMetricsAreInReceived ::
  "(('v, 'd, 'x) metrics \<Rightarrow> ('v, 'd, 'x) metrics \<Rightarrow> go_error option) \<Rightarrow>
   ('v, 'd, 'x) metrics list \<Rightarrow> ('v, 'd, 'x) metrics list \<Rightarrow> bool \<Rightarrow> t_run" where
  "assertExpectedMetricsAreInReceived compare expected actual hideError =
     (let m = populateMetricsMap Map.empty expected
      in for_each (\<lambda>td. for_each (\<lambda>rm. for_each (\<lambda>sm. for_each (check_metric compare hideError m td)
           (sm_metrics sm)) (rm_scopes rm)) td) actual [])"

definition ValidateMetrics ::
  "(('v, 'd, 'x) metrics \<Rightarrow> ('v, 'd, 'x) metrics \<Rightarrow> go_error option) \<Rightarrow>
   ('v, 'd, 'x) MetricsValidator \<Rightarrow> ('v, 'd, 'x) metrics list \<Rightarrow> t_run" where
  "ValidateMetrics compare v received =
     assertExpectedMetricsAreInReceived compare (expectedMetrics v) received (hideMetricErrors v)"

section \<open>The contract of a validator\<close>

text \<open>The last expected batch that has a record with the key.\<close>

definition expected_for :: "('b \<Rightarrow> 'r list) \<Rightarrow> ('r \<Rightarrow> string) \<Rightarrow> 'b list \<Rightarrow> string \<Rightarrow> 'b option" where
  "expected_for recs key tds k = find (\<lambda>td. k \<in> key ` set (recs td)) (rev tds)"

locale validator =
  fixes recs :: "'b \<Rightarrow> 'r list"
    and key :: "'r \<Rightarrow> string"
    and missing :: "'r \<Rightarrow> go_error"
    and hidden :: string
    and populate :: "(string \<rightharpoonup> 'b) \<Rightarrow> 'b list \<Rightarrow> (string \<rightharpoonup> 'b)"
    and check :: "('b \<Rightarrow> 'b \<Rightarrow> go_error option) \<Rightarrow> bool \<Rightarrow> (string \<rightharpoonup> 'b) \<Rightarrow> 'b \<Rightarrow> 'r \<Rightarrow> t_entry list \<Rightarrow> t_run"
    and run :: "('b \<Rightarrow> 'b \<Rightarrow> go_error option) \<Rightarrow> 'b list \<Rightarrow> 'b list \<Rightarrow> bool \<Rightarrow> t_run"
  assumes populate_nil: "populate m [] = m"
    and populate_cons: "populate m (td # tds) = populate (foldl (\<lambda>m r. m(key r \<mapsto> td)) m (recs td)) tds"
    and check_unknown: "m (key r) = None \<Longrightarrow>
          check cmp hide m td r l = Inl (l @ [NotContained (key r) (missing r)])"
    and check_equal: "m (key r) = Some e \<Longrightarrow> cmp e td = None \<Longrightarrow> check cmp hide m td r l = Inr l"
    and check_differ: "m (key r) = Some e \<Longrightarrow> cmp e td = Some err \<Longrightarrow>
          check cmp hide m td r l =
            (if hide then Inr (l @ [ErrorMsg hidden]) else Inl (l @ [UnexpectedError err]))"
    and run_walk: "run cmp exp act hide =
          for_each (\<lambda>td. for_each (check cmp hide (populate Map.empty exp) td) (recs td)) act []"
begin

lemma fold_keys:
  "foldl (\<lambda>m r. m(key r \<mapsto> td)) m rs k = (if k \<in> key ` set rs then Some td else m k)"
  by (induction rs arbitrary: m) auto

lemma populate_lookup:
  "populate m tds k = (case expected_for recs key tds k of None \<Rightarrow> m k | Some td \<Rightarrow> Some td)"
proof (induction tds arbitrary: m)
  case Nil
  then show ?case by (simp add: populate_nil expected_for_def)
next
  case (Cons td tds)
  have "find P (xs @ [x]) = (case find P xs of None \<Rightarrow> if P x then Some x else None | Some y \<Rightarrow> Some y)"
    for P and xs :: "'b list" and x
    by (induction xs) auto
  then show ?case
    by (simp add: populate_cons Cons.IH fold_keys expected_for_def split: option.splits)
qed

text \<open>A record passes when its batch equals the one expected under its key.\<close>

definition passes :: "('b \<Rightarrow> 'b \<Rightarrow> go_error option) \<Rightarrow> 'b list \<Rightarrow> 'b \<Rightarrow> 'r \<Rightarrow> bool" where
  "passes cmp exp td r \<longleftrightarrow>
     (case expected_for recs key exp (key r) of None \<Rightarrow> False | Some e \<Rightarrow> cmp e td = None)"

lemma check_passes:
  "check cmp hide (populate Map.empty exp) td r l = Inr l \<longleftrightarrow> passes cmp exp td r"
proof (cases "populate Map.empty exp (key r)")
  case None
  then show ?thesis
    by (simp add: check_unknown) (simp add: passes_def populate_lookup split: option.splits)
next
  case (Some e)
  then have "passes cmp exp td r \<longleftrightarrow> cmp e td = None"
    by (simp add: passes_def populate_lookup split: option.splits)
  with Some show ?thesis
    by (cases "cmp e td") (simp_all add: check_equal check_differ)
qed

text \<open>What has been reported is never taken back.\<close>

lemma check_grows:
  "case check cmp hide m td r l of Inl l' \<Rightarrow> \<exists>e. l' = l @ [e] | Inr l' \<Rightarrow> l' = l \<or> l' = l @ [ErrorMsg hidden] \<and> hide"
  using check_unknown [of m r cmp hide td l] check_equal [of m r _ cmp td hide l]
    check_differ [of m r _ cmp td _ hide l]
  by (cases "m (key r)"; cases "cmp (the (m (key r))) td") auto

lemma walk_prefix:
  assumes "\<And>x l. case f x l of Inl l' \<Rightarrow> length l < length l' | Inr l' \<Rightarrow> length l \<le> length l'"
  shows "case for_each f xs l of Inl l' \<Rightarrow> length l < length l' | Inr l' \<Rightarrow> length l \<le> length l'"
proof (induction xs arbitrary: l)
  case (Cons x xs)
  show ?case
  proof (cases "f x l")
    case (Inl l')
    then show ?thesis using assms [where x = x and l = l] by simp
  next
    case (Inr l')
    then have "length l \<le> length l'" using assms [where x = x and l = l] by simp
    then show ?thesis using Cons.IH [where l = l'] Inr by (auto split: sum.splits)
  qed
qed simp

lemma walk_silent:
  assumes "\<And>x l. case f x l of Inl l' \<Rightarrow> length l < length l' | Inr l' \<Rightarrow> l' = l \<or> length l < length l'"
  shows "for_each f xs l = Inr l \<longleftrightarrow> (\<forall>x \<in> set xs. f x l = Inr l)"
proof (induction xs)
  case (Cons x xs)
  have pre: "case f y k of Inl l' \<Rightarrow> length k < length l' | Inr l' \<Rightarrow> length k \<le> length l'" for y k
    using assms [where x = y and l = k] by (auto split: sum.splits)
  show ?case
  proof (cases "f x l")
    case (Inr l')
    show ?thesis
    proof (cases "l' = l")
      case False
      then have "length l < length l'" using assms [where x = x and l = l] Inr by simp
      then have "for_each f xs l' \<noteq> Inr l" using walk_prefix [where f = f and xs = xs and l = l', OF pre] by auto
      with False Inr show ?thesis by simp
    qed (use Inr Cons.IH in simp)
  qed simp
qed simp

definition all_recs :: "'b list \<Rightarrow> ('b \<times> 'r) list" where
  "all_recs act = concat (map (\<lambda>td. map (Pair td) (recs td)) act)"

lemma run_flat:
  "run cmp exp act hide =
     for_each (\<lambda>(td, r). check cmp hide (populate Map.empty exp) td r) (all_recs act) []"
  unfolding run_walk all_recs_def for_each_concat [symmetric] for_each_map by simp

lemma run_pass_iff:
  "run cmp exp act hide = Inr [] \<longleftrightarrow> list_all (\<lambda>td. list_all (passes cmp exp td) (recs td)) act"
proof -
  let ?f = "\<lambda>(td, r). check cmp hide (populate Map.empty exp) td r"
  have "case ?f x l of Inl l' \<Rightarrow> length l < length l' | Inr l' \<Rightarrow> l' = l \<or> length l < length l'" for x l
    using check_grows [where td = "fst x" and r = "snd x" and l = l and cmp = cmp and hide = hide and m = "populate Map.empty exp"]
    by (auto simp: case_prod_beta split: sum.splits)
  then have "run cmp exp act hide = Inr [] \<longleftrightarrow> (\<forall>x \<in> set (all_recs act). ?f x [] = Inr [])"
    unfolding run_flat by (rule walk_silent)
  then show ?thesis
    by (auto simp: all_recs_def check_passes list_all_iff)
qed

text \<open>With hidden errors no text of a comparison is reported.\<close>

definition entries :: "t_run \<Rightarrow> t_entry list" where
  "entries r = (case r of Inl l \<Rightarrow> l | Inr l \<Rightarrow> l)"

definition discreet :: "t_entry \<Rightarrow> bool" where
  "discreet e = (case e of UnexpectedError _ \<Rightarrow> False | ErrorMsg m \<Rightarrow> m = hidden | NotContained _ _ \<Rightarrow> True)"

lemma check_discreet:
  "list_all discreet l \<Longrightarrow> list_all discreet (entries (check cmp True m td r l))"
  using check_unknown [of m r cmp True td l] check_equal [of m r _ cmp td True l]
    check_differ [of m r _ cmp td _ True l]
  by (cases "m (key r)"; cases "cmp (the (m (key r))) td") (auto simp: entries_def discreet_def)

lemma walk_discreet:
  assumes "\<And>x l. list_all discreet l \<Longrightarrow> list_all discreet (entries (f x l))"
  shows "list_all discreet l \<Longrightarrow> list_all discreet (entries (for_each f xs l))"
proof (induction xs arbitrary: l)
  case (Cons x xs)
  show ?case
  proof (cases "f x l")
    case (Inl l')
    then show ?thesis using assms [OF Cons.prems, of x] by (simp add: entries_def)
  next
    case (Inr l')
    then show ?thesis using assms [OF Cons.prems, of x] Cons.IH [of l'] by (simp add: entries_def)
  qed
qed (simp add: entries_def)

lemma run_discreet: "list_all discreet (entries (run cmp exp act True))"
  unfolding run_flat
  by (rule walk_discreet) (auto simp: case_prod_beta intro: check_discreet)

text \<open>With hidden errors the test is only stopped at a record with an unknown key, after every
  record before it had a known one.\<close>

lemma run_hidden_goes_on:
  assumes "list_all (\<lambda>td. list_all (\<lambda>r. expected_for recs key exp (key r) \<noteq> None) (recs td)) act"
  shows "\<exists>n. run cmp exp act True = Inr (replicate n (ErrorMsg hidden))"
proof -
  let ?f = "\<lambda>(td, r). check cmp True (populate Map.empty exp) td r"
  have step: "\<exists>n. ?f x (replicate k (ErrorMsg hidden)) = Inr (replicate n (ErrorMsg hidden))"
    if x: "x \<in> set (all_recs act)" for x k
  proof -
    obtain td r where [simp]: "x = (td, r)" by (cases x)
    from x assms have "expected_for recs key exp (key r) \<noteq> None"
      by (auto simp: all_recs_def list_all_iff)
    then obtain e where e: "populate Map.empty exp (key r) = Some e" by (auto simp: populate_lookup)
    show ?thesis
    proof (cases "cmp e td")
      case None
      then show ?thesis using check_equal [of "populate Map.empty exp" r e cmp td, OF e None] by auto
    next
      case (Some err)
      then show ?thesis using check_differ [of "populate Map.empty exp" r e cmp td err True, OF e Some]
        by (auto simp flip: replicate_append_same intro: exI [of _ "Suc k"])
    qed
  qed
  have "\<exists>n. for_each ?f xs (replicate k (ErrorMsg hidden)) = Inr (replicate n (ErrorMsg hidden))"
    if "set xs \<subseteq> set (all_recs act)" for xs k
    using that
  proof (induction xs arbitrary: k)
    case (Cons x xs)
    from Cons.prems step obtain n where "?f x (replicate k (ErrorMsg hidden)) = Inr (replicate n (ErrorMsg hidden))"
      by fastforce
    with Cons show ?case by simp
  qed simp
  from this [of "all_recs act" 0] show ?thesis by (simp add: run_flat)
qed

end

section \<open>The three validators\<close>

text \<open>The single records of a batch, in the order the loops visit them.\<close>

definition trace_spans :: "('d, 'x) traces \<Rightarrow> 'd span list" where
  "trace_spans td = concat (map (\<lambda>rs. concat (map ss_spans (rs_scopes rs))) td)"

definition log_records :: "('d, 'x) logs \<Rightarrow> 'd log_record list" where
  "log_records td = concat (map (\<lambda>rl. concat (map sl_records (rl_scopes rl))) td)"

definition metric_records :: "('v, 'd, 'x) metrics \<Rightarrow> ('v, 'd, 'x) metric list" where
  "metric_records td = concat (map (\<lambda>rm. concat (map sm_metrics (rm_scopes rm))) td)"

lemma foldl_concat: "foldl (\<lambda>m x. foldl f m (g x)) m xs = foldl f m (concat (map g xs))"
  by (induction xs arbitrary: m) auto

lemmas walk_defs = foldl_concat for_each_concat

interpretation tr: validator trace_spans span_key
  "\<lambda>s. Errorf ''Span with ID: %q not found among expected spans'' [sp_span_id s]"
  "''Received traces did not match expected traces''"
  populateSpansMap check_span assertExpectedSpansAreInReceived
  by unfold_locales
    (simp_all add: populateSpansMap_def check_span_def assertExpectedSpansAreInReceived_def
      trace_spans_def walk_defs)

interpretation lg: validator log_records "\<lambda>r. body (lr_body r)"
  "\<lambda>r. Errorf ''Actual log with body : %q not found among expected logRecords'' [body (lr_body r)]"
  "''Received logs did not match expected logs''"
  "populateLogsMap body" "check_log body" "assertExpectedLogsAreInReceived body"
  for body :: "'d \<Rightarrow> string"
  by unfold_locales
    (simp_all add: populateLogsMap_def check_log_def assertExpectedLogsAreInReceived_def
      log_records_def walk_defs)

interpretation mt: validator metric_records met_name
  "\<lambda>m. Errorf ''Metric with name : %q not found among expected metrics'' [met_name m]"
  "''Received metrics did not match expected metrics''"
  populateMetricsMap check_metric assertExpectedMetricsAreInReceived
  by unfold_locales
    (simp_all add: populateMetricsMap_def check_metric_def assertExpectedMetricsAreInReceived_def
      metric_records_def walk_defs)

text \<open>
  C30: the trace validator reports nothing exactly when every received span has identifiers that
  occur among the expected traces and the received batch it is in equals the last expected batch
  with these identifiers; whether errors are hidden makes no difference.
\<close>

theorem ValidateTraces_passes:
  "ValidateTraces compare v received = Inr [] \<longleftrightarrow>
     list_all (\<lambda>td. list_all (\<lambda>span.
       case expected_for trace_spans span_key (expectedTraces v) (span_key span) of
         None \<Rightarrow> False | Some e \<Rightarrow> compare e td = None) (trace_spans td)) received"
  unfolding ValidateTraces_def tr.run_pass_iff tr.passes_def ..

text \<open>
  With hidden error messages the metrics validator never reports the text of a comparison,
  which could show a value whose redaction failed: every report is the fixed message or names a
  metric that is not expected; and when all received names are expected the test runs to its
  end with fixed messages only.
\<close>

theorem ValidateMetrics_hidden:
  assumes "list_all (\<lambda>td. list_all (\<lambda>m.
      expected_for metric_records met_name expected (met_name m) \<noteq> None) (metric_records td)) received"
  shows "\<exists>n. ValidateMetrics compare
      (NewMetricValidator expected [WithHiddenMetricsValidationErrorMessages]) received =
      Inr (replicate n (ErrorMsg ''Received metrics did not match expected metrics''))"
  using mt.run_hidden_goes_on [OF assms]
  by (simp add: ValidateMetrics_def NewMetricValidator_def WithHiddenMetricsValidationErrorMessages_def)

text \<open>
  A received log whose body is not among the expected ones, as it is when a secret in it was not
  redacted.
\<close>

definition leaked :: "(string, unit) logs" where
  "leaked = [\<lparr>rl_scopes = [\<lparr>sl_records = [\<lparr>lr_timestamp = 2, lr_observed = 3,
      lr_body = ''token dt0c01.SECRET''\<rparr>], sl_rest = ()\<rparr>], rl_rest = ()\<rparr>]"

definition redacted :: "(string, unit) logs" where
  "redacted = [\<lparr>rl_scopes = [\<lparr>sl_records = [\<lparr>lr_timestamp = 2, lr_observed = 3,
      lr_body = ''token ****''\<rparr>], sl_rest = ()\<rparr>], rl_rest = ()\<rparr>]"

text \<open>
  Hiding the error messages of the logs validator does not hide a body: a received log whose
  body was not redacted is unknown by its body, and the failed requirement reports that body
  verbatim, both as the key and in the message, although the option is there to keep unredacted
  tokens out of the test's output.
\<close>

theorem hidden_logs_show_unredacted_body:
  "ValidateLogs (\<lambda>s. s) compare (NewLogsValidator [redacted] [WithHiddenLogsValidationErrorMessages])
     [leaked] =
   Inl [NotContained ''token dt0c01.SECRET''
     (Errorf ''Actual log with body : %q not found among expected logRecords''
        [''token dt0c01.SECRET''])]"
  by (simp add: ValidateLogs_def NewLogsValidator_def WithHiddenLogsValidationErrorMessages_def
      assertExpectedLogsAreInReceived_def populateLogsMap_def check_log_def redacted_def leaked_def)

text \<open>
  The logs validator, described as ensuring that the expected logs are present in the output,
  checks the received logs only: with nothing received it passes whatever is expected.
\<close>

theorem ValidateLogs_vacuous: "ValidateLogs body compare (NewLogsValidator expected opts) [] = Inr []"
  by (simp add: ValidateLogs_def lg.run_pass_iff)

definition some_metrics :: "(unit, unit, unit) metrics" where
  "some_metrics = [\<lparr>rm_attrs = [], rm_scopes = [\<lparr>sm_name = ''s'', sm_version = [],
     sm_metrics = [\<lparr>met_name = ''requests'', met_type = Sum, met_points = [], met_rest = ()\<rparr>],
     sm_rest = ()\<rparr>], rm_rest = ()\<rparr>]"

lemma some_metrics_expected:
  "list_all (\<lambda>td. list_all (\<lambda>m.
      expected_for metric_records met_name [some_metrics] (met_name m) \<noteq> None) (metric_records td))
     [some_metrics, some_metrics]"
  by (simp add: some_metrics_def metric_records_def expected_for_def)

theorem ValidateMetrics_hidden_witness:
  "\<exists>n. ValidateMetrics (\<lambda>e t. Some (Errorf ''secret'' []))
      (NewMetricValidator [some_metrics] [WithHiddenMetricsValidationErrorMessages])
      [some_metrics, some_metrics] =
      Inr (replicate n (ErrorMsg ''Received metrics did not match expected metrics''))"
  by (rule ValidateMetrics_hidden [OF some_metrics_expected])

section \<open>The sample data providers\<close>

text \<open>
  A provider holds the batch of its signal; the counter of generated items is the load generator's
  and shared, a 64-bit atomic. A call returns the batch, or an empty one when the counter shows
  that the batch was sent; the second result of the code (done) is always false.
\<close>

definition log_record_count :: "('d, 'x) logs \<Rightarrow> 64 word" where
  "log_record_count td = of_nat (length (log_records td))"

definition metric_count :: "('v, 'd, 'x) metrics \<Rightarrow> 64 word" where
  "metric_count td = of_nat (length (metric_records td))"

definition span_count :: "('d, 'x) traces \<Rightarrow> 64 word" where
  "span_count td = of_nat (length (trace_spans td))"

definition GenerateLogs :: "('d, 'x) logs \<Rightarrow> 64 word \<Rightarrow> ('d, 'x) logs \<times> bool \<times> 64 word" where
  "GenerateLogs logs generated =
     (if generated = log_record_count logs then ([], False, generated)
      else (logs, False, generated + log_record_count logs))"

definition GenerateMetrics ::
  "('v, 'd, 'x) metrics \<Rightarrow> 64 word \<Rightarrow> ('v, 'd, 'x) metrics \<times> bool \<times> 64 word" where
  "GenerateMetrics metrics generated =
     (if generated = metric_count metrics then ([], False, generated)
      else (metrics, False, generated + metric_count metrics))"

definition GenerateTraces :: "('d, 'x) traces \<Rightarrow> 64 word \<Rightarrow> ('d, 'x) traces \<times> bool \<times> 64 word" where
  "GenerateTraces traces generated =
     (if generated = span_count traces then ([], False, generated)
      else (traces, False, generated + span_count traces))"

text \<open>What a load generator that calls a provider \<open>n\<close> times sends, and the counter after it.\<close>

fun generate_n :: "(64 word \<Rightarrow> 'b \<times> bool \<times> 64 word) \<Rightarrow> nat \<Rightarrow> 64 word \<Rightarrow> 'b list \<times> 64 word" where
  "generate_n gen 0 c = ([], c)"
| "generate_n gen (Suc n) c =
     (case gen c of (b, _, c') \<Rightarrow> case generate_n gen n c' of (bs, c'') \<Rightarrow> (b # bs, c''))"

locale provider =
  fixes gen :: "64 word \<Rightarrow> 'b list \<times> bool \<times> 64 word"
    and batch :: "'b list"
    and count :: "64 word"
  assumes at_count: "gen count = ([], False, count)"
    and before: "c \<noteq> count \<Longrightarrow> gen c = (batch, False, c + count)"
begin

lemma stays_sent: "generate_n gen n count = (replicate n [], count)"
  by (induction n) (simp_all add: at_count)

lemma sent_once:
  "generate_n gen (Suc n) 0 =
     (if count = 0 then (replicate (Suc n) [], 0) else (batch # replicate n [], count))"
  using before [of 0] stays_sent [of n] stays_sent [of "Suc n"] by (cases "count = 0") auto

text \<open>Off by the counter's start, the batch is sent again and again until the sum wraps around.\<close>

lemma resent:
  assumes "\<And>k. k < n \<Longrightarrow> c + of_nat k * count \<noteq> count"
  shows "generate_n gen n c = (replicate n batch, c + of_nat n * count)"
  using assms
proof (induction n arbitrary: c)
  case (Suc n)
  have "c \<noteq> count" using Suc.prems [of 0] by simp
  moreover have "generate_n gen n (c + count) = (replicate n batch, c + count + of_nat n * count)"
  proof (rule Suc.IH)
    fix k assume "k < n"
    then show "c + count + of_nat k * count \<noteq> count"
      using Suc.prems [of "Suc k"] by (simp add: algebra_simps)
  qed
  ultimately show ?case by (simp add: before algebra_simps)
qed simp

end

interpretation log_provider: provider "GenerateLogs logs" logs "log_record_count logs" for logs
  by unfold_locales (simp_all add: GenerateLogs_def)

interpretation metric_provider: provider "GenerateMetrics metrics" metrics "metric_count metrics" for metrics
  by unfold_locales (simp_all add: GenerateMetrics_def)

interpretation trace_provider: provider "GenerateTraces traces" traces "span_count traces" for traces
  by unfold_locales (simp_all add: GenerateTraces_def)

text \<open>
  A provider of logs whose counter starts at zero hands out its batch exactly once: of any
  number of calls the first returns the batch, all others an empty one, and the counter stops at
  the number of records. (With no record, or with as many as wrap the counter, all are empty.)
\<close>

theorem GenerateLogs_once:
  "generate_n (GenerateLogs logs) (Suc n) 0 =
     (if log_record_count logs = 0 then (replicate (Suc n) [], 0)
      else (logs # replicate n [], log_record_count logs))"
  by (rule log_provider.sent_once)

end
