(* ===== verification/Filtering_Test.thy ===== *)
theory Filtering_Test
  imports Load_Scenarios Validators
begin

text \<open>
  The test of a filtering configuration as a whole (\<^verbatim>\<open>testbed/integration\<close>): the provider of sample data as the value
  the code has (\<^verbatim>\<open>data_providers.go\<close>), the load generator that calls it, the wait for as many received items as
  were sent, and the validator of what was received. The Collector under test is what turns sent batches into
  received ones; nothing is assumed of it.
\<close>

section \<open>The provider\<close>

text \<open>
  A field that was not set is None: the zero value of a batch and a missing counter, both of which a call
  dereferences, which is a panic, None.
\<close>

record ('v, 'd, 'x) sampleConfigsDataProvider =
  dp_traces :: "('d, 'x) traces option"
  dp_metrics :: "('v, 'd, 'x) metrics option"
  dp_logs :: "('d, 'x) logs option"
  dataItemsGenerated :: "64 word option"

definition no_data :: "('v, 'd, 'x) sampleConfigsDataProvider" where
  "no_data = \<lparr>dp_traces = None, dp_metrics = None, dp_logs = None, dataItemsGenerated = None\<rparr>"

definition NewSampleConfigsTraceDataProvider :: "('d, 'x) traces \<Rightarrow> ('v, 'd, 'x) sampleConfigsDataProvider" where
  "NewSampleConfigsTraceDataProvider tr = no_data\<lparr>dp_traces := Some tr\<rparr>"

definition NewSampleConfigsMetricsDataProvider :: "('v, 'd, 'x) metrics \<Rightarrow> ('v, 'd, 'x) sampleConfigsDataProvider" where
  "NewSampleConfigsMetricsDataProvider me = no_data\<lparr>dp_metrics := Some me\<rparr>"

definition NewSampleConfigsLogsDataProvider :: "('d, 'x) logs \<Rightarrow> ('v, 'd, 'x) sampleConfigsDataProvider" where
  "NewSampleConfigsLogsDataProvider lo = no_data\<lparr>dp_logs := Some lo\<rparr>"

definition SetLoadGeneratorCounters ::
  "64 word \<Rightarrow> ('v, 'd, 'x) sampleConfigsDataProvider \<Rightarrow> ('v, 'd, 'x) sampleConfigsDataProvider" where
  "SetLoadGeneratorCounters c dp = dp\<lparr>dataItemsGenerated := Some c\<rparr>"

definition on_provider ::
  "(('v, 'd, 'x) sampleConfigsDataProvider \<Rightarrow> 'b option) \<Rightarrow> ('b \<Rightarrow> 64 word \<Rightarrow> 'b \<times> bool \<times> 64 word) \<Rightarrow>
   ('v, 'd, 'x) sampleConfigsDataProvider \<Rightarrow> ('b \<times> bool \<times> ('v, 'd, 'x) sampleConfigsDataProvider) option" where
  "on_provider field gen dp =
     (case (field dp, dataItemsGenerated dp) of
        (Some b, Some c) \<Rightarrow>
          (case gen b c of (r, done, c) \<Rightarrow> Some (r, done, dp\<lparr>dataItemsGenerated := Some c\<rparr>))
      | _ \<Rightarrow> None)"

text \<open>The load generator: \<open>n\<close> calls of the provider, with what they gave.\<close>

fun run_load :: "('p \<Rightarrow> ('b \<times> bool \<times> 'p) option) \<Rightarrow> nat \<Rightarrow> 'p \<Rightarrow> ('b list \<times> 'p) option" where
  "run_load gen 0 dp = Some ([], dp)"
| "run_load gen (Suc n) dp =
     (case gen dp of
        None \<Rightarrow> None
      | Some (b, _, dp) \<Rightarrow> map_option (\<lambda>(bs, dp). (b # bs, dp)) (run_load gen n dp))"

lemma run_load_generate_n:
  assumes "\<And>c. field (dp\<lparr>dataItemsGenerated := Some c\<rparr>) = Some b"
  shows "run_load (on_provider field gen) n (dp\<lparr>dataItemsGenerated := Some c\<rparr>) =
     (case generate_n (gen b) n c of (bs, c') \<Rightarrow> Some (bs, dp\<lparr>dataItemsGenerated := Some c'\<rparr>))"
proof (induction n arbitrary: c)
  case (Suc n)
  obtain r d c1 where g: "gen b c = (r, d, c1)" by (cases "gen b c")
  show ?case using Suc.IH [of c1] by (simp add: assms on_provider_def g split: prod.split)
qed simp

text \<open>A call without counters panics, and so does one for a signal the provider was not made for.\<close>

lemma provider_panics:
  "on_provider dp_logs GenerateLogs (NewSampleConfigsLogsDataProvider lo) = None"
  "on_provider dp_logs GenerateLogs (SetLoadGeneratorCounters c (NewSampleConfigsTraceDataProvider tr)) = None"
  by (simp_all add: on_provider_def NewSampleConfigsLogsDataProvider_def NewSampleConfigsTraceDataProvider_def
      SetLoadGeneratorCounters_def no_data_def)

section \<open>Provider, count and validator\<close>

locale filtering_test =
  validator recs key missing hidden populate check run + provider gen batch count
  for recs :: "'q list \<Rightarrow> 'r list"
    and key :: "'r \<Rightarrow> string"
    and missing :: "'r \<Rightarrow> go_error"
    and hidden :: string
    and populate :: "(string \<rightharpoonup> 'q list) \<Rightarrow> 'q list list \<Rightarrow> (string \<rightharpoonup> 'q list)"
    and check :: "('q list \<Rightarrow> 'q list \<Rightarrow> go_error option) \<Rightarrow> bool \<Rightarrow> (string \<rightharpoonup> 'q list) \<Rightarrow> 'q list \<Rightarrow> 'r \<Rightarrow> t_entry list \<Rightarrow> t_run"
    and run :: "('q list \<Rightarrow> 'q list \<Rightarrow> go_error option) \<Rightarrow> 'q list list \<Rightarrow> 'q list list \<Rightarrow> bool \<Rightarrow> t_run"
    and gen :: "64 word \<Rightarrow> 'q list \<times> bool \<times> 64 word"
    and batch :: "'q list"
    and count :: "64 word" +
  assumes count_recs: "count = of_nat (length (recs batch))"
begin

definition received_items :: "'q list list \<Rightarrow> nat" where
  "received_items rcvd = sum_list (map (\<lambda>td. length (recs td)) rcvd)"

lemma one_length:
  assumes "\<forall>td \<in> set rcvd. recs td \<noteq> [] \<longrightarrow> length (recs td) = k" and "k \<noteq> 0"
  shows "received_items rcvd = k * length (filter (\<lambda>td. recs td \<noteq> []) rcvd)"
  using assms(1)
proof (induction rcvd)
  case (Cons td rcvd)
  then show ?case by (cases "recs td = []") (simp_all add: received_items_def)
qed (simp add: received_items_def)

lemma count_not_zero:
  assumes "recs batch \<noteq> []" and "length (recs batch) < 2 ^ 64"
  shows "count \<noteq> 0"
proof
  assume "count = 0"
  then have "unat (of_nat (length (recs batch)) :: 64 word) = 0" using count_recs by simp
  then show False using assms by (simp add: unat_of_nat take_bit_nat_eq_self)
qed

text \<open>
  A single expected batch, as many expected records as sent ones, a comparison that tells batches of different
  sizes apart, and as many received as sent items: then the silent validator has seen the expected batch, once.
\<close>

lemma passed_received_expected:
  assumes pass: "run cmp [e] rcvd hide = Inr []"
    and counted: "count = of_nat (received_items rcvd)"
    and small: "received_items rcvd < 2 ^ 64" "length (recs batch) < 2 ^ 64"
    and sizes: "\<forall>td \<in> set rcvd. cmp e td = None \<longrightarrow> length (recs td) = length (recs e)"
    and expected: "length (recs e) = length (recs batch)" "recs batch \<noteq> []"
  shows "\<exists>td. filter (\<lambda>td. recs td \<noteq> []) rcvd = [td] \<and> cmp e td = None"
proof -
  let ?k = "length (recs batch)" and ?full = "filter (\<lambda>td. recs td \<noteq> []) rcvd"
  have equal: "cmp e td = None" if td: "td \<in> set rcvd" "recs td \<noteq> []" for td
  proof -
    obtain r where r: "r \<in> set (recs td)" using td(2) by (cases "recs td") auto
    then have "passes cmp [e] td r" using pass td(1) unfolding run_pass_iff by (auto simp: list_all_iff)
    then show ?thesis by (auto simp: passes_def expected_for_def split: option.splits if_splits)
  qed
  then have len: "received_items rcvd = ?k * length ?full"
    using sizes expected by (intro one_length) auto
  have "unat (of_nat ?k :: 64 word) = unat (of_nat (received_items rcvd) :: 64 word)"
    using counted count_recs by simp
  then have "?k = received_items rcvd"
    using small by (simp add: unat_of_nat take_bit_nat_eq_self)
  with len expected(2) have "length ?full = 1" by (cases "received_items rcvd = 0") auto
  then obtain td where td: "?full = [td]" by (cases ?full) auto
  then have "td \<in> set rcvd" "recs td \<noteq> []" using filter_eq_ConsD [OF td] by auto
  with equal td show ?thesis by blast
qed

text \<open>The same with the run of the load generator in front; the scenario waits until the counts agree.\<close>

lemma passed_load_expected:
  assumes load: "run_load (on_provider field g) (Suc n) (SetLoadGeneratorCounters 0 dp) = Some (batches, dp')"
    and field: "\<And>c. field (dp\<lparr>dataItemsGenerated := Some c\<rparr>) = Some batch" and g: "g batch = gen"
    and waited: "dataItemsGenerated dp' = Some (of_nat (received_items rcvd))"
    and pass: "run cmp [e] rcvd hide = Inr []"
    and small: "received_items rcvd < 2 ^ 64" "length (recs batch) < 2 ^ 64"
    and sizes: "\<forall>td \<in> set rcvd. cmp e td = None \<longrightarrow> length (recs td) = length (recs e)"
    and expected: "length (recs e) = length (recs batch)" "recs batch \<noteq> []"
  shows "batches = batch # replicate n [] \<and>
    (\<exists>td. filter (\<lambda>td. recs td \<noteq> []) rcvd = [td] \<and> cmp e td = None)"
proof -
  have once: "generate_n gen (Suc n) 0 = (batch # replicate n [], count)"
    using sent_once [of n] count_not_zero [OF expected(2) small(2)] by simp
  have "run_load (on_provider field g) (Suc n) (SetLoadGeneratorCounters 0 dp) =
      Some (batch # replicate n [], dp\<lparr>dataItemsGenerated := Some count\<rparr>)"
    unfolding SetLoadGeneratorCounters_def
    by (subst run_load_generate_n [where b = batch]) (simp_all only: field g once prod.case)
  then have sent: "batches = batch # replicate n []" "count = of_nat (received_items rcvd)"
    using load waited by auto
  show ?thesis
    using sent(1) passed_received_expected [OF pass sent(2) small sizes expected] by blast
qed

end

interpretation log_test: filtering_test log_records "\<lambda>r. body (lr_body r)"
  "\<lambda>r. Errorf ''Actual log with body : %q not found among expected logRecords'' [body (lr_body r)]"
  "''Received logs did not match expected logs''"
  "populateLogsMap body" "check_log body" "assertExpectedLogsAreInReceived body"
  "GenerateLogs logs" logs "log_record_count logs"
  for body :: "'d \<Rightarrow> string" and logs
  by unfold_locales (simp add: log_record_count_def)

interpretation trace_test: filtering_test trace_spans span_key
  "\<lambda>s. Errorf ''Span with ID: %q not found among expected spans'' [sp_span_id s]"
  "''Received traces did not match expected traces''"
  populateSpansMap check_span assertExpectedSpansAreInReceived
  "GenerateTraces traces" traces "span_count traces"
  for traces
  by unfold_locales (simp add: span_count_def)

section \<open>What a passed test shows\<close>

text \<open>
  The number of items the backend counts: log records or spans.
\<close>

definition items :: "('b \<Rightarrow> 'r list) \<Rightarrow> 'b list \<Rightarrow> nat" where
  "items recs rcvd = sum_list (map (\<lambda>td. length (recs td)) rcvd)"

lemma hidden_traces_option_keeps_expected:
  assumes "set opts \<subseteq> {WithHiddenTracesValidationErrorMessages}"
  shows "expectedTraces (foldl (\<lambda>v opt. opt v) v opts) = expectedTraces v"
  using assms by (induction opts arbitrary: v) (auto simp: WithHiddenTracesValidationErrorMessages_def)

lemma filtering_traces_sound:
  fixes dp' :: "('v, 'd, 'x) sampleConfigsDataProvider" and e td :: "('d, 'x) traces"
  assumes load: "run_load (on_provider dp_traces GenerateTraces) (Suc n)
      (SetLoadGeneratorCounters 0 (NewSampleConfigsTraceDataProvider td)) = Some (batches, dp')"
    and waited: "dataItemsGenerated dp' = Some (of_nat (items trace_spans rcvd))"
    and validated: "ValidateTraces compare (NewTraceValidator [e] opts) rcvd = Inr []"
    and opts: "set opts \<subseteq> {WithHiddenTracesValidationErrorMessages}"
    and sizes: "\<forall>t \<in> set rcvd. compare e t = None \<longrightarrow> length (trace_spans t) = length (trace_spans e)"
    and expected: "length (trace_spans e) = length (trace_spans td)" "trace_spans td \<noteq> []"
    and small: "items trace_spans rcvd < 2 ^ 64" "length (trace_spans td) < 2 ^ 64"
  shows "batches = td # replicate n [] \<and>
    (\<exists>t. filter (\<lambda>t. trace_spans t \<noteq> []) rcvd = [t] \<and> compare e t = None)"
proof -
  have "assertExpectedSpansAreInReceived compare [e] rcvd (hideTraceErrors (NewTraceValidator [e] opts)) = Inr []"
    using validated unfolding ValidateTraces_def
    by (simp add: NewTraceValidator_def hidden_traces_option_keeps_expected [OF opts])
  from trace_test.passed_load_expected [OF load _ refl _ this _ small(2) sizes expected] show ?thesis
    using waited small(1) by (simp add: trace_test.received_items_def items_def NewSampleConfigsTraceDataProvider_def)
qed

lemma hidden_option_keeps_expected:
  assumes "set opts \<subseteq> {WithHiddenLogsValidationErrorMessages}"
  shows "expectedLogs (foldl (\<lambda>v opt. opt v) v opts) = expectedLogs v"
  using assms by (induction opts arbitrary: v) (auto simp: WithHiddenLogsValidationErrorMessages_def)

text \<open>
  C12: a passed test of a filtering configuration has seen the expected logs. Although the validator alone accepts a
  backend that received nothing, the scenario waits until as many log records were received as the provider
  counted, so with as many expected records as sent ones, in one batch, exactly one batch with records was received and
  it compares equal to the expected one, however often the load generator asked the provider.
\<close>

theorem filtering_logs_sound:
  fixes dp' :: "('v, 'd, 'x) sampleConfigsDataProvider" and e lo :: "('d, 'x) logs"
  assumes load: "run_load (on_provider dp_logs GenerateLogs) (Suc n)
      (SetLoadGeneratorCounters 0 (NewSampleConfigsLogsDataProvider lo)) = Some (batches, dp')"
    and waited: "dataItemsGenerated dp' = Some (of_nat (items log_records rcvd))"
    and validated: "ValidateLogs body compare (NewLogsValidator [e] opts) rcvd = Inr []"
    and opts: "set opts \<subseteq> {WithHiddenLogsValidationErrorMessages}"
    and sizes: "\<forall>td \<in> set rcvd. compare e td = None \<longrightarrow> length (log_records td) = length (log_records e)"
    and expected: "length (log_records e) = length (log_records lo)" "log_records lo \<noteq> []"
    and small: "items log_records rcvd < 2 ^ 64" "length (log_records lo) < 2 ^ 64"
  shows "batches = lo # replicate n [] \<and>
    (\<exists>td. filter (\<lambda>td. log_records td \<noteq> []) rcvd = [td] \<and> compare e td = None)"
proof -
  have "assertExpectedLogsAreInReceived body compare [e] rcvd (hideLogErrors (NewLogsValidator [e] opts)) = Inr []"
    using validated unfolding ValidateLogs_def by (simp add: NewLogsValidator_def hidden_option_keeps_expected [OF opts])
  from log_test.passed_load_expected [OF load _ refl _ this _ small(2) sizes expected] show ?thesis
    using waited small(1) by (simp add: log_test.received_items_def items_def NewSampleConfigsLogsDataProvider_def)
qed

theorem filtering_logs_sound_witness:
  "\<exists>td. filter (\<lambda>td. log_records td \<noteq> []) [[], redacted] = [td] \<and> td = redacted"
proof -
  let ?cmp = "\<lambda>e td. if e = td then None else Some (Errorf ''differ'' [])"
  have r: "length (log_records redacted) = 1" "log_records redacted \<noteq> []" "log_records [] = []"
    by (simp_all add: redacted_def log_records_def)
  have c: "log_record_count redacted = 1" "items log_records [[], redacted] = 1"
    by (simp_all add: log_record_count_def r items_def)
  have "run_load (on_provider dp_logs GenerateLogs) (Suc 1)
      (SetLoadGeneratorCounters 0 (NewSampleConfigsLogsDataProvider redacted)) =
      Some ([redacted, []], SetLoadGeneratorCounters 1 (NewSampleConfigsLogsDataProvider redacted :: (unit, string, unit) sampleConfigsDataProvider))"
    by (simp add: on_provider_def SetLoadGeneratorCounters_def NewSampleConfigsLogsDataProvider_def no_data_def GenerateLogs_def c)
  moreover have "ValidateLogs id ?cmp (NewLogsValidator [redacted] [WithHiddenLogsValidationErrorMessages]) [[], redacted] = Inr []"
    unfolding ValidateLogs_def lg.run_pass_iff lg.passes_def
    by (simp add: r NewLogsValidator_def WithHiddenLogsValidationErrorMessages_def expected_for_def list_all_iff)
  ultimately show ?thesis
    using filtering_logs_sound [of 1 redacted _ _ "[[], redacted]" id ?cmp redacted "[WithHiddenLogsValidationErrorMessages]"]
    by (simp add: c r SetLoadGeneratorCounters_def)
qed

end
