(* ===== verification/Ingest_Receiver.thy ===== *)
theory Ingest_Receiver
  imports Go_Os "HOL-Library.Word"
begin

text \<open>
  The OTLP receivers of the data ingest tool (\<^verbatim>\<open>data-ingest-cli/receiver\<close>): the handlers of the HTTP
  receiver and the services of the gRPC receiver, which store what they receive in a file, and
  the life of a receiver from \<^verbatim>\<open>Start\<close> to \<^verbatim>\<open>Stop\<close> with handlers running concurrently. Decoders and
  encoders of telemetry (a value of type \<open>'t\<close>) are parameters. An error whose text is formatted
  into another one is kept inside it, as for \<^verbatim>\<open>%w\<close>; the format says which verb is used.
\<close>

datatype signal = Traces | Metrics | Logs

record 't otlp_codec =
  proto_decode :: "signal \<Rightarrow> string \<Rightarrow> 't result"
  json_decode :: "signal \<Rightarrow> string \<Rightarrow> 't result"
  json_encode :: "signal \<Rightarrow> 't \<Rightarrow> string result"
  response_encode :: "signal \<Rightarrow> string result"
  json_indent :: "string \<Rightarrow> string result"

text \<open>The configuration both receivers have; the timeout is in seconds.\<close>

record receiver_config =
  Port :: int
  OutputFile :: string
  Timeout :: int

section \<open>Storing what was received\<close>

text \<open>Errors of writing the file are logged and otherwise ignored.\<close>

definition WriteToFile :: "'t otlp_codec \<Rightarrow> os \<Rightarrow> string \<Rightarrow> string \<Rightarrow> os" where
  "WriteToFile c w dest raw =
     (case json_indent c raw of
        Inl err \<Rightarrow> (case write_file w dest raw of Inl err \<Rightarrow> w | Inr w' \<Rightarrow> w')
      | Inr prettyJSON \<Rightarrow> (case write_file w dest prettyJSON of Inl err \<Rightarrow> w | Inr w' \<Rightarrow> w'))"

section \<open>The HTTP receiver\<close>

text \<open>
  A request: its method, what reading its body gives, and the error of writing to its
  client. A handler ends in one of four ways: \<open>Fatal\<close> sends an error response and then ends the
  process (\<^verbatim>\<open>log.Fatalln\<close>), \<open>Failed_status\<close> only sets a status, \<open>Fatal_reply\<close> ends the process since the
  client cannot be written to, \<open>Reply\<close> has sent the response and goes on to signal that data
  was received.
\<close>

record http_request =
  rq_method :: string
  rq_body :: "string result"
  rq_write :: "go_error option"

datatype http_end = Fatal nat go_error | Failed_status nat | Fatal_reply go_error | Reply string

definition readRequest :: "http_request \<Rightarrow> (go_error \<times> nat) + string" where
  "readRequest req =
     (if rq_method req \<noteq> ''POST''
      then Inl (Errorf ''Invalid request method %s'' [rq_method req], 405)
      else case rq_body req of
             Inl err \<Rightarrow> Inl (Wrapf ''Failed to read request body %s'' [] err, 405)
           | Inr body \<Rightarrow> Inr body)"

text \<open>The response, written after the file.\<close>

definition respond :: "'t otlp_codec \<Rightarrow> signal \<Rightarrow> http_request \<Rightarrow> http_end" where
  "respond c sig req =
     (case response_encode c sig of
        Inl err \<Rightarrow> Failed_status 500
      | Inr msg \<Rightarrow> (case rq_write req of Some err \<Rightarrow> Fatal_reply err | None \<Rightarrow> Reply msg))"

definition handleTraces :: "'t otlp_codec \<Rightarrow> receiver_config \<Rightarrow> os \<Rightarrow> http_request \<Rightarrow> os \<times> http_end" where
  "handleTraces c cfg w req =
     (case readRequest req of
        Inl (err, status) \<Rightarrow> (w, Fatal status err)
      | Inr body \<Rightarrow>
          (case (case proto_decode c Traces body of Inr t \<Rightarrow> Inr t | Inl err \<Rightarrow> json_decode c Traces body) of
             Inl err \<Rightarrow> (w, Fatal 400 (Errorf ''Failed to unmarshal traces'' []))
           | Inr traces \<Rightarrow>
               (case json_encode c Traces traces of
                  Inl err \<Rightarrow> (w, Fatal 500 (Wrapf ''Failed to marshal traces to JSON %s'' [] err))
                | Inr data \<Rightarrow> (WriteToFile c w (OutputFile cfg) data, respond c Traces req))))"

definition handleMetrics :: "'t otlp_codec \<Rightarrow> receiver_config \<Rightarrow> os \<Rightarrow> http_request \<Rightarrow> os \<times> http_end" where
  "handleMetrics c cfg w req =
     (case readRequest req of
        Inl (err, status) \<Rightarrow> (w, Fatal status err)
      | Inr body \<Rightarrow>
          (case (case proto_decode c Metrics body of Inr t \<Rightarrow> Inr t | Inl err \<Rightarrow> json_decode c Metrics body) of
             Inl err \<Rightarrow> (w, Fatal 400 (Errorf ''Failed to unmarshal metrics'' []))
           | Inr metrics \<Rightarrow>
               (case json_encode c Metrics metrics of
                  Inl err \<Rightarrow> (w, Fatal 500 (Wrapf ''Failed to marshal metrics to JSON %s'' [] err))
                | Inr data \<Rightarrow> (WriteToFile c w (OutputFile cfg) data, respond c Metrics req))))"

definition handleLogs :: "'t otlp_codec \<Rightarrow> receiver_config \<Rightarrow> os \<Rightarrow> http_request \<Rightarrow> os \<times> http_end" where
  "handleLogs c cfg w req =
     (case readRequest req of
        Inl (err, status) \<Rightarrow> (w, Fatal status err)
      | Inr body \<Rightarrow>
          (case (case proto_decode c Logs body of Inr t \<Rightarrow> Inr t | Inl err \<Rightarrow> json_decode c Logs body) of
             Inl err \<Rightarrow> (w, Fatal 400 (Errorf ''Failed to unmarshal logs'' []))
           | Inr logs \<Rightarrow>
               (case json_encode c Logs logs of
                  Inl err \<Rightarrow> (w, Fatal 500 (Wrapf ''Failed to marshal logs to JSON %s'' [] err))
                | Inr data \<Rightarrow> (WriteToFile c w (OutputFile cfg) data, respond c Logs req))))"

section \<open>The gRPC receiver\<close>

text \<open>
  A service gets the telemetry decoded. \<open>Dropped\<close>: it could not be encoded, and the client gets a
  response without an error; \<open>Stored\<close>: the service goes on to signal that data was received.
\<close>

datatype export_end = Dropped | Stored

definition traceService_Export :: "'t otlp_codec \<Rightarrow> string \<Rightarrow> os \<Rightarrow> 't \<Rightarrow> os \<times> export_end" where
  "traceService_Export c outputFile w req =
     (case json_encode c Traces req of
        Inl err \<Rightarrow> (w, Dropped)
      | Inr traces \<Rightarrow> (WriteToFile c w outputFile traces, Stored))"

definition metricsService_Export :: "'t otlp_codec \<Rightarrow> string \<Rightarrow> os \<Rightarrow> 't \<Rightarrow> os \<times> export_end" where
  "metricsService_Export c outputFile w req =
     (case json_encode c Metrics req of
        Inl err \<Rightarrow> (w, Dropped)
      | Inr metrics \<Rightarrow> (WriteToFile c w outputFile metrics, Stored))"

definition logsService_Export :: "'t otlp_codec \<Rightarrow> string \<Rightarrow> os \<Rightarrow> 't \<Rightarrow> os \<times> export_end" where
  "logsService_Export c outputFile w req =
     (case json_encode c Logs req of
        Inl err \<Rightarrow> (w, Dropped)
      | Inr logs \<Rightarrow> (WriteToFile c w outputFile logs, Stored))"

section \<open>What a handler does next\<close>

datatype handler_next = Signal | Return | Exit

definition after_http :: "http_end \<Rightarrow> handler_next" where
  "after_http e =
     (case e of Fatal _ _ \<Rightarrow> Exit | Failed_status _ \<Rightarrow> Return | Fatal_reply _ \<Rightarrow> Exit | Reply _ \<Rightarrow> Signal)"

definition after_export :: "export_end \<Rightarrow> handler_next" where
  "after_export e = (case e of Dropped \<Rightarrow> Return | Stored \<Rightarrow> Signal)"

text \<open>
  The routes \<^verbatim>\<open>Start\<close> registers: paths of the HTTP server, to which an unknown path is answered
  with 404, and the three services of the gRPC server.
\<close>

definition serve_http ::
  "'t otlp_codec \<Rightarrow> receiver_config \<Rightarrow> os \<Rightarrow> string \<times> http_request \<Rightarrow> os \<times> handler_next" where
  "serve_http c cfg w rq =
     (case rq of (path, req) \<Rightarrow>
        if path = ''/v1/traces'' then map_prod id after_http (handleTraces c cfg w req)
        else if path = ''/v1/metrics'' then map_prod id after_http (handleMetrics c cfg w req)
        else if path = ''/v1/logs'' then map_prod id after_http (handleLogs c cfg w req)
        else (w, Return))"

definition serve_grpc ::
  "'t otlp_codec \<Rightarrow> receiver_config \<Rightarrow> os \<Rightarrow> signal \<times> 't \<Rightarrow> os \<times> handler_next" where
  "serve_grpc c cfg w rq =
     map_prod id after_export
       (case rq of
          (Traces, t) \<Rightarrow> traceService_Export c (OutputFile cfg) w t
        | (Metrics, t) \<Rightarrow> metricsService_Export c (OutputFile cfg) w t
        | (Logs, t) \<Rightarrow> logsService_Export c (OutputFile cfg) w t)"

text \<open>How long \<^verbatim>\<open>Stop\<close> waits for data: a duration, which is 64 bits wide.\<close>

definition stop_timeout :: "receiver_config \<Rightarrow> 64 word" where
  "stop_timeout cfg = word_of_int (Timeout cfg) * 1000000000"

section \<open>The life of a receiver\<close>

text \<open>
  The channel \<^verbatim>\<open>receivedDataChan\<close> is unbuffered: a handler that signals is blocked until \<^verbatim>\<open>Stop\<close>
  receives from the channel, which it does at most once. After it, or after the timeout, the gRPC
  receiver drains (\<^verbatim>\<open>GracefulStop\<close> refuses new calls and waits for those in progress), the HTTP
  receiver returns and leaves its server running.
\<close>

datatype handler_phase = Running | Blocked | Released | Finished

datatype receiver_phase = Serving | Awaiting | Draining | Stopped

record 'r receiver_state =
  rs_os :: os
  rs_phase :: receiver_phase
  rs_handlers :: "('r \<times> handler_phase) list"
  rs_exited :: bool

definition started :: "os \<Rightarrow> 'r receiver_state" where
  "started w = \<lparr>rs_os = w, rs_phase = Serving, rs_handlers = [], rs_exited = False\<rparr>"

definition accepting :: "bool \<Rightarrow> receiver_phase \<Rightarrow> bool" where
  "accepting graceful p \<longleftrightarrow> p = Serving \<or> p = Awaiting \<or> (p = Stopped \<and> \<not> graceful)"

definition after_wait :: "bool \<Rightarrow> receiver_phase" where
  "after_wait graceful = (if graceful then Draining else Stopped)"

definition run_handler :: "(os \<Rightarrow> 'r \<Rightarrow> os \<times> handler_next) \<Rightarrow> nat \<Rightarrow> 'r receiver_state \<Rightarrow> 'r receiver_state" where
  "run_handler serve i s =
     (let rq = fst (rs_handlers s ! i)
      in case serve (rs_os s) rq of
           (w, Signal) \<Rightarrow> s\<lparr>rs_os := w, rs_handlers := (rs_handlers s)[i := (rq, Blocked)]\<rparr>
         | (w, Return) \<Rightarrow> s\<lparr>rs_os := w, rs_handlers := (rs_handlers s)[i := (rq, Finished)]\<rparr>
         | (w, Exit) \<Rightarrow> s\<lparr>rs_os := w, rs_exited := True\<rparr>)"

inductive receiver_step ::
  "(os \<Rightarrow> 'r \<Rightarrow> os \<times> handler_next) \<Rightarrow> bool \<Rightarrow> 'r receiver_state \<Rightarrow> 'r receiver_state \<Rightarrow> bool"
  for serve graceful where
  accept: "\<not> rs_exited s \<Longrightarrow> accepting graceful (rs_phase s) \<Longrightarrow>
     receiver_step serve graceful s (s\<lparr>rs_handlers := rs_handlers s @ [(rq, Running)]\<rparr>)"
| handle: "\<not> rs_exited s \<Longrightarrow> i < length (rs_handlers s) \<Longrightarrow> snd (rs_handlers s ! i) = Running \<Longrightarrow>
     receiver_step serve graceful s (run_handler serve i s)"
| stop: "\<not> rs_exited s \<Longrightarrow> rs_phase s = Serving \<Longrightarrow>
     receiver_step serve graceful s (s\<lparr>rs_phase := Awaiting\<rparr>)"
| receive: "\<not> rs_exited s \<Longrightarrow> rs_phase s = Awaiting \<Longrightarrow>
     i < length (rs_handlers s) \<Longrightarrow> rs_handlers s ! i = (rq, Blocked) \<Longrightarrow>
     receiver_step serve graceful s
       (s\<lparr>rs_phase := after_wait graceful, rs_handlers := (rs_handlers s)[i := (rq, Released)]\<rparr>)"
| timeout: "\<not> rs_exited s \<Longrightarrow> rs_phase s = Awaiting \<Longrightarrow>
     receiver_step serve graceful s (s\<lparr>rs_phase := after_wait graceful\<rparr>)"
| drained: "\<not> rs_exited s \<Longrightarrow> rs_phase s = Draining \<Longrightarrow>
     list_all (\<lambda>h. snd h \<in> {Released, Finished}) (rs_handlers s) \<Longrightarrow>
     receiver_step serve graceful s (s\<lparr>rs_phase := Stopped\<rparr>)"

definition http_receiver_step ::
  "'t otlp_codec \<Rightarrow> receiver_config \<Rightarrow> (string \<times> http_request) receiver_state \<Rightarrow>
   (string \<times> http_request) receiver_state \<Rightarrow> bool" where
  "http_receiver_step c cfg = receiver_step (serve_http c cfg) False"

definition grpc_receiver_step ::
  "'t otlp_codec \<Rightarrow> receiver_config \<Rightarrow> (signal \<times> 't) receiver_state \<Rightarrow>
   (signal \<times> 't) receiver_state \<Rightarrow> bool" where
  "grpc_receiver_step c cfg = receiver_step (serve_grpc c cfg) True"

section \<open>The contract of a receiver\<close>

text \<open>
  What a request leaves in the output file, if anything (\<open>data\<close>), and what the life of the receiver
  relies on: a handler writes nothing else, a handler that signals has data, and how it ends is a
  matter of the request alone.
\<close>

definition overwrite :: "string \<Rightarrow> string option \<Rightarrow> os \<Rightarrow> os" where
  "overwrite out d w =
     (case d of None \<Rightarrow> w
      | Some t \<Rightarrow> if os_writable w out then w\<lparr>os_files := (os_files w)(out \<mapsto> t)\<rparr> else w)"

locale otlp_sink =
  fixes serve :: "os \<Rightarrow> 'r \<Rightarrow> os \<times> handler_next"
    and out :: string
    and data :: "'r \<Rightarrow> string option"
    and ending :: "'r \<Rightarrow> handler_next"
    and graceful :: bool
    and w0 :: os
  assumes serve_eq: "serve w r = (overwrite out (data r) w, ending r)"
    and signal_data: "ending r = Signal \<Longrightarrow> data r \<noteq> None"
begin

definition reach :: "'r receiver_state \<Rightarrow> 'r receiver_state \<Rightarrow> bool" where
  "reach = (receiver_step serve graceful)\<^sup>*\<^sup>*"

lemma run_handler_eq:
  "run_handler serve i s =
     (let r = fst (rs_handlers s ! i); w = overwrite out (data r) (rs_os s)
      in case ending r of
           Signal \<Rightarrow> s\<lparr>rs_os := w, rs_handlers := (rs_handlers s)[i := (r, Blocked)]\<rparr>
         | Return \<Rightarrow> s\<lparr>rs_os := w, rs_handlers := (rs_handlers s)[i := (r, Finished)]\<rparr>
         | Exit \<Rightarrow> s\<lparr>rs_os := w, rs_exited := True\<rparr>)"
  by (simp add: run_handler_def serve_eq Let_def split: handler_next.splits)

text \<open>The file: as it was, or what an accepted request left there; nothing else is written.\<close>

definition reqs :: "'r receiver_state \<Rightarrow> 'r set" where
  "reqs s = fst ` set (rs_handlers s)"

definition signalled :: "'r receiver_state \<Rightarrow> bool" where
  "signalled s = (\<exists>h \<in> set (rs_handlers s). snd h \<in> {Blocked, Released})"

definition file_ok :: "os \<Rightarrow> 'r set \<Rightarrow> bool \<Rightarrow> bool" where
  "file_ok w R sig \<longleftrightarrow>
     os_writable w = os_writable w0 \<and> os_readable w = os_readable w0 \<and>
     (\<forall>q. q \<noteq> out \<longrightarrow> os_files w q = os_files w0 q) \<and>
     (if os_writable w0 out
      then os_files w out \<in> data ` R - {None} \<or> os_files w out = os_files w0 out \<and> \<not> sig
      else os_files w out = os_files w0 out)"

lemma file_ok_mono: "file_ok w R sig \<Longrightarrow> R \<subseteq> R' \<Longrightarrow> (sig' \<Longrightarrow> sig) \<Longrightarrow> file_ok w R' sig'"
  by (auto simp: file_ok_def split: if_splits)

lemma file_ok_write:
  "file_ok w R sig \<Longrightarrow> r \<in> R \<Longrightarrow> data r \<noteq> None \<Longrightarrow> file_ok (overwrite out (data r) w) R sig'"
proof -
  assume ok: "file_ok w R sig" and r: "r \<in> R" and "data r \<noteq> None"
  then obtain d where d: "data r = Some d" by blast
  then have "Some d \<in> data ` R" using r by (metis imageI)
  with ok d show ?thesis by (simp add: file_ok_def overwrite_def split: if_splits)
qed

lemma overwrite_None: "overwrite out None w = w"
  by (simp add: overwrite_def)

lemma update_phase_mem:
  assumes "h \<in> set (hs[i := (r, p)])"
  shows "h = (r, p) \<or> h \<in> set hs"
  using assms set_update_subset_insert by fast

lemma reqs_subset: "i < length hs \<Longrightarrow> fst ` set hs \<subseteq> fst ` set (hs[i := (fst (hs ! i), p)])"
proof
  fix r assume "i < length hs" and "r \<in> fst ` set hs"
  then obtain j where "j < length hs" "r = fst (hs ! j)" by (auto simp: in_set_conv_nth)
  then have "r = fst (hs[i := (fst (hs ! i), p)] ! j)" and "j < length (hs[i := (fst (hs ! i), p)])"
    by (cases "i = j"; simp)+
  then show "r \<in> fst ` set (hs[i := (fst (hs ! i), p)])" by (metis imageI nth_mem)
qed

definition inv_file :: "'r receiver_state \<Rightarrow> bool" where
  "inv_file s \<longleftrightarrow> file_ok (rs_os s) (reqs s) (signalled s)"

lemma inv_file_started: "inv_file (started w0)"
  by (simp add: inv_file_def file_ok_def started_def signalled_def)

lemma inv_file_handle:
  assumes inv: "inv_file s" and i: "i < length (rs_handlers s)"
  shows "inv_file (run_handler serve i s)"
proof -
  let ?r = "fst (rs_handlers s ! i)" and ?hs = "\<lambda>p. (rs_handlers s)[i := (fst (rs_handlers s ! i), p)]"
  have r: "?r \<in> reqs s" using i unfolding reqs_def by (intro imageI nth_mem)
  have sub: "reqs s \<subseteq> fst ` set (?hs p)" for p using reqs_subset [OF i] by (simp add: reqs_def)
  have fin: "(\<exists>h \<in> set (?hs Finished). snd h \<in> {Blocked, Released}) \<Longrightarrow> signalled s"
    unfolding signalled_def using update_phase_mem by fastforce
  have ok: "file_ok (rs_os s) (reqs s) (signalled s)" using inv by (simp add: inv_file_def)
  let ?w = "overwrite out (data ?r) (rs_os s)"
  have w: "file_ok ?w (reqs s) (signalled s)"
    by (cases "data ?r") (use file_ok_write [OF ok r] ok in \<open>simp_all add: overwrite_None\<close>)
  show ?thesis
  proof (cases "ending ?r")
    case Signal
    have "file_ok ?w (reqs s) True" by (rule file_ok_write [OF ok r signal_data [OF Signal]])
    then show ?thesis
      using Signal sub [of Blocked] file_ok_mono
      by (simp add: run_handler_eq inv_file_def reqs_def signalled_def Let_def)
  next
    case Return
    then show ?thesis
      using w sub [of Finished] fin file_ok_mono
      by (simp add: run_handler_eq inv_file_def reqs_def signalled_def Let_def)
  next
    case Exit
    with w show ?thesis by (simp add: run_handler_eq inv_file_def reqs_def signalled_def Let_def)
  qed
qed

lemma inv_file_step: "receiver_step serve graceful s s' \<Longrightarrow> inv_file s \<Longrightarrow> inv_file s'"
proof (induction rule: receiver_step.induct)
  case (accept s rq)
  then show ?case
    by (auto simp: inv_file_def reqs_def signalled_def elim: file_ok_mono)
next
  case (handle s i)
  then show ?case by (simp add: inv_file_handle)
next
  case (receive s i rq)
  have rq: "fst (rs_handlers s ! i) = rq" using receive.hyps by simp
  have "signalled s" unfolding signalled_def
    by (rule bexI [OF _ nth_mem [OF receive.hyps(3)]]) (simp add: receive.hyps(4))
  moreover have "reqs s \<subseteq> fst ` set ((rs_handlers s)[i := (rq, Released)])"
    using reqs_subset [OF receive.hyps(3), of Released] unfolding rq reqs_def .
  moreover have "file_ok (rs_os s) (reqs s) (signalled s)" using receive.prems by (simp only: inv_file_def)
  ultimately have "file_ok (rs_os s) (fst ` set ((rs_handlers s)[i := (rq, Released)])) sig" for sig
    using file_ok_mono by blast
  then show ?case by (simp only: inv_file_def reqs_def) simp
qed (simp_all add: inv_file_def reqs_def signalled_def)

lemma inv_file_reach: "reach (started w0) s \<Longrightarrow> inv_file s"
  unfolding reach_def
  by (erule rtranclp_induct) (simp_all only: inv_file_started inv_file_step)

lemma reach_others: "reach (started w0) s \<Longrightarrow> q \<noteq> out \<Longrightarrow> os_files (rs_os s) q = os_files w0 q"
  using inv_file_reach by (simp add: inv_file_def file_ok_def)

lemma reach_stored:
  assumes "reach (started w0) s" and "os_writable w0 out" and h: "h \<in> set (rs_handlers s)"
    and "snd h = Blocked \<or> snd h = Released"
  shows "\<exists>r p d. (r, p) \<in> set (rs_handlers s) \<and> data r = Some d \<and> os_files (rs_os s) out = Some d"
proof -
  have "signalled s" using h assms(4) by (auto simp: signalled_def)
  then have "os_files (rs_os s) out \<in> data ` reqs s - {None}"
    using inv_file_reach [OF assms(1)] assms(2) by (simp add: inv_file_def file_ok_def)
  then obtain r where r: "os_files (rs_os s) out = data r" "data r \<noteq> None" "r \<in> reqs s"
    by (metis DiffD1 DiffD2 imageE singletonI)
  then obtain p where "(r, p) \<in> set (rs_handlers s)" by (auto simp: reqs_def)
  with r show ?thesis by (metis not_None_eq)
qed

text \<open>Stop receives from the channel at most once.\<close>

definition released :: "'r receiver_state \<Rightarrow> nat" where
  "released s = length (filter (\<lambda>h. snd h = Released) (rs_handlers s))"

definition inv_once :: "'r receiver_state \<Rightarrow> bool" where
  "inv_once s \<longleftrightarrow> released s \<le> (if rs_phase s \<in> {Serving, Awaiting} then 0 else 1)"

lemma filter_update:
  "i < length hs \<Longrightarrow> \<not> P (hs ! i) \<Longrightarrow>
   length (filter P (hs[i := x])) = length (filter P hs) + (if P x then 1 else 0)"
proof (induction hs arbitrary: i)
  case (Cons h hs)
  then show ?case by (cases i) auto
qed simp

lemma inv_once_step: "receiver_step serve graceful s s' \<Longrightarrow> inv_once s \<Longrightarrow> inv_once s'"
proof (induction rule: receiver_step.induct)
  case (handle s i)
  then show ?case
    by (cases "ending (fst (rs_handlers s ! i))")
      (simp_all add: run_handler_eq Let_def inv_once_def released_def filter_update)
next
  case (receive s i rq)
  then show ?case by (simp add: inv_once_def released_def filter_update after_wait_def)
qed (auto simp: inv_once_def released_def after_wait_def)

lemma inv_once_reach: "reach (started w0) s \<Longrightarrow> inv_once s"
proof (unfold reach_def, induction rule: rtranclp_induct)
  case base
  show ?case by (simp add: inv_once_def released_def started_def)
next
  case (step y z)
  then show ?case using inv_once_step by blast
qed

text \<open>A handler that is blocked when the receiver drains stays blocked: draining never ends.\<close>

definition stuck :: "'r receiver_state \<Rightarrow> bool" where
  "stuck s \<longleftrightarrow> rs_phase s = Draining \<and> (\<exists>h \<in> set (rs_handlers s). snd h = Blocked)"

lemma stuck_update:
  "h \<in> set hs \<Longrightarrow> snd h = Blocked \<Longrightarrow> snd (hs ! i) = Running \<Longrightarrow> h \<in> set (hs[i := x])"
proof -
  assume h: "h \<in> set hs" "snd h = Blocked" "snd (hs ! i) = Running"
  then obtain j where j: "j < length hs" "hs ! j = h" by (auto simp: in_set_conv_nth)
  with h have "i \<noteq> j" by auto
  then have "hs[i := x] ! j = h" "j < length (hs[i := x])" using j by auto
  then show ?thesis by (metis nth_mem)
qed

lemma stuck_step: "receiver_step serve graceful s s' \<Longrightarrow> stuck s \<Longrightarrow> stuck s'"
proof (induction rule: receiver_step.induct)
  case (handle s i)
  then obtain h where h: "h \<in> set (rs_handlers s)" "snd h = Blocked" by (auto simp: stuck_def)
  then have "h \<in> set ((rs_handlers s)[i := x])" for x using handle.hyps(3) stuck_update by fast
  with h handle.prems show ?case
    by (cases "ending (fst (rs_handlers s ! i))")
      (auto simp: run_handler_eq Let_def stuck_def)
qed (auto simp: stuck_def list_all_iff)

lemma stuck_reach: "reach s s' \<Longrightarrow> stuck s \<Longrightarrow> stuck s'"
  unfolding reach_def by (induction rule: rtranclp_induct) (auto simp: stuck_step)

text \<open>The timer lets the wait end in any case.\<close>

lemma wait_ends:
  "\<not> rs_exited s \<Longrightarrow> rs_phase s = Awaiting \<Longrightarrow>
   receiver_step serve graceful s (s\<lparr>rs_phase := after_wait graceful\<rparr>)"
  by (rule timeout)

end

section \<open>The two receivers\<close>

definition file_text :: "'t otlp_codec \<Rightarrow> string \<Rightarrow> string" where
  "file_text c raw = (case json_indent c raw of Inl err \<Rightarrow> raw | Inr p \<Rightarrow> p)"

lemma WriteToFile_eq: "WriteToFile c w dest raw = overwrite dest (Some (file_text c raw)) w"
  by (simp add: WriteToFile_def overwrite_def file_text_def write_file_def split: sum.split)

text \<open>The signal of a route, and the telemetry of a request in the encoding that is stored.\<close>

definition route :: "string \<Rightarrow> signal option" where
  "route path =
     (if path = ''/v1/traces'' then Some Traces else if path = ''/v1/metrics'' then Some Metrics
      else if path = ''/v1/logs'' then Some Logs else None)"

definition request_json :: "'t otlp_codec \<Rightarrow> signal \<Rightarrow> http_request \<Rightarrow> string option" where
  "request_json c sig req =
     (case readRequest req of
        Inl _ \<Rightarrow> None
      | Inr body \<Rightarrow>
          (case (case proto_decode c sig body of Inr t \<Rightarrow> Inr t | Inl err \<Rightarrow> json_decode c sig body) of
             Inl _ \<Rightarrow> None
           | Inr t \<Rightarrow> (case json_encode c sig t of Inl _ \<Rightarrow> None | Inr raw \<Rightarrow> Some raw)))"

definition http_data :: "'t otlp_codec \<Rightarrow> string \<times> http_request \<Rightarrow> string option" where
  "http_data c rq =
     (case rq of (path, req) \<Rightarrow>
        case route path of None \<Rightarrow> None
        | Some sig \<Rightarrow> map_option (file_text c) (request_json c sig req))"

definition http_ending :: "'t otlp_codec \<Rightarrow> string \<times> http_request \<Rightarrow> handler_next" where
  "http_ending c rq =
     (case rq of (path, req) \<Rightarrow>
        case route path of None \<Rightarrow> Return
        | Some sig \<Rightarrow> if request_json c sig req = None then Exit else after_http (respond c sig req))"

definition grpc_data :: "'t otlp_codec \<Rightarrow> signal \<times> 't \<Rightarrow> string option" where
  "grpc_data c rq =
     (case rq of (sig, t) \<Rightarrow>
        case json_encode c sig t of Inl _ \<Rightarrow> None | Inr raw \<Rightarrow> Some (file_text c raw))"

definition grpc_ending :: "'t otlp_codec \<Rightarrow> signal \<times> 't \<Rightarrow> handler_next" where
  "grpc_ending c rq = (if grpc_data c rq = None then Return else Signal)"

lemmas http_handler_defs = handleTraces_def handleMetrics_def handleLogs_def request_json_def
  WriteToFile_eq after_http_def overwrite_def

lemma handle_spec:
  "map_prod id after_http (handleTraces c cfg w req) =
     (overwrite (OutputFile cfg) (map_option (file_text c) (request_json c Traces req)) w,
      if request_json c Traces req = None then Exit else after_http (respond c Traces req))"
  "map_prod id after_http (handleMetrics c cfg w req) =
     (overwrite (OutputFile cfg) (map_option (file_text c) (request_json c Metrics req)) w,
      if request_json c Metrics req = None then Exit else after_http (respond c Metrics req))"
  "map_prod id after_http (handleLogs c cfg w req) =
     (overwrite (OutputFile cfg) (map_option (file_text c) (request_json c Logs req)) w,
      if request_json c Logs req = None then Exit else after_http (respond c Logs req))"
  by (simp_all add: http_handler_defs split: sum.split)

interpretation http_sink: otlp_sink "serve_http c cfg" "OutputFile cfg" "http_data c" "http_ending c" False w0
  for c :: "'t otlp_codec" and cfg w0
proof unfold_locales
  show "serve_http c cfg w r = (overwrite (OutputFile cfg) (http_data c r) w, http_ending c r)" for w r
    by (cases r) (simp add: serve_http_def http_data_def http_ending_def route_def handle_spec overwrite_def)
  show "http_ending c r = Signal \<Longrightarrow> http_data c r \<noteq> None" for r
    by (cases r) (auto simp: http_ending_def http_data_def split: option.splits if_splits)
qed

interpretation grpc_sink: otlp_sink "serve_grpc c cfg" "OutputFile cfg" "grpc_data c" "grpc_ending c" True w0
  for c :: "'t otlp_codec" and cfg w0
proof unfold_locales
  show "serve_grpc c cfg w r = (overwrite (OutputFile cfg) (grpc_data c r) w, grpc_ending c r)" for w r
  proof (cases r)
    case (Pair sig t)
    then show ?thesis
      by (cases sig; cases "json_encode c sig t")
        (simp_all add: serve_grpc_def grpc_data_def grpc_ending_def WriteToFile_eq after_export_def
          traceService_Export_def metricsService_Export_def logsService_Export_def overwrite_def)
  qed
  show "grpc_ending c r = Signal \<Longrightarrow> grpc_data c r \<noteq> None" for r
    by (simp add: grpc_ending_def split: if_splits)
qed


text \<open>Two calls that arrive before \<open>Stop\<close>, the first one received by it.\<close>

definition two_exports :: "'t otlp_codec \<Rightarrow> receiver_config \<Rightarrow> os \<Rightarrow> signal \<times> 't \<Rightarrow> signal \<times> 't \<Rightarrow>
    (signal \<times> 't) receiver_state" where
  "two_exports c cfg w a b =
     \<lparr>rs_os = overwrite (OutputFile cfg) (grpc_data c b) (overwrite (OutputFile cfg) (grpc_data c a) w),
      rs_phase = Draining, rs_handlers = [(a, Released), (b, Blocked)], rs_exited = False\<rparr>"

lemma two_exports_reachable:
  assumes "grpc_data c a \<noteq> None" and "grpc_data c b \<noteq> None"
  shows "(grpc_receiver_step c cfg)\<^sup>*\<^sup>* (started w) (two_exports c cfg w a b)"
proof -
  let ?R = "receiver_step (serve_grpc c cfg) True"
  let ?w1 = "overwrite (OutputFile cfg) (grpc_data c a) w"
  let ?w2 = "overwrite (OutputFile cfg) (grpc_data c b) ?w1"
  let ?s = "\<lambda>w p hs. \<lparr>rs_os = w, rs_phase = p, rs_handlers = hs, rs_exited = False\<rparr>"
  have e: "grpc_ending c a = Signal" "grpc_ending c b = Signal"
    using assms by (simp_all add: grpc_ending_def)
  have "?R (?s w Serving []) (?s w Serving [(a, Running)])"
    using receiver_step.accept [of "?s w Serving []" True "serve_grpc c cfg" a] by (simp add: accepting_def)
  moreover have "?R (?s w Serving [(a, Running)]) (?s w Serving [(a, Running), (b, Running)])"
    using receiver_step.accept [of "?s w Serving [(a, Running)]" True "serve_grpc c cfg" b]
    by (simp add: accepting_def)
  moreover have "?R (?s w Serving [(a, Running), (b, Running)]) (?s ?w1 Serving [(a, Blocked), (b, Running)])"
    using receiver_step.handle [of "?s w Serving [(a, Running), (b, Running)]" 0 "serve_grpc c cfg" True]
    by (simp add: grpc_sink.run_handler_eq e Let_def)
  moreover have "?R (?s ?w1 Serving [(a, Blocked), (b, Running)]) (?s ?w2 Serving [(a, Blocked), (b, Blocked)])"
    using receiver_step.handle [of "?s ?w1 Serving [(a, Blocked), (b, Running)]" "Suc 0" "serve_grpc c cfg" True]
    by (simp add: grpc_sink.run_handler_eq e Let_def)
  moreover have "?R (?s ?w2 Serving [(a, Blocked), (b, Blocked)]) (?s ?w2 Awaiting [(a, Blocked), (b, Blocked)])"
    using receiver_step.stop [of "?s ?w2 Serving [(a, Blocked), (b, Blocked)]" "serve_grpc c cfg" True] by simp
  moreover have "?R (?s ?w2 Awaiting [(a, Blocked), (b, Blocked)]) (?s ?w2 Draining [(a, Released), (b, Blocked)])"
    using receiver_step.receive [of "?s ?w2 Awaiting [(a, Blocked), (b, Blocked)]" 0 a "serve_grpc c cfg" True]
    by (simp add: after_wait_def)
  ultimately show ?thesis
    unfolding grpc_receiver_step_def started_def two_exports_def
    by (meson converse_rtranclp_into_rtranclp rtranclp.rtrancl_refl)
qed

text \<open>
  C28: two calls of the gRPC receiver that arrive before the tool stops it can block the tool
  for good: \<open>Stop\<close> takes the signal of one of them and then drains the server, which waits for the
  other call, which waits for its signal to be taken. From such a state no step leads to the end of
  \<open>Stop\<close>, whatever the timeout is.
\<close>

theorem grpc_stop_blocks:
  assumes "json_encode c sig\<^sub>1 t\<^sub>1 = Inr d\<^sub>1" and "json_encode c sig\<^sub>2 t\<^sub>2 = Inr d\<^sub>2"
  shows "\<exists>s. (grpc_receiver_step c cfg)\<^sup>*\<^sup>* (started w) s \<and>
    (\<forall>s'. (grpc_receiver_step c cfg)\<^sup>*\<^sup>* s s' \<longrightarrow> rs_phase s' = Draining)"
proof (intro exI conjI)
  let ?s = "two_exports c cfg w (sig\<^sub>1, t\<^sub>1) (sig\<^sub>2, t\<^sub>2)"
  show "(grpc_receiver_step c cfg)\<^sup>*\<^sup>* (started w) ?s"
    by (rule two_exports_reachable) (simp_all add: grpc_data_def assms)
  have "grpc_sink.stuck ?s" by (simp add: grpc_sink.stuck_def two_exports_def)
  then have "grpc_sink.stuck s'" if "(grpc_receiver_step c cfg)\<^sup>*\<^sup>* ?s s'" for s'
    using grpc_sink.stuck_reach that unfolding grpc_sink.reach_def grpc_receiver_step_def by blast
  then show "\<forall>s'. (grpc_receiver_step c cfg)\<^sup>*\<^sup>* ?s s' \<longrightarrow> rs_phase s' = Draining"
    unfolding grpc_sink.stuck_def by blast
qed

text \<open>
  The HTTP receiver can always be stopped: from every reachable state in which the process
  runs and \<open>Stop\<close> was called, it returns after at most one more step, be it the timer's; and over its life
  at most one handler of a receiver is let go by \<open>Stop\<close>.
\<close>

theorem http_stop_returns:
  assumes "(http_receiver_step c cfg)\<^sup>*\<^sup>* (started w) s" and "\<not> rs_exited s" and "rs_phase s \<noteq> Serving"
  shows "(\<exists>s'. (http_receiver_step c cfg)\<^sup>=\<^sup>= s s' \<and> rs_phase s' = Stopped) \<and>
    length (filter (\<lambda>h. snd h = Released) (rs_handlers s)) \<le> 1"
proof
  have "rs_phase s \<noteq> Draining"
    using assms(1) unfolding http_receiver_step_def
  proof (induction rule: rtranclp_induct)
    case (step y z)
    from step(2,3) show ?case
      by (induction rule: receiver_step.induct)
        (auto simp: after_wait_def run_handler_def Let_def split: prod.splits handler_next.splits)
  qed (simp add: started_def)
  with assms(3) have "rs_phase s = Awaiting \<or> rs_phase s = Stopped" by (cases "rs_phase s") auto
  then show "\<exists>s'. (http_receiver_step c cfg)\<^sup>=\<^sup>= s s' \<and> rs_phase s' = Stopped"
  proof
    assume "rs_phase s = Awaiting"
    then have "http_receiver_step c cfg s (s\<lparr>rs_phase := Stopped\<rparr>)"
      using http_sink.wait_ends [OF assms(2)] by (simp add: http_receiver_step_def after_wait_def)
    then show ?thesis by (intro exI [of _ "s\<lparr>rs_phase := Stopped\<rparr>"]) simp
  qed auto
  show "length (filter (\<lambda>h. snd h = Released) (rs_handlers s)) \<le> 1"
    using http_sink.inv_once_reach [of c cfg w s] assms(1)
    by (auto simp: http_sink.reach_def http_receiver_step_def http_sink.inv_once_def
        http_sink.released_def split: if_splits)
qed

section \<open>Examples\<close>

text \<open>A codec whose telemetry is its own JSON.\<close>

definition plain_codec :: "string otlp_codec" where
  "plain_codec = \<lparr>proto_decode = \<lambda>_ b. Inl (Errorf ''not proto'' []), json_decode = \<lambda>_ b. Inr b,
     json_encode = \<lambda>_ t. Inr t, response_encode = \<lambda>_. Inr [], json_indent = \<lambda>t. Inr t\<rparr>"

definition sink_os :: os where
  "sink_os = \<lparr>os_files = Map.empty, os_readable = \<lambda>_. True, os_writable = \<lambda>_. True,
     os_env = Map.empty, os_stdout = []\<rparr>"

definition sink_config :: receiver_config where
  "sink_config = \<lparr>Port = 4319, OutputFile = ''out.json'', Timeout = 300\<rparr>"

definition posted :: "string \<times> http_request" where
  "posted = (''/v1/traces'', \<lparr>rq_method = ''POST'', rq_body = Inr ''{}'', rq_write = None\<rparr>)"

definition one_posted :: "receiver_phase \<Rightarrow> (string \<times> http_request) receiver_state" where
  "one_posted p = \<lparr>rs_os = sink_os\<lparr>os_files := [''out.json'' \<mapsto> ''{}'']\<rparr>, rs_phase = p,
     rs_handlers = [(posted, Blocked)], rs_exited = False\<rparr>"

lemma one_posted_reachable:
  "(http_receiver_step plain_codec sink_config)\<^sup>*\<^sup>* (started sink_os) (one_posted Serving)"
  "(http_receiver_step plain_codec sink_config)\<^sup>*\<^sup>* (started sink_os) (one_posted Awaiting)"
proof -
  let ?R = "receiver_step (serve_http plain_codec sink_config) False"
  let ?s = "started sink_os\<lparr>rs_handlers := [(posted, Running)]\<rparr>"
  have "?R (started sink_os) ?s"
    using receiver_step.accept [of "started sink_os" False "serve_http plain_codec sink_config" posted]
    by (simp add: started_def accepting_def)
  moreover have "http_ending plain_codec posted = Signal" "http_data plain_codec posted = Some ''{}''"
    by (simp_all add: http_ending_def http_data_def posted_def route_def request_json_def readRequest_def
        plain_codec_def respond_def after_http_def file_text_def)
  then have "run_handler (serve_http plain_codec sink_config) 0 ?s = one_posted Serving"
    by (simp add: http_sink.run_handler_eq started_def one_posted_def overwrite_def sink_os_def
        sink_config_def Let_def)
  then have "?R ?s (one_posted Serving)"
    using receiver_step.handle [of ?s 0 "serve_http plain_codec sink_config" False]
    by (simp add: started_def)
  ultimately show r: "(http_receiver_step plain_codec sink_config)\<^sup>*\<^sup>* (started sink_os) (one_posted Serving)"
    unfolding http_receiver_step_def by (meson rtranclp.rtrancl_refl rtranclp.rtrancl_into_rtrancl)
  have "?R (one_posted Serving) (one_posted Awaiting)"
    using receiver_step.stop [of "one_posted Serving" "serve_http plain_codec sink_config" False]
    by (simp add: one_posted_def)
  with r show "(http_receiver_step plain_codec sink_config)\<^sup>*\<^sup>* (started sink_os) (one_posted Awaiting)"
    unfolding http_receiver_step_def by (rule rtranclp.rtrancl_into_rtrancl)
qed


theorem http_stop_returns_witness:
  "\<exists>s'. (http_receiver_step plain_codec sink_config)\<^sup>=\<^sup>= (one_posted Awaiting) s' \<and> rs_phase s' = Stopped"
proof -
  have "\<not> rs_exited (one_posted Awaiting)" "rs_phase (one_posted Awaiting) \<noteq> Serving"
    by (simp_all add: one_posted_def)
  from http_stop_returns [OF one_posted_reachable(2) this] show ?thesis ..
qed

theorem grpc_stop_blocks_witness:
  "\<exists>s. (grpc_receiver_step plain_codec sink_config)\<^sup>*\<^sup>* (started sink_os) s \<and>
    (\<forall>s'. (grpc_receiver_step plain_codec sink_config)\<^sup>*\<^sup>* s s' \<longrightarrow> rs_phase s' = Draining)"
  by (rule grpc_stop_blocks [of plain_codec Traces "''a''" "''a''" Logs "''b''" "''b''"])
    (simp_all add: plain_codec_def)

end
