(* ===== verification/Ingest_Senders.thy ===== *)
theory Ingest_Senders
  imports Ingest_Receiver
begin

text \<open>
  The senders of the data ingest tool (\<^verbatim>\<open>data-ingest-cli/sender\<close>): gRPC, statsd, syslog, zipkin and
  fluent. What the process does to the outside is a trace of events; how the outside reacts
  (an address that does not resolve, a connection that is refused, a failing write) is a
  parameter that may depend on the trace. The state threaded through is the files and the trace.
\<close>

section \<open>Effects\<close>

text \<open>
  \<open>Listening\<close>, \<open>Await\<close> and \<open>Drain\<close> belong to the life of a receiver. \<open>Dial\<close> is a connection that was
  established, \<open>Wrote\<close> an attempt to write to it, \<open>Deadline\<close> its write deadline in seconds.
  \<open>'t\<close> is telemetry, \<open>'j\<close> a JSON object.
\<close>

datatype ('t, 'j) event =
    Listening string
  | Await "64 word"
  | Drain
  | Dial bool string string
  | Deadline nat
  | Wrote string
  | Hangup
  | Export string signal 't
  | Post string string string
  | Fluent_post string int string 'j
  | Serve string string

record ('t, 'j) world =
  w_os :: os
  w_trace :: "('t, 'j) event list"

definition emit :: "('t, 'j) event \<Rightarrow> ('t, 'j) world \<Rightarrow> ('t, 'j) world" where
  "emit e w = w\<lparr>w_trace := w_trace w @ [e]\<rparr>"

text \<open>A JSON value as far as the tool looks at it.\<close>

datatype 'j jval = JString string | JObject 'j | JOther

record ('t, 'z, 'j) ingest_env =
  codec :: "'t otlp_codec"
  listen_err :: "('t, 'j) event list \<Rightarrow> string \<Rightarrow> go_error option"
  grpc_client_err :: "string \<Rightarrow> go_error option"
  export_err :: "('t, 'j) event list \<Rightarrow> string \<Rightarrow> signal \<Rightarrow> 't \<Rightarrow> go_error option"
  resolve_addr :: "string \<Rightarrow> string \<Rightarrow> string result"
  dial_err :: "('t, 'j) event list \<Rightarrow> string \<Rightarrow> string \<Rightarrow> go_error option"
  write_err :: "('t, 'j) event list \<Rightarrow> string \<Rightarrow> go_error option"
  from_traces :: "'t \<Rightarrow> 'z result"
  zipkin_serialize :: "'z \<Rightarrow> string result"
  zipkin_content_type :: string
  zipkin_v1 :: "string \<Rightarrow> 't result"
  zipkin_v2 :: "string \<Rightarrow> 't result"
  new_request_err :: "string \<Rightarrow> go_error option"
  post_result :: "('t, 'j) event list \<Rightarrow> string \<Rightarrow> string \<Rightarrow> go_error + nat"
  url_host_port :: "string \<Rightarrow> (string \<times> string) result"
  fluent_client_err :: "string \<Rightarrow> int \<Rightarrow> go_error option"
  fluent_post_err :: "('t, 'j) event list \<Rightarrow> string \<Rightarrow> 'j \<Rightarrow> go_error option"
  json_object :: "string \<Rightarrow> (string \<rightharpoonup> 'j jval) result"
  serve_err :: "('t, 'j) event list \<Rightarrow> string \<Rightarrow> go_error option"

section \<open>OTLP over gRPC\<close>

record grpc_sender = gs_target :: string

definition new_grpc_sender :: "('t, 'z, 'j) ingest_env \<Rightarrow> string \<Rightarrow> grpc_sender result" where
  "new_grpc_sender env url =
     (case grpc_client_err env url of Some err \<Rightarrow> Inl err | None \<Rightarrow> Inr \<lparr>gs_target = url\<rparr>)"

definition SendTraces :: "('t, 'z, 'j) ingest_env \<Rightarrow> grpc_sender \<Rightarrow> 't \<Rightarrow> ('t, 'j) world \<Rightarrow>
    ('t, 'j) world \<times> go_error option" where
  "SendTraces env s traces w =
     (emit (Export (gs_target s) Traces traces) w, export_err env (w_trace w) (gs_target s) Traces traces)"

definition SendLogs :: "('t, 'z, 'j) ingest_env \<Rightarrow> grpc_sender \<Rightarrow> 't \<Rightarrow> ('t, 'j) world \<Rightarrow>
    ('t, 'j) world \<times> go_error option" where
  "SendLogs env s logs w =
     (emit (Export (gs_target s) Logs logs) w, export_err env (w_trace w) (gs_target s) Logs logs)"

definition SendMetrics :: "('t, 'z, 'j) ingest_env \<Rightarrow> grpc_sender \<Rightarrow> 't \<Rightarrow> ('t, 'j) world \<Rightarrow>
    ('t, 'j) world \<times> go_error option" where
  "SendMetrics env s metrics w =
     (emit (Export (gs_target s) Metrics metrics) w, export_err env (w_trace w) (gs_target s) Metrics metrics)"

section \<open>Statsd\<close>

definition UDP :: string where "UDP = ''udp''"
definition UDP4 :: string where "UDP4 = ''udp4''"
definition UDP6 :: string where "UDP6 = ''udp6''"
definition TCP :: string where "TCP = ''tcp''"
definition TCP4 :: string where "TCP4 = ''tcp4''"
definition TCP6 :: string where "TCP6 = ''tcp6''"
definition UDS :: string where "UDS = ''unixgram''"

lemmas protocol_defs = UDP_def UDP4_def UDP6_def TCP_def TCP4_def TCP6_def UDS_def

record StatsdSender =
  statsd_url :: string
  statsd_protocol :: string

definition new_statsd :: "string \<Rightarrow> string \<Rightarrow> StatsdSender result" where
  "new_statsd url protocol = Inr \<lparr>statsd_url = url, statsd_protocol = protocol\<rparr>"

definition sendUDPData :: "('t, 'z, 'j) ingest_env \<Rightarrow> StatsdSender \<Rightarrow> string \<Rightarrow> ('t, 'j) world \<Rightarrow>
    ('t, 'j) world \<times> go_error option" where
  "sendUDPData env s metrics w =
     (case resolve_addr env (statsd_protocol s) (statsd_url s) of
        Inl err \<Rightarrow> (w, Some (Wrapf ''Error resolving address: %v'' [] err))
      | Inr udpAddr \<Rightarrow>
          (case dial_err env (w_trace w) (statsd_protocol s) udpAddr of
             Some err \<Rightarrow> (w, Some (Wrapf ''Error creating UDP connection: %v'' [] err))
           | None \<Rightarrow>
               (let w = emit (Dial False (statsd_protocol s) udpAddr) w;
                    w = emit (Deadline 1) w;
                    err = write_err env (w_trace w) metrics;
                    w = emit (Wrote metrics) w;
                    w = emit Hangup w
                in (w, case err of Some err \<Rightarrow> Some (Wrapf ''Error sending data: %v'' [] err)
                       | None \<Rightarrow> None))))"

definition sendTCPData :: "('t, 'z, 'j) ingest_env \<Rightarrow> StatsdSender \<Rightarrow> string \<Rightarrow> ('t, 'j) world \<Rightarrow>
    ('t, 'j) world \<times> go_error option" where
  "sendTCPData env s metrics w =
     (case resolve_addr env (statsd_protocol s) (statsd_url s) of
        Inl err \<Rightarrow> (w, Some (Wrapf ''Error resolving TCP address: %v'' [] err))
      | Inr tcpAddr \<Rightarrow>
          (case dial_err env (w_trace w) (statsd_protocol s) tcpAddr of
             Some err \<Rightarrow> (w, Some (Wrapf ''Error creating TCP connection: %v'' [] err))
           | None \<Rightarrow>
               (let w = emit (Dial False (statsd_protocol s) tcpAddr) w;
                    w = emit (Deadline 1) w;
                    err = write_err env (w_trace w) metrics;
                    w = emit (Wrote metrics) w;
                    w = emit Hangup w
                in (w, case err of Some err \<Rightarrow> Some (Wrapf ''Error sending data: %v'' [] err)
                       | None \<Rightarrow> None))))"

definition sendUnixData :: "('t, 'z, 'j) ingest_env \<Rightarrow> StatsdSender \<Rightarrow> string \<Rightarrow> ('t, 'j) world \<Rightarrow>
    ('t, 'j) world \<times> go_error option" where
  "sendUnixData env s metrics w =
     (case resolve_addr env (statsd_protocol s) (statsd_url s) of
        Inl err \<Rightarrow> (w, Some (Wrapf ''Error resolving Unix address: %v'' [] err))
      | Inr addr \<Rightarrow>
          (case dial_err env (w_trace w) (statsd_protocol s) addr of
             Some err \<Rightarrow> (w, Some (Wrapf ''Error creating Unixgram connection: %v'' [] err))
           | None \<Rightarrow>
               (let w = emit (Dial False (statsd_protocol s) addr) w;
                    err = write_err env (w_trace w) metrics;
                    w = emit (Wrote metrics) w;
                    w = emit Hangup w
                in (w, case err of Some err \<Rightarrow> Some (Wrapf ''Error sending data: %v'' [] err)
                       | None \<Rightarrow> None))))"

definition statsd_SendMetrics :: "('t, 'z, 'j) ingest_env \<Rightarrow> StatsdSender \<Rightarrow> string \<Rightarrow> ('t, 'j) world \<Rightarrow>
    ('t, 'j) world \<times> go_error option" where
  "statsd_SendMetrics env s metrics w =
     (if statsd_protocol s \<in> {UDP, UDP4, UDP6} then sendUDPData env s metrics w
      else if statsd_protocol s \<in> {TCP, TCP4, TCP6} then sendTCPData env s metrics w
      else if statsd_protocol s = UDS then sendUnixData env s metrics w
      else (w, Some (Errorf ''unsupported protocol %s'' [statsd_protocol s])))"

section \<open>Syslog\<close>

text \<open>A sender keeps its connection, if it has one; a TLS configuration is used for tcp only.\<close>

record syslog_sender =
  sy_transport :: string
  sy_addr :: string
  sy_tls :: bool
  sy_conn :: bool

definition dial :: "('t, 'z, 'j) ingest_env \<Rightarrow> syslog_sender \<Rightarrow> ('t, 'j) world \<Rightarrow>
    syslog_sender \<times> ('t, 'j) world \<times> go_error option" where
  "dial env s w =
     (let w = (if sy_conn s then emit Hangup w else w);
          s = s\<lparr>sy_conn := False\<rparr>;
          tls = (sy_tls s \<and> sy_transport s = ''tcp'')
      in case dial_err env (w_trace w) (sy_transport s) (sy_addr s) of
           Some err \<Rightarrow> (s, w, Some err)
         | None \<Rightarrow> (s\<lparr>sy_conn := True\<rparr>, emit (Dial tls (sy_transport s) (sy_addr s)) w, None))"

definition Connect :: "('t, 'z, 'j) ingest_env \<Rightarrow> string \<Rightarrow> string \<Rightarrow> ('t, 'j) world \<Rightarrow>
    ('t, 'j) world \<times> syslog_sender result" where
  "Connect env endpoint transport w =
     (case dial env \<lparr>sy_transport = transport, sy_addr = endpoint, sy_tls = False, sy_conn = False\<rparr> w of
        (s, w, Some err) \<Rightarrow> (w, Inl err)
      | (s, w, None) \<Rightarrow> (w, Inr s))"

definition write_msg :: "('t, 'z, 'j) ingest_env \<Rightarrow> string \<Rightarrow> ('t, 'j) world \<Rightarrow>
    ('t, 'j) world \<times> go_error option" where
  "write_msg env msg w =
     (let msg = (if \<not> has_suffix msg nl then msg @ nl else msg)
      in (emit (Wrote msg) w, write_err env (w_trace w) msg))"

definition syslog_Write :: "('t, 'z, 'j) ingest_env \<Rightarrow> syslog_sender \<Rightarrow> string \<Rightarrow> ('t, 'j) world \<Rightarrow>
    syslog_sender \<times> ('t, 'j) world \<times> go_error option" where
  "syslog_Write env s msgStr w =
     (let (w, written) =
            (if sy_conn s
             then (case write_msg env msgStr w of (w, err) \<Rightarrow> (w, err = None))
             else (w, False))
      in if written then (s, w, None)
         else case dial env s w of
                (s, w, Some err) \<Rightarrow> (s, w, Some err)
              | (s, w, None) \<Rightarrow> (case write_msg env msgStr w of (w, err) \<Rightarrow> (s, w, err)))"

section \<open>Zipkin\<close>

record ZipkinSender = zipkin_url :: string

definition new_zipkin :: "string \<Rightarrow> ZipkinSender result" where
  "new_zipkin url = Inr \<lparr>zipkin_url = url\<rparr>"

definition push_failed :: "go_error \<Rightarrow> go_error" where
  "push_failed err = Wrapf ''failed to push trace data via Zipkin sender: %w'' [] err"

definition zipkin_SendTraces :: "('t, 'z, 'j) ingest_env \<Rightarrow> ZipkinSender \<Rightarrow> 't \<Rightarrow> ('t, 'j) world \<Rightarrow>
    ('t, 'j) world \<times> go_error option" where
  "zipkin_SendTraces env s traces w =
     (case from_traces env traces of
        Inl err \<Rightarrow> (w, Some (push_failed err))
      | Inr spans \<Rightarrow>
          (case zipkin_serialize env spans of
             Inl err \<Rightarrow> (w, Some (push_failed err))
           | Inr body \<Rightarrow>
               (case new_request_err env (zipkin_url s) of
                  Some err \<Rightarrow> (w, Some (push_failed err))
                | None \<Rightarrow>
                    (let resp = post_result env (w_trace w) (zipkin_url s) body;
                         w = emit (Post (zipkin_url s) (zipkin_content_type env) body) w
                     in case resp of
                          Inl err \<Rightarrow> (w, Some (push_failed err))
                        | Inr status \<Rightarrow>
                            if status < 200 \<or> status > 299
                            then (w, Some (Errorf ''failed the request with status code %d'' [show_nat status]))
                            else (w, None)))))"

section \<open>Fluent\<close>

record FluentSender =
  fluent_host :: string
  fluent_port :: int

definition new_fluent :: "('t, 'z, 'j) ingest_env \<Rightarrow> string \<Rightarrow> int \<Rightarrow> FluentSender result" where
  "new_fluent env targetURL targetPort =
     (case fluent_client_err env targetURL targetPort of
        Some err \<Rightarrow> Inl err
      | None \<Rightarrow> Inr \<lparr>fluent_host = targetURL, fluent_port = targetPort\<rparr>)"

definition fluent_Write :: "('t, 'z, 'j) ingest_env \<Rightarrow> FluentSender \<Rightarrow> string \<Rightarrow> 'j \<Rightarrow> ('t, 'j) world \<Rightarrow>
    ('t, 'j) world \<times> go_error option" where
  "fluent_Write env s tag msg w =
     (emit (Fluent_post (fluent_host s) (fluent_port s) tag msg) w, fluent_post_err env (w_trace w) tag msg)"

section \<open>What a sender does to the outside\<close>

text \<open>A sender only adds events of its own kind to the trace and leaves the files alone.\<close>

definition sending :: "('t, 'j) event \<Rightarrow> bool" where
  "sending e = (case e of Listening _ \<Rightarrow> False | Await _ \<Rightarrow> False | Drain \<Rightarrow> False | Serve _ _ \<Rightarrow> False
     | _ \<Rightarrow> True)"

definition only_sends :: "('t, 'j) world \<Rightarrow> ('t, 'j) world \<Rightarrow> bool" where
  "only_sends w w' \<longleftrightarrow>
     w_os w' = w_os w \<and> (\<exists>es. w_trace w' = w_trace w @ es \<and> list_all sending es)"

lemma only_sends_refl [simp, intro]: "only_sends w w"
  by (simp add: only_sends_def)

lemma only_sends_trans [trans]: "only_sends w w' \<Longrightarrow> only_sends w' w'' \<Longrightarrow> only_sends w w''"
  by (auto simp: only_sends_def)

lemma only_sends_emit: "sending e \<Longrightarrow> only_sends w w' \<Longrightarrow> only_sends w (emit e w')"
  by (auto simp: only_sends_def emit_def)

lemma sending_simps [simp]:
  "sending (Dial b n a)" "sending (Deadline k)" "sending (Wrote m)" "sending Hangup"
  "sending (Export u s t)" "sending (Post u c p)" "sending (Fluent_post h q g j)"
  "\<not> sending (Listening a)" "\<not> sending (Await d)" "\<not> sending Drain" "\<not> sending (Serve a p)"
  by (simp_all add: sending_def)

lemma statsd_only_sends:
  "only_sends w (fst (sendUDPData env s m w))"
  "only_sends w (fst (sendTCPData env s m w))"
  "only_sends w (fst (sendUnixData env s m w))"
  by (simp_all add: sendUDPData_def sendTCPData_def sendUnixData_def only_sends_emit Let_def
      split: sum.split option.split)

lemma senders_only_send:
  "only_sends w (fst (SendTraces env g t w))"
  "only_sends w (fst (SendLogs env g t w))"
  "only_sends w (fst (SendMetrics env g t w))"
  "only_sends w (fst (statsd_SendMetrics env s m w))"
  "only_sends w (fst (fluent_Write env f tag msg w))"
  by (simp_all add: SendTraces_def SendLogs_def SendMetrics_def statsd_SendMetrics_def fluent_Write_def
      only_sends_emit statsd_only_sends)

lemma zipkin_only_sends: "only_sends w (fst (zipkin_SendTraces env z t w))"
  by (simp add: zipkin_SendTraces_def only_sends_emit Let_def split: sum.split option.split)

lemma dial_only_sends: "only_sends w (fst (snd (dial env s w)))"
  by (simp add: dial_def only_sends_emit Let_def split: option.splits)

lemma Connect_only_sends: "only_sends w (fst (Connect env e t w))"
  using dial_only_sends [of w env "\<lparr>sy_transport = t, sy_addr = e, sy_tls = False, sy_conn = False\<rparr>"]
  by (cases "dial env \<lparr>sy_transport = t, sy_addr = e, sy_tls = False, sy_conn = False\<rparr> w")
    (simp add: Connect_def split: option.split)

section \<open>Statsd\<close>

text \<open>The events of one connection.\<close>

definition statsd_session :: "StatsdSender \<Rightarrow> string \<Rightarrow> string \<Rightarrow> ('t, 'j) event list" where
  "statsd_session s addr metrics =
     Dial False (statsd_protocol s) addr # (if statsd_protocol s = UDS then [] else [Deadline 1]) @
     [Wrote metrics, Hangup]"

text \<open>
  Sending statsd metrics either fails before a connection exists, leaving no trace, or makes one
  connection of the configured protocol to the resolved address, writes the metrics once, under a
  write deadline unless the protocol is unixgram, and closes the connection whatever the write
  gives; it succeeds exactly when the write does. A protocol that is not one of the seven is
  refused without any effect.
\<close>

theorem statsd_SendMetrics_session:
  "case statsd_SendMetrics env s metrics w of (w', e) \<Rightarrow>
     if e = None
     then \<exists>addr. resolve_addr env (statsd_protocol s) (statsd_url s) = Inr addr \<and>
            statsd_protocol s \<in> {UDP, UDP4, UDP6, TCP, TCP4, TCP6, UDS} \<and>
            w' = w\<lparr>w_trace := w_trace w @ statsd_session s addr metrics\<rparr>
     else w' = w \<or> (\<exists>addr. w' = w\<lparr>w_trace := w_trace w @ statsd_session s addr metrics\<rparr>)"
proof -
  let ?p = "statsd_protocol s"
  have ps: "UDS \<notin> {UDP, UDP4, UDP6, TCP, TCP4, TCP6}" by (simp add: protocol_defs)
  consider "?p \<in> {UDP, UDP4, UDP6}" | "?p \<in> {TCP, TCP4, TCP6}" "?p \<notin> {UDP, UDP4, UDP6}" | "?p = UDS"
    | "?p \<notin> {UDP, UDP4, UDP6, TCP, TCP4, TCP6, UDS}" by blast
  then show ?thesis
  proof cases
    case 1
    then have "?p \<noteq> UDS" using ps by auto
    with 1 show ?thesis
      by (auto simp: statsd_SendMetrics_def sendUDPData_def statsd_session_def emit_def Let_def
          split: sum.splits option.splits)
  next
    case 2
    then have "?p \<noteq> UDS" using ps by auto
    with 2 show ?thesis
      by (auto simp: statsd_SendMetrics_def sendTCPData_def statsd_session_def emit_def Let_def
          split: sum.splits option.splits)
  next
    case 3
    with ps show ?thesis
      by (auto simp: statsd_SendMetrics_def sendUnixData_def statsd_session_def emit_def Let_def
          split: sum.splits option.splits)
  qed (simp add: statsd_SendMetrics_def)
qed

section \<open>Syslog\<close>

text \<open>How many connections are open after a trace, if every \<open>Hangup\<close> closes one.\<close>

definition opens :: "('t, 'j) event list \<Rightarrow> int" where
  "opens es = int (length (filter (\<lambda>e. case e of Dial _ _ _ \<Rightarrow> True | _ \<Rightarrow> False) es)) -
     int (length (filter (\<lambda>e. e = Hangup) es))"

lemma opens_append: "opens (es @ es') = opens es + opens es'"
  by (simp add: opens_def)

lemma opens_simps [simp]:
  "opens [] = 0" "opens (Dial b n a # es) = 1 + opens es" "opens (Hangup # es) = opens es - 1"
  "opens (Wrote m # es) = opens es"
  by (simp_all add: opens_def)

definition terminated :: "string \<Rightarrow> string" where
  "terminated msg = (if has_suffix msg nl then msg else msg @ nl)"

lemma terminated_suffix: "has_suffix (terminated msg) nl"
  by (simp add: terminated_def has_suffix_def)

lemma write_msg_eq: "write_msg env msg w = (emit (Wrote (terminated msg)) w, write_err env (w_trace w) (terminated msg))"
  by (simp add: write_msg_def terminated_def Let_def)

lemma dial_cases:
  "dial env s w =
     (let tr = w_trace w @ (if sy_conn s then [Hangup] else [])
      in case dial_err env tr (sy_transport s) (sy_addr s) of
           Some err \<Rightarrow> (s\<lparr>sy_conn := False\<rparr>, w\<lparr>w_trace := tr\<rparr>, Some err)
         | None \<Rightarrow> (s\<lparr>sy_conn := True\<rparr>,
             w\<lparr>w_trace := tr @ [Dial (sy_tls s \<and> sy_transport s = ''tcp'') (sy_transport s) (sy_addr s)]\<rparr>, None))"
  by (simp add: dial_def emit_def Let_def split: option.split)


section \<open>Zipkin\<close>

text \<open>
  Sending zipkin traces succeeds exactly when the traces can be translated and serialised, the
  request can be built and the answer's status is between 200 and 299, and then exactly one
  request, carrying the serialised spans to the sender's URL, was sent.
\<close>

theorem zipkin_SendTraces_ok:
  "zipkin_SendTraces env s traces w = (w', None) \<longleftrightarrow>
   (\<exists>spans body status. from_traces env traces = Inr spans \<and> zipkin_serialize env spans = Inr body \<and>
      new_request_err env (zipkin_url s) = None \<and>
      post_result env (w_trace w) (zipkin_url s) body = Inr status \<and> status \<in> {200..299} \<and>
      w' = w\<lparr>w_trace := w_trace w @ [Post (zipkin_url s) (zipkin_content_type env) body]\<rparr>)"
  by (auto simp: zipkin_SendTraces_def emit_def Let_def split: sum.splits option.splits if_splits)

end
