(* ===== verification/Ingest_Commands.thy ===== *)
theory Ingest_Commands
  imports Ingest_Senders Go_Flag
begin

text \<open>
  The commands of the data ingest tool (\<^verbatim>\<open>data-ingest-cli/commands\<close>) and its \<^verbatim>\<open>main\<close>. Every command is
  built from its configuration by \<^verbatim>\<open>New\<close> and run by \<^verbatim>\<open>Do\<close>: a receiver, if one is configured, is started,
  what the command sends is sent, and the receiver is stopped on the way out. A receiver is
  seen here by the events of its life only; what it does with requests meanwhile is
  \<open>Ingest_Receiver\<close>.
\<close>

section \<open>Receivers behind their interface\<close>

datatype receiver = GrpcReceiver receiver_config | HttpReceiver receiver_config

definition NewOTLPReceiver :: "receiver_config \<Rightarrow> receiver" where
  [simp]: "NewOTLPReceiver c = GrpcReceiver c"

definition NewOTLPHTTPReceiver :: "receiver_config \<Rightarrow> receiver" where
  [simp]: "NewOTLPHTTPReceiver c = HttpReceiver c"

definition listen_address :: "receiver \<Rightarrow> string" where
  "listen_address r =
     (case r of GrpcReceiver c \<Rightarrow> ''localhost:'' @ itoa (Port c) | HttpReceiver c \<Rightarrow> '':'' @ itoa (Port c))"

definition Start :: "('t, 'z, 'j) ingest_env \<Rightarrow> receiver \<Rightarrow> ('t, 'j) world \<Rightarrow>
    ('t, 'j) world \<times> go_error option" where
  "Start env r w =
     (case listen_err env (w_trace w) (listen_address r) of
        None \<Rightarrow> (emit (Listening (listen_address r)) w, None)
      | Some err \<Rightarrow>
          (case r of
             GrpcReceiver c \<Rightarrow> (w, Some err)
           | HttpReceiver c \<Rightarrow> (w, Some (Wrapf ''could not listen on %d: %w'' [itoa (Port c)] err))))"

definition Stop :: "receiver \<Rightarrow> ('t, 'j) world \<Rightarrow> ('t, 'j) world" where
  "Stop r w =
     (case r of
        GrpcReceiver c \<Rightarrow> emit Drain (emit (Await (stop_timeout c)) w)
      | HttpReceiver c \<Rightarrow> emit (Await (stop_timeout c)) w)"

definition new_receiver :: "bool \<Rightarrow> string \<Rightarrow> int \<Rightarrow> string \<Rightarrow> int \<Rightarrow> receiver option result" where
  "new_receiver receiveData receiverType port outputFile timeout =
     (if receiveData \<and> port > 0 \<and> outputFile \<noteq> []
      then let cfg = \<lparr>Port = port, OutputFile = outputFile, Timeout = timeout\<rparr>
           in if receiverType = ''grpc'' then Inr (Some (NewOTLPReceiver cfg))
              else if receiverType = ''http'' then Inr (Some (NewOTLPHTTPReceiver cfg))
              else Inl (Errorf ''invalid receiver type %s'' [receiverType])
      else Inr None)"

text \<open>The body of \<^verbatim>\<open>Do\<close> around what a command sends; the deferred \<^verbatim>\<open>Stop\<close> runs after it.\<close>

definition with_receiver ::
  "('t, 'z, 'j) ingest_env \<Rightarrow> receiver option \<Rightarrow> (('t, 'j) world \<Rightarrow> ('t, 'j) world \<times> go_error option) \<Rightarrow>
   ('t, 'j) world \<Rightarrow> ('t, 'j) world \<times> go_error option" where
  "with_receiver env receiver send w =
     (case receiver of
        None \<Rightarrow> send w
      | Some r \<Rightarrow>
          (case Start env r w of
             (w, Some err) \<Rightarrow> (w, Some err)
           | (w, None) \<Rightarrow> (case send w of (w, err) \<Rightarrow> (Stop r w, err))))"

section \<open>Configurations\<close>

record receive_params =
  ReceiveData :: bool
  OutputFile_p :: string
  ReceiverPort :: int
  ReceiverType :: string
  ReceiverTimeout :: int

record send_params = receive_params +
  InputFile :: string
  CollectorURL :: string

definition receiver_for :: "('a) receive_params_scheme \<Rightarrow> receiver option result" where
  "receiver_for p =
     new_receiver (ReceiveData p) (ReceiverType p) (ReceiverPort p) (OutputFile_p p) (ReceiverTimeout p)"

section \<open>otlpjson\<close>

record otlpjson_config = send_params +
  SignalType :: string

record otlpjson_cmd =
  oj_sender :: "grpc_sender option"
  oj_receiver :: "receiver option"
  oj_signalType :: string
  oj_inputFile :: string

definition otlpjson_New :: "('t, 'z, 'j) ingest_env \<Rightarrow> otlpjson_config \<Rightarrow> otlpjson_cmd result" where
  "otlpjson_New env p =
     (case new_grpc_sender env (CollectorURL p) of
        Inl err \<Rightarrow> Inl err
      | Inr sender \<Rightarrow>
          (case receiver_for p of
             Inl err \<Rightarrow> Inl err
           | Inr r \<Rightarrow> Inr \<lparr>oj_sender = Some sender, oj_receiver = r, oj_signalType = SignalType p,
                           oj_inputFile = InputFile p\<rparr>))"

definition otlpjson_sendMetrics :: "('t, 'z, 'j) ingest_env \<Rightarrow> otlpjson_cmd \<Rightarrow> ('t, 'j) world \<Rightarrow>
    ('t, 'j) world \<times> go_error option" where
  "otlpjson_sendMetrics env c w =
     (case oj_sender c of
        None \<Rightarrow> (w, None)
      | Some s \<Rightarrow>
          (case read_file (w_os w) (oj_inputFile c) of
             Inl err \<Rightarrow> (w, Some err)
           | Inr fileContent \<Rightarrow>
               (case json_decode (codec env) Metrics fileContent of
                  Inl err \<Rightarrow> (w, Some err)
                | Inr metrics \<Rightarrow> SendMetrics env s metrics w)))"

definition otlpjson_sendLogs :: "('t, 'z, 'j) ingest_env \<Rightarrow> otlpjson_cmd \<Rightarrow> ('t, 'j) world \<Rightarrow>
    ('t, 'j) world \<times> go_error option" where
  "otlpjson_sendLogs env c w =
     (case oj_sender c of
        None \<Rightarrow> (w, None)
      | Some s \<Rightarrow>
          (case read_file (w_os w) (oj_inputFile c) of
             Inl err \<Rightarrow> (w, Some err)
           | Inr fileContent \<Rightarrow>
               (case json_decode (codec env) Logs fileContent of
                  Inl err \<Rightarrow> (w, Some err)
                | Inr logs \<Rightarrow> SendLogs env s logs w)))"

definition otlpjson_sendTraces :: "('t, 'z, 'j) ingest_env \<Rightarrow> otlpjson_cmd \<Rightarrow> ('t, 'j) world \<Rightarrow>
    ('t, 'j) world \<times> go_error option" where
  "otlpjson_sendTraces env c w =
     (case oj_sender c of
        None \<Rightarrow> (w, None)
      | Some s \<Rightarrow>
          (case read_file (w_os w) (oj_inputFile c) of
             Inl err \<Rightarrow> (w, Some err)
           | Inr fileContent \<Rightarrow>
               (case json_decode (codec env) Traces fileContent of
                  Inl err \<Rightarrow> (w, Some err)
                | Inr traces \<Rightarrow> SendTraces env s traces w)))"

definition otlpjson_send :: "('t, 'z, 'j) ingest_env \<Rightarrow> otlpjson_cmd \<Rightarrow> ('t, 'j) world \<Rightarrow>
    ('t, 'j) world \<times> go_error option" where
  "otlpjson_send env c w =
     (if oj_signalType c = ''metrics'' then otlpjson_sendMetrics env c w
      else if oj_signalType c = ''logs'' then otlpjson_sendLogs env c w
      else if oj_signalType c = ''trace'' \<or> oj_signalType c = ''traces'' then otlpjson_sendTraces env c w
      else (w, Some (Errorf ''unknown signal type '%s'. Must be one of [traces,logs,metrics]''
                       [oj_signalType c])))"

definition otlpjson_Do :: "('t, 'z, 'j) ingest_env \<Rightarrow> otlpjson_cmd \<Rightarrow> ('t, 'j) world \<Rightarrow>
    ('t, 'j) world \<times> go_error option" where
  "otlpjson_Do env c = with_receiver env (oj_receiver c) (otlpjson_send env c)"

section \<open>statsd\<close>

record statsd_config = send_params +
  statsd_SignalType :: string
  Protocol :: string

record statsd_cmd =
  sd_sender :: "StatsdSender option"
  sd_receiver :: "receiver option"
  sd_signalType :: string
  sd_inputFile :: string

definition statsd_New :: "statsd_config \<Rightarrow> statsd_cmd result" where
  "statsd_New p =
     (if statsd_SignalType p \<noteq> ''metrics''
      then Inl (Errorf ''only 'metrics' signal type is supported for statsd'' [])
      else case new_statsd (CollectorURL p) (Protocol p) of
             Inl err \<Rightarrow> Inl err
           | Inr sender \<Rightarrow>
               (case receiver_for p of
                  Inl err \<Rightarrow> Inl err
                | Inr r \<Rightarrow> Inr \<lparr>sd_sender = Some sender, sd_receiver = r,
                                sd_signalType = statsd_SignalType p, sd_inputFile = InputFile p\<rparr>))"

definition statsd_send :: "('t, 'z, 'j) ingest_env \<Rightarrow> statsd_cmd \<Rightarrow> ('t, 'j) world \<Rightarrow>
    ('t, 'j) world \<times> go_error option" where
  "statsd_send env c w =
     (case sd_sender c of
        None \<Rightarrow> (w, None)
      | Some s \<Rightarrow>
          (case read_file (w_os w) (sd_inputFile c) of
             Inl err \<Rightarrow> (w, Some err)
           | Inr fileContent \<Rightarrow> statsd_SendMetrics env s fileContent w))"

definition statsd_Do :: "('t, 'z, 'j) ingest_env \<Rightarrow> statsd_cmd \<Rightarrow> ('t, 'j) world \<Rightarrow>
    ('t, 'j) world \<times> go_error option" where
  "statsd_Do env c = with_receiver env (sd_receiver c) (statsd_send env c)"

section \<open>syslog\<close>

record syslog_config = send_params +
  Transport :: string

record syslog_cmd =
  sl_cfg :: syslog_config
  sl_receiver :: "receiver option"
  sl_sender :: "syslog_sender option"

definition syslog_New :: "('t, 'z, 'j) ingest_env \<Rightarrow> syslog_config \<Rightarrow> ('t, 'j) world \<Rightarrow>
    ('t, 'j) world \<times> syslog_cmd result" where
  "syslog_New env cfg w =
     (if Transport cfg \<noteq> ''tcp'' \<and> Transport cfg \<noteq> ''udp''
      then (w, Inl (Errorf ''invalid transport: %q'' [Transport cfg]))
      else case Connect env (CollectorURL cfg) (Transport cfg) w of
             (w, Inl err) \<Rightarrow> (w, Inl err)
           | (w, Inr sender) \<Rightarrow>
               (case receiver_for cfg of
                  Inl err \<Rightarrow> (w, Inl err)
                | Inr r \<Rightarrow> (w, Inr \<lparr>sl_cfg = cfg, sl_receiver = r, sl_sender = Some sender\<rparr>)))"

definition syslog_send :: "('t, 'z, 'j) ingest_env \<Rightarrow> syslog_cmd \<Rightarrow> ('t, 'j) world \<Rightarrow>
    ('t, 'j) world \<times> go_error option" where
  "syslog_send env c w =
     (case sl_sender c of
        None \<Rightarrow> (w, None)
      | Some s \<Rightarrow>
          (case read_file (w_os w) (InputFile (sl_cfg c)) of
             Inl err \<Rightarrow> (w, Some err)
           | Inr fileContent \<Rightarrow> (case syslog_Write env s fileContent w of (s, w, err) \<Rightarrow> (w, err))))"

definition syslog_Do :: "('t, 'z, 'j) ingest_env \<Rightarrow> syslog_cmd \<Rightarrow> ('t, 'j) world \<Rightarrow>
    ('t, 'j) world \<times> go_error option" where
  "syslog_Do env c = with_receiver env (sl_receiver c) (syslog_send env c)"

section \<open>zipkin\<close>

record zipkin_config = send_params +
  zipkin_SignalType :: string
  ZipkinVersion :: string

record zipkin_cmd =
  zk_sender :: "ZipkinSender option"
  zk_receiver :: "receiver option"
  zk_signalType :: string
  zk_inputFile :: string
  zk_version :: string

definition zipkin_New :: "zipkin_config \<Rightarrow> zipkin_cmd result" where
  "zipkin_New p =
     (case new_zipkin (CollectorURL p) of
        Inl err \<Rightarrow> Inl err
      | Inr sender \<Rightarrow>
          (case receiver_for p of
             Inl err \<Rightarrow> Inl err
           | Inr r \<Rightarrow> Inr \<lparr>zk_sender = Some sender, zk_receiver = r, zk_signalType = zipkin_SignalType p,
                           zk_inputFile = InputFile p, zk_version = ZipkinVersion p\<rparr>))"

definition zipkin_sendTraces :: "('t, 'z, 'j) ingest_env \<Rightarrow> zipkin_cmd \<Rightarrow> ('t, 'j) world \<Rightarrow>
    ('t, 'j) world \<times> go_error option" where
  "zipkin_sendTraces env c w =
     (case zk_sender c of
        None \<Rightarrow> (w, None)
      | Some s \<Rightarrow>
          (case read_file (w_os w) (zk_inputFile c) of
             Inl err \<Rightarrow> (w, Some (Wrapf ''could not read file content: %s'' [] err))
           | Inr fileContent \<Rightarrow>
               (if zk_version c \<noteq> ''v1'' \<and> zk_version c \<noteq> ''v2''
                then (w, Some (Errorf ''unsupported zipkin trace version: %s'' [zk_version c]))
                else case (if zk_version c = ''v1'' then zipkin_v1 env fileContent
                           else zipkin_v2 env fileContent) of
                       Inl err \<Rightarrow> (w, Some (Wrapf ''could not unmarshall traces: %s'' [] err))
                     | Inr traces \<Rightarrow> zipkin_SendTraces env s traces w)))"

definition zipkin_send :: "('t, 'z, 'j) ingest_env \<Rightarrow> zipkin_cmd \<Rightarrow> ('t, 'j) world \<Rightarrow>
    ('t, 'j) world \<times> go_error option" where
  "zipkin_send env c w =
     (if zk_signalType c = ''trace'' \<or> zk_signalType c = ''traces'' then zipkin_sendTraces env c w
      else (w, Some (Errorf ''zipkin sender support only traces signal type, used: %s'' [zk_signalType c])))"

definition zipkin_Do :: "('t, 'z, 'j) ingest_env \<Rightarrow> zipkin_cmd \<Rightarrow> ('t, 'j) world \<Rightarrow>
    ('t, 'j) world \<times> go_error option" where
  "zipkin_Do env c = with_receiver env (zk_receiver c) (zipkin_send env c)"

section \<open>fluent\<close>

definition errMissingFluentProperties :: go_error where
  "errMissingFluentProperties =
     Errorf ''test data must be a json object containing a 'tag' and 'message' property'' []"

record fluent_config = send_params +
  fluent_Transport :: string

record fluent_cmd =
  fl_cfg :: fluent_config
  fl_receiver :: "receiver option"
  fl_sender :: "FluentSender option"

definition fluent_New :: "('t, 'z, 'j) ingest_env \<Rightarrow> fluent_config \<Rightarrow> fluent_cmd result" where
  "fluent_New env cfg =
     (case receiver_for cfg of
        Inl err \<Rightarrow> Inl err
      | Inr r \<Rightarrow>
          (case url_host_port env (CollectorURL cfg) of
             Inl err \<Rightarrow> Inl err
           | Inr (host, portStr) \<Rightarrow>
               (case atoi portStr of
                  Inl err \<Rightarrow> Inl err
                | Inr port \<Rightarrow>
                    (case new_fluent env host port of
                       Inl err \<Rightarrow> Inl err
                     | Inr sender \<Rightarrow> Inr \<lparr>fl_cfg = cfg, fl_receiver = r, fl_sender = Some sender\<rparr>))))"

definition fluent_send :: "('t, 'z, 'j) ingest_env \<Rightarrow> fluent_cmd \<Rightarrow> ('t, 'j) world \<Rightarrow>
    ('t, 'j) world \<times> go_error option" where
  "fluent_send env c w =
     (case fl_sender c of
        None \<Rightarrow> (w, None)
      | Some s \<Rightarrow>
          (case read_file (w_os w) (InputFile (fl_cfg c)) of
             Inl err \<Rightarrow> (w, Some err)
           | Inr fileContent \<Rightarrow>
               (case json_object env fileContent of
                  Inl err \<Rightarrow> (w, Some err)
                | Inr content \<Rightarrow>
                    (case content ''tag'' of
                       Some (JString tag) \<Rightarrow>
                         (case content ''message'' of
                            Some (JObject msg) \<Rightarrow> fluent_Write env s tag msg w
                          | _ \<Rightarrow> (w, Some errMissingFluentProperties))
                     | _ \<Rightarrow> (w, Some errMissingFluentProperties)))))"

definition fluent_Do :: "('t, 'z, 'j) ingest_env \<Rightarrow> fluent_cmd \<Rightarrow> ('t, 'j) world \<Rightarrow>
    ('t, 'j) world \<times> go_error option" where
  "fluent_Do env c = with_receiver env (fl_receiver c) (fluent_send env c)"

section \<open>receive\<close>

record receive_cmd = rc_receiver :: "receiver option"

definition receive_New :: "'a receive_params_scheme \<Rightarrow> receive_cmd result" where
  "receive_New p =
     (case new_receiver True (ReceiverType p) (ReceiverPort p) (OutputFile_p p) (ReceiverTimeout p) of
        Inl err \<Rightarrow> Inl err
      | Inr r \<Rightarrow> Inr \<lparr>rc_receiver = r\<rparr>)"

definition receive_Do :: "('t, 'z, 'j) ingest_env \<Rightarrow> receive_cmd \<Rightarrow> ('t, 'j) world \<Rightarrow>
    ('t, 'j) world \<times> go_error option" where
  "receive_Do env c w =
     (case rc_receiver c of
        None \<Rightarrow> (w, Some (Errorf ''no receiver has been set up'' []))
      | Some r \<Rightarrow>
          (case Start env r w of
             (w, Some err) \<Rightarrow> (w, Some err)
           | (w, None) \<Rightarrow> (Stop r w, None)))"

section \<open>prometheus\<close>

text \<open>
  The command serves its payload and returns only when serving fails; \<open>None\<close> is a \<^verbatim>\<open>Do\<close> that does not
  return.
\<close>

record prometheus_config = receive_params +
  Payload :: string
  ServerPort :: int

record prometheus_cmd =
  pr_receiver :: "receiver option"
  pr_port :: int
  pr_payload :: string

definition prometheus_New :: "prometheus_config \<Rightarrow> prometheus_cmd result" where
  "prometheus_New cfg =
     (case receiver_for cfg of
        Inl err \<Rightarrow> Inl err
      | Inr r \<Rightarrow> Inr \<lparr>pr_receiver = r, pr_port = ServerPort cfg, pr_payload = Payload cfg\<rparr>)"

text \<open>The handler of the served address answers every request with the payload.\<close>

record promHttpHandler = ph_payload :: string

definition prom_ServeHTTP :: "promHttpHandler \<Rightarrow> http_request \<Rightarrow> string" where
  [simp]: "prom_ServeHTTP p r = ph_payload p"

definition prometheus_Do :: "('t, 'z, 'j) ingest_env \<Rightarrow> prometheus_cmd \<Rightarrow> ('t, 'j) world \<Rightarrow>
    ('t, 'j) world \<times> go_error option option" where
  "prometheus_Do env c w =
     (case (case pr_receiver c of None \<Rightarrow> (w, None) | Some r \<Rightarrow> Start env r w) of
        (w, Some err) \<Rightarrow> (w, Some (Some err))
      | (w, None) \<Rightarrow>
          (let endpoint = ''localhost:'' @ itoa (pr_port c);
               w = w\<lparr>w_os := printf (w_os w) (''Send an interrupt to stop'' @ nl) []\<rparr>;
               served = serve_err env (w_trace w) endpoint;
               w = emit (Serve endpoint (ph_payload \<lparr>ph_payload = pr_payload c\<rparr>)) w
           in case served of
                None \<Rightarrow> (w, None)
              | Some _ \<Rightarrow> (case pr_receiver c of None \<Rightarrow> w | Some r \<Rightarrow> Stop r w, Some None)))"

section \<open>The tool\<close>

record cli_args =
  sendData :: bool
  receiveData :: bool
  inputFile :: string
  collectorURL :: string
  outputFile :: string
  inputFormat :: string
  statsdProtocol :: string
  otlpSignalType :: string
  syslogTransport :: string
  receiverPort :: int
  receiverType :: string
  zipkinVersion :: string
  receiverTimeout :: int
  prometheusPayload :: string
  serverPort :: int

datatype cli_exit = Exit_ok | Exit_fatal go_error | Never_exits

definition show_bool :: "bool \<Rightarrow> string" where
  "show_bool b = (if b then ''true'' else ''false'')"

definition print_args :: "cli_args \<Rightarrow> os \<Rightarrow> os" where
  "print_args a w =
     foldl (\<lambda>w (label, v). printf w (label @ '' %s'' @ nl) [v]) w
       [(''Send data:'', show_bool (sendData a)), (''Receive data:'', show_bool (receiveData a)),
        (''Input File:'', inputFile a), (''Collector URL:'', collectorURL a),
        (''Output File:'', outputFile a), (''Input Format:'', inputFormat a),
        (''OTLP Signal Type:'', otlpSignalType a), (''Statsd protocol:'', statsdProtocol a),
        (''Syslog transport:'', syslogTransport a), (''Receiver type:'', receiverType a),
        (''Receiver timeout:'', itoa (receiverTimeout a)), (''Server port:'', itoa (serverPort a))]"

definition say :: "string \<Rightarrow> ('t, 'j) world \<Rightarrow> ('t, 'j) world" where
  "say line w = w\<lparr>w_os := printf (w_os w) (line @ nl) []\<rparr>"

definition finish_cmd :: "('t, 'j) world \<times> go_error option \<Rightarrow> ('t, 'j) world \<times> cli_exit" where
  "finish_cmd r =
     (case r of
        (w, Some err) \<Rightarrow> (w, Exit_fatal (Wrapf ''could not execute command: %s'' [] err))
      | (w, None) \<Rightarrow> (w, Exit_ok))"

definition run_otlpjson :: "('t, 'z, 'j) ingest_env \<Rightarrow> cli_args \<Rightarrow> ('t, 'j) world \<Rightarrow>
    ('t, 'j) world \<times> cli_exit" where
  "run_otlpjson env a w =
     (let w = say ''Reading otlpjson data and sending it to collector...'' w
      in case otlpjson_New env
             \<lparr>ReceiveData = receiveData a, OutputFile_p = outputFile a, ReceiverPort = receiverPort a,
              ReceiverType = receiverType a, ReceiverTimeout = receiverTimeout a, InputFile = inputFile a,
              CollectorURL = collectorURL a, SignalType = otlpSignalType a\<rparr> of
           Inl err \<Rightarrow> (w, Exit_fatal (Wrapf ''could not create otlp-json sender: %s'' [] err))
         | Inr cmd \<Rightarrow> finish_cmd (otlpjson_Do env cmd w))"

definition run_prometheus :: "('t, 'z, 'j) ingest_env \<Rightarrow> cli_args \<Rightarrow> ('t, 'j) world \<Rightarrow>
    ('t, 'j) world \<times> cli_exit" where
  "run_prometheus env a w =
     (case prometheus_New
             \<lparr>ReceiveData = receiveData a, OutputFile_p = outputFile a, ReceiverPort = receiverPort a,
              ReceiverType = receiverType a, ReceiverTimeout = receiverTimeout a,
              Payload = prometheusPayload a, ServerPort = serverPort a\<rparr> of
        Inl err \<Rightarrow> (w, Exit_fatal (Wrapf ''could not create Prometheus sender: %s'' [] err))
      | Inr cmd \<Rightarrow>
          (case prometheus_Do env cmd w of
             (w, None) \<Rightarrow> (w, Never_exits)
           | (w, Some e) \<Rightarrow> finish_cmd (w, e)))"

definition run_syslog :: "('t, 'z, 'j) ingest_env \<Rightarrow> cli_args \<Rightarrow> ('t, 'j) world \<Rightarrow>
    ('t, 'j) world \<times> cli_exit" where
  "run_syslog env a w =
     (let w = say ''Reading syslog data and sending it to collector...'' w
      in case syslog_New env
             \<lparr>ReceiveData = receiveData a, OutputFile_p = outputFile a, ReceiverPort = receiverPort a,
              ReceiverType = receiverType a, ReceiverTimeout = receiverTimeout a, InputFile = inputFile a,
              CollectorURL = collectorURL a, Transport = syslogTransport a\<rparr> w of
           (w, Inl err) \<Rightarrow> (w, Exit_fatal (Wrapf ''could not create syslog sender: %s'' [] err))
         | (w, Inr cmd) \<Rightarrow> finish_cmd (syslog_Do env cmd w))"

definition run_statsd :: "('t, 'z, 'j) ingest_env \<Rightarrow> cli_args \<Rightarrow> ('t, 'j) world \<Rightarrow>
    ('t, 'j) world \<times> cli_exit" where
  "run_statsd env a w =
     (case statsd_New
             \<lparr>ReceiveData = receiveData a, OutputFile_p = outputFile a, ReceiverPort = receiverPort a,
              ReceiverType = receiverType a, ReceiverTimeout = receiverTimeout a, InputFile = inputFile a,
              CollectorURL = collectorURL a, statsd_SignalType = otlpSignalType a,
              Protocol = statsdProtocol a\<rparr> of
        Inl err \<Rightarrow> (w, Exit_fatal (Wrapf ''could not create statsd sender: %s'' [] err))
      | Inr cmd \<Rightarrow> finish_cmd (statsd_Do env cmd w))"

definition run_zipkin :: "('t, 'z, 'j) ingest_env \<Rightarrow> cli_args \<Rightarrow> ('t, 'j) world \<Rightarrow>
    ('t, 'j) world \<times> cli_exit" where
  "run_zipkin env a w =
     (case zipkin_New
             \<lparr>ReceiveData = receiveData a, OutputFile_p = outputFile a, ReceiverPort = receiverPort a,
              ReceiverType = receiverType a, ReceiverTimeout = receiverTimeout a, InputFile = inputFile a,
              CollectorURL = collectorURL a, zipkin_SignalType = otlpSignalType a,
              ZipkinVersion = zipkinVersion a\<rparr> of
        Inl err \<Rightarrow> (w, Exit_fatal (Wrapf ''could not create zipkin sender: %s'' [] err))
      | Inr cmd \<Rightarrow> finish_cmd (zipkin_Do env cmd w))"

definition run_fluent :: "('t, 'z, 'j) ingest_env \<Rightarrow> cli_args \<Rightarrow> ('t, 'j) world \<Rightarrow>
    ('t, 'j) world \<times> cli_exit" where
  "run_fluent env a w =
     (case fluent_New env
             \<lparr>ReceiveData = receiveData a, OutputFile_p = outputFile a, ReceiverPort = receiverPort a,
              ReceiverType = receiverType a, ReceiverTimeout = receiverTimeout a, InputFile = inputFile a,
              CollectorURL = collectorURL a, fluent_Transport = []\<rparr> of
        Inl err \<Rightarrow> (w, Exit_fatal (Wrapf ''could not execute command: %s'' [] err))
      | Inr cmd \<Rightarrow> finish_cmd (fluent_Do env cmd w))"

definition run_receive :: "('t, 'z, 'j) ingest_env \<Rightarrow> cli_args \<Rightarrow> ('t, 'j) world \<Rightarrow>
    ('t, 'j) world \<times> cli_exit" where
  "run_receive env a w =
     (case receive_New
             \<lparr>ReceiveData = True, OutputFile_p = outputFile a, ReceiverPort = receiverPort a,
              ReceiverType = receiverType a, ReceiverTimeout = receiverTimeout a\<rparr> of
        Inl err \<Rightarrow> (w, Exit_fatal (Wrapf ''could not execute command: %s'' [] err))
      | Inr cmd \<Rightarrow> finish_cmd (receive_Do env cmd w))"

definition ingest_main :: "('t, 'z, 'j) ingest_env \<Rightarrow> cli_args \<Rightarrow> ('t, 'j) world \<Rightarrow>
    ('t, 'j) world \<times> cli_exit" where
  "ingest_main env a w =
     (if collectorURL a = [] then (w, Exit_fatal (Errorf ''collector-url is required'' []))
      else
        let w = w\<lparr>w_os := print_args a (w_os w)\<rparr>
        in if sendData a
           then (if inputFormat a = ''otlp-json'' then run_otlpjson env a w
                 else if inputFormat a = ''prometheus'' then run_prometheus env a w
                 else if inputFormat a = ''syslog'' then run_syslog env a w
                 else if inputFormat a = ''statsd'' then run_statsd env a w
                 else if inputFormat a = ''zipkin'' then run_zipkin env a w
                 else if inputFormat a = ''fluent'' then run_fluent env a w
                 else (w, Exit_fatal (Errorf ''Unknown input format: %s'' [inputFormat a])))
           else if receiveData a then run_receive env a w
           else (w, Exit_ok))"

section \<open>The contract of a command\<close>

definition stop_events :: "receiver \<Rightarrow> ('t, 'j) event list" where
  "stop_events r =
     (case r of GrpcReceiver c \<Rightarrow> [Await (stop_timeout c), Drain] | HttpReceiver c \<Rightarrow> [Await (stop_timeout c)])"

lemma Stop_trace: "Stop r w = w\<lparr>w_trace := w_trace w @ stop_events r\<rparr>"
  by (simp add: Stop_def stop_events_def emit_def split: receiver.split)

lemma Start_None: "Start env r w = (w', None) \<longleftrightarrow>
    listen_err env (w_trace w) (listen_address r) = None \<and> w' = emit (Listening (listen_address r)) w"
  by (auto simp: Start_def split: option.splits receiver.splits)

lemma Start_Some: "Start env r w = (w', Some err) \<Longrightarrow> w' = w"
  by (auto simp: Start_def split: option.splits receiver.splits)

text \<open>What a run of a command adds to the trace: nothing but sending, or sending while a receiver listens.\<close>

definition ran :: "receiver option \<Rightarrow> ('t, 'j) world \<Rightarrow> ('t, 'j) world \<Rightarrow> bool" where
  "ran receiver w w' \<longleftrightarrow> w_os w' = w_os w \<and>
     (\<exists>sent. list_all sending sent \<and>
        (w_trace w' = w_trace w @ sent \<and> (receiver = None \<or> sent = []) \<or>
         (\<exists>r. receiver = Some r \<and>
            w_trace w' = w_trace w @ Listening (listen_address r) # sent @ stop_events r)))"

locale ingest_command =
  fixes receiver_of :: "'c \<Rightarrow> receiver option"
    and send :: "('t, 'z, 'j) ingest_env \<Rightarrow> 'c \<Rightarrow> ('t, 'j) world \<Rightarrow> ('t, 'j) world \<times> go_error option"
    and run :: "('t, 'z, 'j) ingest_env \<Rightarrow> 'c \<Rightarrow> ('t, 'j) world \<Rightarrow> ('t, 'j) world \<times> go_error option"
  assumes run_eq: "run env c w = with_receiver env (receiver_of c) (send env c) w"
    and send_only: "only_sends w (fst (send env c w))"
begin

lemma run_ran: "ran (receiver_of c) w (fst (run env c w))"
proof (cases "receiver_of c")
  case None
  then show ?thesis using send_only [of w env c] by (auto simp: run_eq with_receiver_def ran_def only_sends_def)
next
  case (Some r)
  show ?thesis
  proof (cases "Start env r w")
    case (Pair w1 e)
    show ?thesis
    proof (cases e)
      case None
      obtain w2 e2 where s: "send env c w1 = (w2, e2)" by fastforce
      have "only_sends w1 w2" using send_only [of w1 env c] s by simp
      moreover have "w1 = emit (Listening (listen_address r)) w" using Start_None Pair None by fast
      ultimately show ?thesis
        using Some Pair None s by (auto simp: run_eq with_receiver_def ran_def only_sends_def Stop_trace emit_def)
    next
      case (Some err)
      then have "w1 = w" using Start_Some Pair by fast
      with Some Pair \<open>receiver_of c = Some r\<close> show ?thesis
        by (auto simp: run_eq with_receiver_def ran_def)
    qed
  qed
qed

text \<open>Sending is reached unless the receiver cannot listen, and its error is the command's.\<close>

lemma run_error:
  "snd (run env c w) =
     (case receiver_of c of
        None \<Rightarrow> snd (send env c w)
      | Some r \<Rightarrow>
          (case Start env r w of (w1, Some err) \<Rightarrow> Some err | (w1, None) \<Rightarrow> snd (send env c w1)))"
  by (auto simp: run_eq with_receiver_def split: option.split prod.split)

end

lemma otlpjson_send_only: "only_sends w (fst (otlpjson_send env c w))"
  by (simp add: otlpjson_send_def otlpjson_sendMetrics_def otlpjson_sendLogs_def otlpjson_sendTraces_def
      senders_only_send split: option.split sum.split)

lemma statsd_send_only: "only_sends w (fst (statsd_send env c w))"
  by (simp add: statsd_send_def senders_only_send split: option.split sum.split)

lemma syslog_Write_only: "only_sends w (fst (snd (syslog_Write env s m w)))"
proof -
  have d: "only_sends w (fst (snd (dial env s w')))" if "only_sends w w'" for w'
    using that dial_only_sends by (rule only_sends_trans)
  have wr: "only_sends w (emit (Wrote x) w')" if "only_sends w w'" for w' x
    using that by (simp add: only_sends_emit)
  show ?thesis
    using d [OF only_sends_refl] d [OF wr [OF only_sends_refl]]
    by (auto simp: syslog_Write_def write_msg_eq wr split: prod.splits option.splits)
      (metis fst_conv snd_conv wr)+
qed

lemma syslog_send_only: "only_sends w (fst (syslog_send env c w))"
proof -
  have "only_sends w w'" if "syslog_Write env s m w = (s', w', e)" for s m s' w' e
    using syslog_Write_only [of w env s m] that by simp
  then show ?thesis
    by (auto simp: syslog_send_def split: option.split sum.split prod.split)
qed

lemma zipkin_send_only: "only_sends w (fst (zipkin_send env c w))"
  by (simp add: zipkin_send_def zipkin_sendTraces_def zipkin_only_sends split: option.split sum.split)

lemma fluent_send_only: "only_sends w (fst (fluent_send env c w))"
  by (simp add: fluent_send_def senders_only_send split: option.split sum.split jval.split)

interpretation oj: ingest_command oj_receiver otlpjson_send otlpjson_Do
  by unfold_locales (simp_all add: otlpjson_Do_def otlpjson_send_only)

interpretation sd: ingest_command sd_receiver statsd_send statsd_Do
  by unfold_locales (simp_all add: statsd_Do_def statsd_send_only)

interpretation sy: ingest_command sl_receiver syslog_send syslog_Do
  by unfold_locales (simp_all add: syslog_Do_def syslog_send_only)

interpretation zk: ingest_command zk_receiver zipkin_send zipkin_Do
  by unfold_locales (simp_all add: zipkin_Do_def zipkin_send_only)

interpretation fl: ingest_command fl_receiver fluent_send fluent_Do
  by unfold_locales (simp_all add: fluent_Do_def fluent_send_only)

interpretation rc: ingest_command rc_receiver
  "\<lambda>env c w. (w, if rc_receiver c = None then Some (Errorf ''no receiver has been set up'' []) else None)"
  receive_Do
  by unfold_locales (simp_all add: receive_Do_def with_receiver_def split: option.split prod.split)

section \<open>What a run of the tool does\<close>

text \<open>
  An orderly run: what is sent, then perhaps a receiver that listens while more is sent or served and that is
  stopped at the end, unless the run never ends.
\<close>

definition during :: "('t, 'j) event \<Rightarrow> bool" where
  "during e \<longleftrightarrow> sending e \<or> (case e of Serve _ _ \<Rightarrow> True | _ \<Rightarrow> False)"

definition orderly :: "cli_exit \<Rightarrow> ('t, 'j) event list \<Rightarrow> ('t, 'j) event list \<Rightarrow> bool" where
  "orderly st tr tr' \<longleftrightarrow>
     (\<exists>pre mid. list_all sending pre \<and> list_all during mid \<and>
        (tr' = tr @ pre @ mid \<or>
         (\<exists>r. tr' = tr @ pre @ Listening (listen_address r) # mid @
              (if st = Never_exits then [] else stop_events r))))"

lemma during_sending: "list_all sending es \<Longrightarrow> list_all during es"
  by (auto simp: list_all_iff during_def)

lemma orderly_same [simp]: "orderly st tr tr"
  unfolding orderly_def by (intro exI [of _ "[]"]) simp

lemma orderly_sends: "only_sends w w' \<Longrightarrow> orderly st (w_trace w) (w_trace w')"
  unfolding orderly_def only_sends_def using list.pred_inject(1) by force

lemma orderly_ran:
  assumes "ran R w1 w'" and "only_sends w w1" and "st \<noteq> Never_exits"
  shows "orderly st (w_trace w) (w_trace w')"
proof -
  from assms(2) obtain pre where pre: "w_trace w1 = w_trace w @ pre" "list_all sending pre"
    by (auto simp: only_sends_def)
  from assms(1) obtain sent where "list_all sending sent"
    and "w_trace w' = w_trace w1 @ sent \<or>
      (\<exists>r. w_trace w' = w_trace w1 @ Listening (listen_address r) # sent @ stop_events r)"
    by (auto simp: ran_def)
  with pre assms(3) show ?thesis
    unfolding orderly_def by (intro exI [of _ pre] exI [of _ sent]) (auto simp: during_sending)
qed

lemma finish_cmd_eq: "fst (finish_cmd r) = fst r" "snd (finish_cmd r) \<noteq> Never_exits"
  by (simp_all add: finish_cmd_def split: prod.splits option.splits)

lemma orderly_finish:
  "ran R w1 (fst r) \<Longrightarrow> only_sends w w1 \<Longrightarrow>
   orderly (snd (finish_cmd r)) (w_trace w) (w_trace (fst (finish_cmd r)))"
  unfolding finish_cmd_eq(1) by (rule orderly_ran) (simp_all add: finish_cmd_eq(2))

lemma say_trace [simp]: "w_trace (say l w) = w_trace w"
  by (simp add: say_def)

lemmas command_rans = oj.run_ran sd.run_ran sy.run_ran zk.run_ran fl.run_ran rc.run_ran

lemma run_orderly:
  "orderly (snd (run_otlpjson env a w)) (w_trace w) (w_trace (fst (run_otlpjson env a w)))"
  "orderly (snd (run_statsd env a w)) (w_trace w) (w_trace (fst (run_statsd env a w)))"
  "orderly (snd (run_zipkin env a w)) (w_trace w) (w_trace (fst (run_zipkin env a w)))"
  "orderly (snd (run_fluent env a w)) (w_trace w) (w_trace (fst (run_fluent env a w)))"
  "orderly (snd (run_receive env a w)) (w_trace w) (w_trace (fst (run_receive env a w)))"
proof -
  have f: "orderly (snd (finish_cmd r)) (w_trace w) (w_trace (fst (finish_cmd r)))"
    if "ran R w1 (fst r)" "w_trace w1 = w_trace w" for R w1 and r :: "('a, 'b) world \<times> go_error option"
    using orderly_finish [OF that(1) only_sends_refl] that(2) by simp
  show "orderly (snd (run_otlpjson env a w)) (w_trace w) (w_trace (fst (run_otlpjson env a w)))"
    by (simp add: run_otlpjson_def Let_def f [OF oj.run_ran] split: sum.split)
  show "orderly (snd (run_statsd env a w)) (w_trace w) (w_trace (fst (run_statsd env a w)))"
    by (simp add: run_statsd_def f [OF sd.run_ran] split: sum.split)
  show "orderly (snd (run_zipkin env a w)) (w_trace w) (w_trace (fst (run_zipkin env a w)))"
    by (simp add: run_zipkin_def f [OF zk.run_ran] split: sum.split)
  show "orderly (snd (run_fluent env a w)) (w_trace w) (w_trace (fst (run_fluent env a w)))"
    by (simp add: run_fluent_def f [OF fl.run_ran] split: sum.split)
  show "orderly (snd (run_receive env a w)) (w_trace w) (w_trace (fst (run_receive env a w)))"
    by (simp add: run_receive_def f [OF rc.run_ran] split: sum.split)
qed

lemma syslog_New_only: "only_sends w (fst (syslog_New env cfg w))"
  using Connect_only_sends [of w env "CollectorURL cfg" "Transport cfg"]
  by (auto simp: syslog_New_def split: prod.split sum.split)

lemma run_syslog_orderly:
  "orderly (snd (run_syslog env a w)) (w_trace w) (w_trace (fst (run_syslog env a w)))"
proof -
  let ?w = "say ''Reading syslog data and sending it to collector...'' w"
  let ?p = "\<lparr>ReceiveData = receiveData a, OutputFile_p = outputFile a, ReceiverPort = receiverPort a,
      ReceiverType = receiverType a, ReceiverTimeout = receiverTimeout a, InputFile = inputFile a,
      CollectorURL = collectorURL a, Transport = syslogTransport a\<rparr>"
  obtain w1 r where n: "syslog_New env ?p ?w = (w1, r)" by fastforce
  then have s: "only_sends ?w w1" using syslog_New_only [of ?w env ?p] by simp
  show ?thesis
  proof (cases r)
    case (Inl err)
    then show ?thesis using n orderly_sends [OF s] by (simp add: run_syslog_def Let_def)
  next
    case (Inr cmd)
    then show ?thesis using n orderly_finish [OF sy.run_ran s] by (simp add: run_syslog_def Let_def)
  qed
qed

lemma prometheus_orderly:
  assumes "st \<noteq> Never_exits"
  shows "orderly (if snd (prometheus_Do env c w) = None then Never_exits else st)
     (w_trace w) (w_trace (fst (prometheus_Do env c w)))"
proof -
  let ?mid = "[Serve (''localhost:'' @ itoa (pr_port c)) (pr_payload c)]"
  have mid: "list_all during ?mid" by (simp add: during_def)
  show ?thesis
  proof (cases "pr_receiver c")
    case None
    then have "w_trace (fst (prometheus_Do env c w)) = w_trace w @ ?mid"
      by (simp add: prometheus_Do_def emit_def Let_def split: option.split)
    then show ?thesis
      unfolding orderly_def using mid by (intro exI [of _ "[]"] exI [of _ ?mid]) simp
  next
    case (Some r)
    show ?thesis
    proof (cases "Start env r w")
      case (Pair w1 e)
      show ?thesis
      proof (cases e)
        case (Some err)
        then have "w1 = w" using Start_Some Pair by fast
        with Some Pair \<open>pr_receiver c = Some r\<close> show ?thesis by (simp add: prometheus_Do_def)
      next
        case None
        then have "w1 = emit (Listening (listen_address r)) w" using Start_None Pair by fast
        with None Pair Some have "w_trace (fst (prometheus_Do env c w)) =
            w_trace w @ [] @ Listening (listen_address r) # ?mid @
              (if snd (prometheus_Do env c w) = None then [] else stop_events r)"
          by (simp add: prometheus_Do_def emit_def Let_def Stop_trace split: option.split)
        then show ?thesis
          unfolding orderly_def using mid assms
          by (intro exI [of _ "[]"] exI [of _ ?mid] conjI disjI2 exI [of _ r]) simp_all
      qed
    qed
  qed
qed

lemma run_prometheus_orderly:
  "orderly (snd (run_prometheus env a w)) (w_trace w) (w_trace (fst (run_prometheus env a w)))"
proof -
  have o: "orderly (case e of None \<Rightarrow> Never_exits | Some e \<Rightarrow> snd (finish_cmd (w', e))) (w_trace w) (w_trace w')"
    if "prometheus_Do env c w = (w', e)" for c w' e
    using prometheus_orderly [of "snd (finish_cmd (w', the e))" env c w] that
    by (cases e) (simp_all add: finish_cmd_eq(2))
  show ?thesis
    by (auto simp: run_prometheus_def finish_cmd_eq(1) split: sum.split prod.split option.split dest!: o)
qed


section \<open>What the flags select\<close>

lemma read_file_stdout [simp]: "read_file (os_stdout_update f w) p = read_file w p"
  by (simp add: read_file_def split: option.split)

lemma read_file_printf [simp]: "read_file (printf w f as) p = read_file w p"
  by (simp add: printf_def)

lemma read_file_print_args [simp]: "read_file (print_args a w) p = read_file w p"
  by (simp add: print_args_def)

lemma read_file_say [simp]: "read_file (w_os (say l w)) p = read_file (w_os w) p"
  by (simp add: say_def)

text \<open>
  Without --send nothing is sent: the tool either does nothing or only runs a receiver that
  listens on its port and is stopped again; and it starts one exactly when --receive is set, the port is positive,
  an output file is named, the type is http or grpc and the port can be listened on.
\<close>

theorem ingest_main_receive_only:
  assumes "\<not> sendData a"
  shows "case ingest_main env a w of (w', st) \<Rightarrow>
    if collectorURL a \<noteq> [] \<and> receiveData a \<and> receiverPort a > 0 \<and> outputFile a \<noteq> [] \<and>
       receiverType a \<in> {''grpc'', ''http''} \<and>
       listen_err env (w_trace w) ((if receiverType a = ''grpc'' then ''localhost'' else []) @ '':'' @ itoa (receiverPort a)) = None
    then \<exists>r. w_trace w' = w_trace w @ Listening (listen_address r) # stop_events r \<and> st = Exit_ok
    else w_trace w' = w_trace w \<and> (st = Exit_ok \<longleftrightarrow> collectorURL a \<noteq> [] \<and> \<not> receiveData a)"
proof -
  let ?w = "w\<lparr>w_os := print_args a (w_os w)\<rparr>"
  have main: "ingest_main env a w =
      (if collectorURL a = [] then (w, Exit_fatal (Errorf ''collector-url is required'' []))
       else if receiveData a then run_receive env a ?w else (?w, Exit_ok))"
    using assms by (simp add: ingest_main_def Let_def)
  show ?thesis
  proof (cases "receiveData a \<and> collectorURL a \<noteq> []")
    case True
    let ?cfg = "\<lparr>Port = receiverPort a, OutputFile = outputFile a, Timeout = receiverTimeout a\<rparr>"
    have do: "receive_Do env \<lparr>rc_receiver = Some r\<rparr> ?w =
        (case Start env r ?w of (w, Some err) \<Rightarrow> (w, Some err) | (w, None) \<Rightarrow> (Stop r w, None))" for r
      by (simp add: receive_Do_def)
    consider "receiverPort a > 0 \<and> outputFile a \<noteq> []" "receiverType a = ''grpc''"
      | "receiverPort a > 0 \<and> outputFile a \<noteq> []" "receiverType a = ''http''"
      | "receiverPort a > 0 \<and> outputFile a \<noteq> []" "receiverType a \<notin> {''grpc'', ''http''}"
      | "\<not> (receiverPort a > 0 \<and> outputFile a \<noteq> [])" by blast
    then show ?thesis
    proof cases
      case 1
      with True show ?thesis
        by (auto simp: main run_receive_def receive_New_def new_receiver_def do Start_def Stop_trace finish_cmd_def
            listen_address_def emit_def Let_def split: option.split intro!: exI [of _ "GrpcReceiver ?cfg"])
    next
      case 2
      with True show ?thesis
        by (auto simp: main run_receive_def receive_New_def new_receiver_def do Start_def Stop_trace finish_cmd_def
            listen_address_def emit_def Let_def split: option.split intro!: exI [of _ "HttpReceiver ?cfg"])
    next
      case 3
      with True show ?thesis
        by (simp add: main run_receive_def receive_New_def new_receiver_def Let_def)
    next
      case 4
      with True show ?thesis
        by (auto simp: main run_receive_def receive_New_def new_receiver_def receive_Do_def finish_cmd_def)
    qed
  qed (auto simp: main)
qed

text \<open>The telemetry an otlp-json run without a receiver sends, if it gets that far.\<close>

definition signal_named :: "string \<Rightarrow> signal option" where
  "signal_named s =
     (if s = ''metrics'' then Some Metrics else if s = ''logs'' then Some Logs
      else if s = ''trace'' \<or> s = ''traces'' then Some Traces else None)"

definition otlp_payload :: "('t, 'z, 'j) ingest_env \<Rightarrow> cli_args \<Rightarrow> os \<Rightarrow> (signal \<times> 't) option" where
  "otlp_payload env a w =
     (case (grpc_client_err env (collectorURL a), signal_named (otlpSignalType a), read_file w (inputFile a)) of
        (None, Some sig, Inr content) \<Rightarrow>
          (case json_decode (codec env) sig content of Inl _ \<Rightarrow> None | Inr t \<Rightarrow> Some (sig, t))
      | _ \<Rightarrow> None)"

lemma otlp_json_run:
  assumes "sendData a" and "\<not> receiveData a" and "collectorURL a \<noteq> []" and "inputFormat a = ''otlp-json''"
  shows "case ingest_main env a w of (w', st) \<Rightarrow>
    (case otlp_payload env a (w_os w) of
       None \<Rightarrow> w_trace w' = w_trace w \<and> st \<notin> {Exit_ok, Never_exits}
     | Some (sig, t) \<Rightarrow>
         w_trace w' = w_trace w @ [Export (collectorURL a) sig t] \<and>
         (st = Exit_ok \<longleftrightarrow> export_err env (w_trace w) (collectorURL a) sig t = None))"
proof -
  let ?w = "say ''Reading otlpjson data and sending it to collector...''
    (w\<lparr>w_os := print_args a (w_os w)\<rparr>)"
  have main: "ingest_main env a w =
      (case grpc_client_err env (collectorURL a) of
         Some err \<Rightarrow> (?w, Exit_fatal (Wrapf ''could not create otlp-json sender: %s'' [] err))
       | None \<Rightarrow> finish_cmd (otlpjson_send env
           \<lparr>oj_sender = Some \<lparr>gs_target = collectorURL a\<rparr>, oj_receiver = None,
            oj_signalType = otlpSignalType a, oj_inputFile = inputFile a\<rparr> ?w))"
    using assms
    by (simp add: ingest_main_def run_otlpjson_def otlpjson_New_def new_grpc_sender_def receiver_for_def
        new_receiver_def otlpjson_Do_def with_receiver_def Let_def split: option.split)
  have read: "read_file (w_os ?w) (inputFile a) = read_file (w_os w) (inputFile a)" by simp
  consider "otlpSignalType a = ''metrics''" | "otlpSignalType a = ''logs''"
    | "otlpSignalType a = ''trace'' \<or> otlpSignalType a = ''traces''"
    | "signal_named (otlpSignalType a) = None"
    by (cases "otlpSignalType a = ''metrics''"; cases "otlpSignalType a = ''logs''";
      cases "otlpSignalType a = ''trace'' \<or> otlpSignalType a = ''traces''"; simp add: signal_named_def)
  then show ?thesis
  proof cases
    case 1
    then show ?thesis
      by (auto simp: main read otlpjson_send_def otlpjson_sendMetrics_def SendMetrics_def finish_cmd_def
          otlp_payload_def signal_named_def emit_def split: option.split sum.split)
  next
    case 2
    then show ?thesis
      by (auto simp: main read otlpjson_send_def otlpjson_sendLogs_def SendLogs_def finish_cmd_def
          otlp_payload_def signal_named_def emit_def split: option.split sum.split)
  next
    case 3
    then show ?thesis
      by (auto simp: main read otlpjson_send_def otlpjson_sendTraces_def SendTraces_def finish_cmd_def
          otlp_payload_def signal_named_def emit_def split: option.split sum.split)
  next
    case 4
    then show ?thesis
      by (auto simp: main otlpjson_send_def finish_cmd_def otlp_payload_def signal_named_def
          split: option.split if_splits)
  qed
qed

text \<open>
  A run that sends OTLP JSON without receiving exports exactly the telemetry of the input file, decoded
  as the named signal, to the collector, and nothing else; it ends well exactly when the export
  does. With a client that cannot be made, an unknown signal, an unreadable or undecodable file nothing is sent
  and the run is fatal.
\<close>

theorem ingest_main_otlp_json:
  assumes "sendData a" and "\<not> receiveData a" and "collectorURL a \<noteq> []" and "inputFormat a = ''otlp-json''"
  shows "case ingest_main env a w of (w', st) \<Rightarrow>
    (case otlp_payload env a (w_os w) of
       None \<Rightarrow> w_trace w' = w_trace w \<and> st \<notin> {Exit_ok, Never_exits}
     | Some (sig, t) \<Rightarrow>
         w_trace w' = w_trace w @ [Export (collectorURL a) sig t] \<and>
         (st = Exit_ok \<longleftrightarrow> export_err env (w_trace w) (collectorURL a) sig t = None))"
  using assms by (rule otlp_json_run)

section \<open>The command line\<close>

definition cli_flags :: flags where
  "cli_flags = map_of
     [(''send'', Flag False), (''receive'', Flag False), (''input-file'', Text []),
      (''collector-url'', Text ''localhost:4317''), (''output-file'', Text []),
      (''input-format'', Text ''otlp-json''), (''statsd-protocol'', Text ''udp4''),
      (''otlp-signal-type'', Text []), (''syslog-transport'', Text ''tcp''), (''receiver-port'', Number 0),
      (''receiver-type'', Text ''http''), (''zipkin-version'', Text ''v2''), (''receiver-timeout'', Number 300),
      (''prometheus-payload'', Text []), (''server-port'', Number 9100)]"

definition cli_args_of :: "flags \<Rightarrow> cli_args" where
  "cli_args_of m =
     \<lparr>sendData = bool_flag m ''send'', receiveData = bool_flag m ''receive'',
      inputFile = text_flag m ''input-file'', collectorURL = text_flag m ''collector-url'',
      outputFile = text_flag m ''output-file'', inputFormat = text_flag m ''input-format'',
      statsdProtocol = text_flag m ''statsd-protocol'', otlpSignalType = text_flag m ''otlp-signal-type'',
      syslogTransport = text_flag m ''syslog-transport'', receiverPort = int_flag m ''receiver-port'',
      receiverType = text_flag m ''receiver-type'', zipkinVersion = text_flag m ''zipkin-version'',
      receiverTimeout = int_flag m ''receiver-timeout'', prometheusPayload = text_flag m ''prometheus-payload'',
      serverPort = int_flag m ''server-port''\<rparr>"

text \<open>The process: a malformed command line ends it with a status before anything is done; other arguments are ignored.\<close>

definition ingest_tool :: "('t, 'z, 'j) ingest_env \<Rightarrow> string list \<Rightarrow> ('t, 'j) world \<Rightarrow>
    ('t, 'j) world \<times> (nat + cli_exit)" where
  "ingest_tool env argv w =
     (case parse_args cli_flags argv of
        Inl e \<Rightarrow> (w, Inl (usage_status e))
      | Inr (m, _) \<Rightarrow> (case ingest_main env (cli_args_of m) w of (w, st) \<Rightarrow> (w, Inr st)))"

text \<open>Every argument as a flag.\<close>

definition cli_settings :: "cli_args \<Rightarrow> (string \<times> flag_value) list" where
  "cli_settings a =
     [(''send'', Flag (sendData a)), (''receive'', Flag (receiveData a)), (''input-file'', Text (inputFile a)),
      (''collector-url'', Text (collectorURL a)), (''output-file'', Text (outputFile a)),
      (''input-format'', Text (inputFormat a)), (''statsd-protocol'', Text (statsdProtocol a)),
      (''otlp-signal-type'', Text (otlpSignalType a)), (''syslog-transport'', Text (syslogTransport a)),
      (''receiver-port'', Number (receiverPort a)), (''receiver-type'', Text (receiverType a)),
      (''zipkin-version'', Text (zipkinVersion a)), (''receiver-timeout'', Number (receiverTimeout a)),
      (''prometheus-payload'', Text (prometheusPayload a)), (''server-port'', Number (serverPort a))]"

definition cli_ranges :: "cli_args \<Rightarrow> bool" where
  "cli_ranges a \<longleftrightarrow> int64_range (receiverPort a) \<and> int64_range (receiverTimeout a) \<and> int64_range (serverPort a)"

text \<open>
  C25: every choice of the tool's arguments can be given on its command line, whatever characters the texts contain: the
  flags that set them are read back as these arguments, and what follows the flags changes nothing.
\<close>

theorem ingest_tool_command_line:
  assumes "cli_ranges a" and "rest = [] \<or> flag_arg_of (hd rest) = No_flag"
  shows "ingest_tool env (map show_setting (cli_settings a) @ rest) w =
    (case ingest_main env a w of (w', st) \<Rightarrow> (w', Inr st))"
proof -
  have "list_all (\<lambda>(n, v). flag_name n \<and> (\<exists>old. cli_flags n = Some old \<and> same_kind old v)) (cli_settings a)"
    using assms(1) by (simp add: cli_settings_def cli_flags_def flag_name_def cli_ranges_def)
  then have "parse_args cli_flags (map show_setting (cli_settings a) @ rest) =
      Inr (cli_flags ++ map_of (rev (cli_settings a)), rest)"
    by (intro parse_args_settings assms(2)) (auto simp: list_all_iff)
  moreover have "cli_args_of (cli_flags ++ map_of (rev (cli_settings a))) = a"
    by (cases a) (simp add: cli_args_of_def cli_settings_def text_flag_def bool_flag_def int_flag_def)
  ultimately show ?thesis by (simp add: ingest_tool_def)
qed

section \<open>Examples\<close>

definition plain_env :: "(string, string, string) ingest_env" where
  "plain_env = \<lparr>codec = plain_codec, listen_err = \<lambda>_ _. None, grpc_client_err = \<lambda>_. None,
     export_err = \<lambda>_ _ _ _. None, resolve_addr = \<lambda>_ a. Inr a, dial_err = \<lambda>_ _ _. None,
     write_err = \<lambda>_ _. None, from_traces = Inr, zipkin_serialize = Inr, zipkin_content_type = ''json'',
     zipkin_v1 = Inr, zipkin_v2 = Inr, new_request_err = \<lambda>_. None, post_result = \<lambda>_ _ _. Inr 202,
     url_host_port = \<lambda>u. Inr (u, ''8006''), fluent_client_err = \<lambda>_ _. None,
     fluent_post_err = \<lambda>_ _ _. None, json_object = \<lambda>_. Inr Map.empty, serve_err = \<lambda>_ _. None\<rparr>"

definition some_args :: "bool \<Rightarrow> cli_args" where
  "some_args send =
     \<lparr>sendData = send, receiveData = \<not> send, inputFile = ''in.json'', collectorURL = ''localhost:4317'',
      outputFile = ''out.json'', inputFormat = ''otlp-json'', statsdProtocol = UDP4,
      otlpSignalType = ''logs'', syslogTransport = ''tcp'', receiverPort = 4319, receiverType = ''grpc'',
      zipkinVersion = ''v2'', receiverTimeout = 300, prometheusPayload = [], serverPort = 9100\<rparr>"

definition some_world :: "(string, string) world" where
  "some_world = \<lparr>w_os = sink_os\<lparr>os_files := [''in.json'' \<mapsto> ''{}'']\<rparr>, w_trace = []\<rparr>"

theorem ingest_main_receive_only_witness:
  "\<exists>r. w_trace (fst (ingest_main plain_env (some_args False) some_world)) =
     Listening (listen_address r) # stop_events r"
  using ingest_main_receive_only [where a = "some_args False" and env = plain_env and w = some_world]
  by (auto simp: some_args_def plain_env_def some_world_def split: prod.splits)

theorem ingest_main_otlp_json_witness:
  "w_trace (fst (ingest_main plain_env (some_args True) some_world)) =
     [Export ''localhost:4317'' Logs ''{}'']"
  using ingest_main_otlp_json [where a = "some_args True" and env = plain_env and w = some_world]
  by (auto simp: some_args_def plain_env_def plain_codec_def some_world_def otlp_payload_def
      signal_named_def read_file_def sink_os_def split: prod.splits)

theorem ingest_tool_command_line_witness:
  "w_trace (fst (ingest_tool plain_env (map show_setting (cli_settings (some_args True))) some_world)) =
     [Export ''localhost:4317'' Logs ''{}'']"
proof -
  have "w_trace (fst (ingest_main plain_env (some_args True) some_world)) = [Export ''localhost:4317'' Logs ''{}'']"
    using otlp_json_run [where a = "some_args True" and env = plain_env and w = some_world]
    by (auto simp: some_args_def plain_env_def plain_codec_def some_world_def otlp_payload_def
        signal_named_def read_file_def sink_os_def split: prod.splits)
  moreover have "cli_ranges (some_args True)" by (simp add: cli_ranges_def some_args_def int64_range_def)
  ultimately show ?thesis
    using ingest_tool_command_line [of "some_args True" "[]" plain_env some_world]
    by (simp add: case_prod_beta)
qed

end
