(* ===== verification/Ingest_Ledger.thy ===== *)
theory Ingest_Ledger
  imports Ingest_Receiver Refinement
begin

text \<open>
  What the life of a receiver of the data ingest tool comes to, whoever sends: a ledger of the batches stored, the
  clients whose answer waits for the channel, and the one signal \<^verbatim>\<open>Stop\<close> takes. The step relation of receivers with
  its handlers refines the rules of the ledger, so the books it keeps hold for both receivers.
\<close>

record ledger =
  stored :: nat
  waiting :: nat
  taken :: nat
  stage :: receiver_phase

inductive ledger_step :: "bool \<Rightarrow> ledger \<Rightarrow> ledger \<Rightarrow> bool" for graceful where
  deposit: "graceful \<longrightarrow> stage a \<noteq> Stopped \<Longrightarrow>
     ledger_step graceful a (a\<lparr>stored := Suc (stored a), waiting := Suc (waiting a)\<rparr>)"
| halt: "stage a = Serving \<Longrightarrow> ledger_step graceful a (a\<lparr>stage := Awaiting\<rparr>)"
| take: "stage a = Awaiting \<Longrightarrow> waiting a = Suc n \<Longrightarrow>
     ledger_step graceful a (a\<lparr>waiting := n, taken := Suc (taken a), stage := after_wait graceful\<rparr>)"
| expire: "stage a = Awaiting \<Longrightarrow> ledger_step graceful a (a\<lparr>stage := after_wait graceful\<rparr>)"
| settle: "stage a = Draining \<Longrightarrow> waiting a = 0 \<Longrightarrow> ledger_step graceful a (a\<lparr>stage := Stopped\<rparr>)"

definition opened :: ledger where
  "opened = \<lparr>stored = 0, waiting = 0, taken = 0, stage = Serving\<rparr>"

text \<open>The books: every stored batch was taken or its client waits, at most one is taken, and a ledger settled at the end has none waiting.\<close>

definition balanced :: "bool \<Rightarrow> ledger \<Rightarrow> bool" where
  "balanced graceful a \<longleftrightarrow> stored a = waiting a + taken a \<and>
     taken a \<le> (if stage a \<in> {Serving, Awaiting} then 0 else 1) \<and>
     (stage a = Stopped \<and> graceful \<longrightarrow> waiting a = 0)"

lemma balanced_opened: "balanced graceful opened"
  by (simp add: balanced_def opened_def)

lemma balanced_step: "ledger_step graceful a a' \<Longrightarrow> balanced graceful a \<Longrightarrow> balanced graceful a'"
  by (induction rule: ledger_step.induct) (auto simp: balanced_def after_wait_def split: if_splits)

section \<open>Receivers keep a ledger\<close>

definition in_phase :: "handler_phase set \<Rightarrow> ('r \<times> handler_phase) list \<Rightarrow> nat" where
  "in_phase P hs = length (filter (\<lambda>h. snd h \<in> P) hs)"

definition ledger_of :: "'r receiver_state \<Rightarrow> ledger" where
  "ledger_of s =
     \<lparr>stored = in_phase {Blocked, Released} (rs_handlers s), waiting = in_phase {Blocked} (rs_handlers s),
      taken = in_phase {Released} (rs_handlers s), stage = rs_phase s\<rparr>"

lemma in_phase_snoc: "in_phase P (hs @ [h]) = in_phase P hs + (if snd h \<in> P then 1 else 0)"
  by (simp add: in_phase_def)

lemma in_phase_update:
  "i < length hs \<Longrightarrow>
   in_phase P (hs[i := (r, ph)]) + (if snd (hs ! i) \<in> P then 1 else 0) = in_phase P hs + (if ph \<in> P then 1 else 0)"
proof (induction hs arbitrary: i)
  case (Cons h hs)
  show ?case
  proof (cases i)
    case (Suc j)
    with Cons.IH [of j] Cons.prems show ?thesis by (simp add: in_phase_def)
  qed (simp add: in_phase_def)
qed simp

lemma in_phase_running:
  "i < length hs \<Longrightarrow> snd (hs ! i) \<notin> P \<Longrightarrow> in_phase P (hs[i := (r, ph)]) = in_phase P hs + (if ph \<in> P then 1 else 0)"
  using in_phase_update [of i hs P r ph] by simp

text \<open>A graceful receiver that has stopped has no handler that still runs.\<close>

definition settled :: "bool \<Rightarrow> 'r receiver_state \<Rightarrow> bool" where
  "settled graceful s \<longleftrightarrow>
     (graceful \<and> rs_phase s = Stopped \<longrightarrow> list_all (\<lambda>h. snd h \<in> {Released, Finished}) (rs_handlers s))"

context otlp_sink
begin

lemma settled_step: "receiver_step serve graceful s s' \<Longrightarrow> settled graceful s \<Longrightarrow> settled graceful s'"
proof (induction rule: receiver_step.induct)
  case (accept s rq)
  then show ?case by (auto simp: settled_def accepting_def)
next
  case (handle s i)
  then have "\<not> (graceful \<and> rs_phase s = Stopped)"
    by (auto simp: settled_def list_all_length)
  moreover have "rs_phase (run_handler serve i s) = rs_phase s"
    by (cases "ending (fst (rs_handlers s ! i))") (simp_all add: run_handler_eq Let_def)
  ultimately show ?case by (metis settled_def)
qed (auto simp: settled_def after_wait_def)

lemma handle_ledger:
  assumes "i < length (rs_handlers s)" and "snd (rs_handlers s ! i) = Running" and "settled graceful s"
  shows "ledger_of (run_handler serve i s) = ledger_of s \<or>
    ledger_step graceful (ledger_of s) (ledger_of (run_handler serve i s))"
proof (cases "ending (fst (rs_handlers s ! i))")
  case Signal
  have "graceful \<longrightarrow> rs_phase s \<noteq> Stopped" using assms by (auto simp: settled_def list_all_length)
  then have "ledger_step graceful (ledger_of s)
      (ledger_of s\<lparr>stored := Suc (stored (ledger_of s)), waiting := Suc (waiting (ledger_of s))\<rparr>)"
    by (intro ledger_step.deposit) (simp add: ledger_of_def)
  moreover have "ledger_of (run_handler serve i s) =
      ledger_of s\<lparr>stored := Suc (stored (ledger_of s)), waiting := Suc (waiting (ledger_of s))\<rparr>"
    using Signal assms(1,2) by (simp add: run_handler_eq ledger_of_def in_phase_running Let_def)
  ultimately show ?thesis by simp
next
  case Return
  then show ?thesis using assms(1,2) by (simp add: run_handler_eq ledger_of_def in_phase_running Let_def)
next
  case Exit
  then show ?thesis by (simp add: run_handler_eq ledger_of_def Let_def)
qed

lemma step_ledger:
  assumes "settled graceful s" and "receiver_step serve graceful s s'"
  shows "ledger_of s' = ledger_of s \<or> ledger_step graceful (ledger_of s) (ledger_of s')"
  using assms(2,1)
proof (cases rule: receiver_step.cases)
  case (accept rq)
  then show ?thesis by (simp add: ledger_of_def in_phase_snoc)
next
  case (handle i)
  then show ?thesis using handle_ledger assms(1) by simp
next
  case stop
  then show ?thesis using ledger_step.halt [of "ledger_of s"] by (simp add: ledger_of_def)
next
  case (receive i rq)
  have "in_phase {Blocked} (rs_handlers s) = Suc (in_phase {Blocked} ((rs_handlers s)[i := (rq, Released)]))"
    using in_phase_update [of i "rs_handlers s" "{Blocked}" rq Released] receive by simp
  moreover have "in_phase {Released} ((rs_handlers s)[i := (rq, Released)]) = Suc (in_phase {Released} (rs_handlers s))"
    using in_phase_update [of i "rs_handlers s" "{Released}" rq Released] receive by simp
  moreover have "in_phase {Blocked, Released} ((rs_handlers s)[i := (rq, Released)]) =
      in_phase {Blocked, Released} (rs_handlers s)"
    using in_phase_update [of i "rs_handlers s" "{Blocked, Released}" rq Released] receive by simp
  ultimately show ?thesis
    using ledger_step.take [of "ledger_of s" "in_phase {Blocked} ((rs_handlers s)[i := (rq, Released)])" graceful]
      receive by (simp add: ledger_of_def)
next
  case timeout
  then show ?thesis using ledger_step.expire [of "ledger_of s"] by (simp add: ledger_of_def)
next
  case drained
  then have "in_phase {Blocked} (rs_handlers s) = 0"
    by (auto simp: in_phase_def filter_empty_conv list_all_iff)
  with drained show ?thesis using ledger_step.settle [of "ledger_of s"] by (simp add: ledger_of_def)
qed

lemma started_ledger: "ledger_of (started w) = opened" "settled graceful (started w)"
  by (simp_all add: ledger_of_def started_def opened_def in_phase_def settled_def)

end

sublocale otlp_sink \<subseteq> ledger: simulation "\<lambda>s. s = started w0" "receiver_step serve graceful" "settled graceful"
    ledger_of "ledger_step graceful"
  by unfold_locales (simp add: started_ledger, rule settled_step, assumption+, rule step_ledger)

context otlp_sink
begin

lemma balanced_reach: "reach (started w0) s \<Longrightarrow> balanced graceful (ledger_of s)"
  unfolding reach_def
  by (rule ledger.transfer [where P = "balanced graceful", OF refl])
    (simp_all add: started_ledger balanced_opened balanced_step)

end


definition idle_stopped :: "(signal \<times> string) receiver_state" where
  "idle_stopped = started sink_os\<lparr>rs_phase := Stopped\<rparr>"

lemma idle_stopped_reachable: "(grpc_receiver_step plain_codec sink_config)\<^sup>*\<^sup>* (started sink_os) idle_stopped"
proof -
  let ?R = "receiver_step (serve_grpc plain_codec sink_config) True" and ?s = "\<lambda>p. started sink_os\<lparr>rs_phase := p\<rparr>"
  have "?R (started sink_os) (?s Awaiting)" by (rule receiver_step.stop) (simp_all add: started_def)
  moreover have "?R (?s Awaiting) (?s Draining)"
    using receiver_step.timeout [of "?s Awaiting" "serve_grpc plain_codec sink_config" True]
    by (simp add: started_def after_wait_def)
  moreover have "?R (?s Draining) (?s Stopped)"
    using receiver_step.drained [of "?s Draining" "serve_grpc plain_codec sink_config" True]
    by (simp add: started_def)
  ultimately show ?thesis
    unfolding grpc_receiver_step_def idle_stopped_def
    by (meson rtranclp.rtrancl_refl rtranclp.rtrancl_into_rtrancl)
qed


end
