(* ===== verification/Ingest_Roundtrip.thy ===== *)
theory Ingest_Roundtrip
  imports Ingest_Commands Ingest_Ledger
begin

text \<open>
  The data ingest tool and its receivers together: what a run sends, a receiver stores, and a run that reads what was
  stored sends again.
\<close>

section \<open>What a receiver makes of an export\<close>

text \<open>A state of a receiver after one call, and the file it leaves.\<close>

lemma serve_grpc_stores:
  assumes "os_writable w (OutputFile cfg)"
  shows "serve_grpc c cfg w (sig, t) =
    (case json_encode c sig t of
       Inl _ \<Rightarrow> (w, Return)
     | Inr raw \<Rightarrow> (w\<lparr>os_files := (os_files w)(OutputFile cfg \<mapsto> file_text c raw)\<rparr>, Signal))"
  using assms
  by (simp add: grpc_sink.serve_eq overwrite_def grpc_data_def grpc_ending_def split: sum.split)

text \<open>
  Decoding what is stored: the decoder reads the encoder's text, indented or not. This is what the codecs of the Collector
  document; it is asked for one value.
\<close>

definition reads_back :: "'t otlp_codec \<Rightarrow> signal \<Rightarrow> 't \<Rightarrow> bool" where
  "reads_back c sig t \<longleftrightarrow>
     (case json_encode c sig t of Inl _ \<Rightarrow> False | Inr raw \<Rightarrow> json_decode c sig (file_text c raw) = Inr t)"

text \<open>
  C13: telemetry survives the tool's round trip: if a run of the tool exports \<open>t\<close>, a gRPC receiver that serves the export
  stores it, and a run with the stored file as its input exports \<open>t\<close> again, and so on; the second run needs no
  other change of its arguments.
\<close>

theorem reingest_exports_same:
  assumes "sendData a" and "\<not> receiveData a" and "collectorURL a \<noteq> []" and "inputFormat a = ''otlp-json''"
    and sent: "w_trace (fst (ingest_main env a w)) = w_trace w @ [Export (collectorURL a) sig t]"
    and "reads_back (codec env) sig t"
    and "os_writable v (OutputFile cfg)" and "os_readable v (OutputFile cfg)"
    and served: "serve_grpc (codec env) cfg v (sig, t) = (v', next)"
  shows "next = Signal \<and>
    w_trace (fst (ingest_main env (a\<lparr>inputFile := OutputFile cfg\<rparr>) \<lparr>w_os = v', w_trace = tr\<rparr>)) =
      tr @ [Export (collectorURL a) sig t]"
proof -
  obtain raw where raw: "json_encode (codec env) sig t = Inr raw"
      "json_decode (codec env) sig (file_text (codec env) raw) = Inr t"
    using assms(6) by (auto simp: reads_back_def split: sum.splits)
  have v': "next = Signal" "read_file v' (OutputFile cfg) = Inr (file_text (codec env) raw)"
    using served assms(7,8) by (auto simp: serve_grpc_stores raw read_file_def)
  have "otlp_payload env a (w_os w) = Some (sig, t)"
    using otlp_json_run [OF assms(1-4), where env = env and w = w] sent
    by (auto split: option.splits prod.splits)
  then have "grpc_client_err env (collectorURL a) = None" "signal_named (otlpSignalType a) = Some sig"
    by (auto simp: otlp_payload_def split: option.splits sum.splits)
  then have "otlp_payload env (a\<lparr>inputFile := OutputFile cfg\<rparr>) v' = Some (sig, t)"
    using v'(2) raw(2) by (simp add: otlp_payload_def)
  then show ?thesis
    using otlp_json_run [where a = "a\<lparr>inputFile := OutputFile cfg\<rparr>" and env = env and w = "\<lparr>w_os = v', w_trace = tr\<rparr>"] assms(1-4) v'(1)
    by (simp add: case_prod_beta)
qed

theorem reingest_exports_same_witness:
  "w_trace (fst (ingest_main plain_env (some_args True\<lparr>inputFile := ''out.json''\<rparr>)
     \<lparr>w_os = sink_os\<lparr>os_files := [''out.json'' \<mapsto> ''{}'']\<rparr>, w_trace = []\<rparr>)) = [Export ''localhost:4317'' Logs ''{}'']"
proof -
  have sent: "w_trace (fst (ingest_main plain_env (some_args True) some_world)) =
      w_trace some_world @ [Export (collectorURL (some_args True)) Logs ''{}'']"
    using otlp_json_run [where a = "some_args True" and env = plain_env and w = some_world]
    by (auto simp: some_args_def plain_env_def plain_codec_def some_world_def otlp_payload_def
        signal_named_def read_file_def sink_os_def split: prod.splits)
  have codec: "codec plain_env = plain_codec" by (simp add: plain_env_def)
  have enc: "json_encode plain_codec Logs ''{}'' = Inr ''{}''" "file_text plain_codec ''{}'' = ''{}''"
    by (simp_all add: plain_codec_def file_text_def)
  have rb: "reads_back (codec plain_env) Logs ''{}''"
    by (simp add: codec reads_back_def enc) (simp add: plain_codec_def)
  have w: "os_writable sink_os (OutputFile sink_config)" "os_readable sink_os (OutputFile sink_config)"
    by (simp_all add: sink_os_def)
  have served: "serve_grpc (codec plain_env) sink_config sink_os (Logs, ''{}'') =
      (sink_os\<lparr>os_files := [''out.json'' \<mapsto> ''{}'']\<rparr>, Signal)"
    by (simp add: codec serve_grpc_stores [OF w(1)] enc) (simp add: sink_os_def sink_config_def)
  show ?thesis
    using reingest_exports_same [OF _ _ _ _ sent rb w served, of "[]"]
    by (simp add: sink_config_def) (simp add: some_args_def)
qed

end
