(* ===== verification/K8s_Config.thy ===== *)
theory K8s_Config
  imports Go_Text Render_Workloads
begin

text \<open>
  The Kubernetes test helpers (\<^verbatim>\<open>testcommon/k8stest\<close>): the Collector configuration of a test is built from
  a file and overlays, merged as trees of YAML nodes (collector.go); manifests are applied one
  after the other, and a deployment is polled until its pods are ready (objects.go). The YAML
  decoder and encoder and the cluster are parameters.
\<close>

section \<open>YAML nodes\<close>

datatype node_kind = DocumentNode | SequenceNode | MappingNode | ScalarNode | AliasNode

text \<open>
  A node: its kind, value and anchor, the remaining fields the code only copies (tag, style,
  comments, position, the node an alias stands for), and its content, in which a mapping has keys
  and values in turn. The tree is the value of the pointers: the code never lets two places share
  a node that it changes.
\<close>

datatype 'x node = Node (node_kind: node_kind) (node_value: string) (anchor: string) (node_rest: 'x)
  (content: "'x node list")

definition set_content :: "'x node list \<Rightarrow> 'x node \<Rightarrow> 'x node" where
  "set_content c n = Node (node_kind n) (node_value n) (anchor n) (node_rest n) c"

lemma set_content_simps [simp]:
  "node_kind (set_content c n) = node_kind n" "node_value (set_content c n) = node_value n"
  "anchor (set_content c n) = anchor n" "content (set_content c n) = c"
  by (simp_all add: set_content_def)

fun cloneNode :: "'x node \<Rightarrow> 'x node" where
  "cloneNode (Node k v a x c) = Node k v [] x (map cloneNode c)"

lemma clone_simps [simp]:
  "node_kind (cloneNode n) = node_kind n" "node_value (cloneNode n) = node_value n"
  "content (cloneNode n) = map cloneNode (content n)" "anchor (cloneNode n) = []"
  by (cases n; simp)+

text \<open>The index of the first key of a mapping's content with the value.\<close>

fun find_key :: "'x node list \<Rightarrow> string \<Rightarrow> nat option" where
  "find_key (k # v # c) key =
     (if node_value k = key then Some 0 else map_option (\<lambda>i. i + 2) (find_key c key))"
| "find_key c key = None"

lemma find_key_bound: "find_key c key = Some i \<Longrightarrow> i + 1 < length c"
  by (induction c key arbitrary: i rule: find_key.induct) (auto split: if_splits)

function mergeNodes :: "'x node \<Rightarrow> 'x node \<Rightarrow> 'x node"
  and merge_content :: "'x node list \<Rightarrow> 'x node list \<Rightarrow> 'x node list" where
  "mergeNodes base overlay =
     (if node_kind base = MappingNode \<and> node_kind overlay = MappingNode
      then set_content (merge_content (content base) (content overlay)) base
      else cloneNode overlay)"
| "merge_content bc (k # v # oc) =
     merge_content
       (case find_key bc (node_value k) of
          Some bi \<Rightarrow> bc[bi + 1 := mergeNodes (bc ! (bi + 1)) v]
        | None \<Rightarrow> bc @ [cloneNode k, cloneNode v])
       oc"
| "merge_content bc [k] = bc"
| "merge_content bc [] = bc"
  by pat_completeness auto
termination
proof (relation "measure (\<lambda>x. case x of Inl (b, ov) \<Rightarrow> size ov | Inr (bc, oc) \<Rightarrow> size_list size oc)")
  fix base overlay :: "'x node"
  show "(Inr (content base, content overlay), Inl (base, overlay)) \<in>
      measure (\<lambda>x. case x of Inl (b, ov) \<Rightarrow> size ov | Inr (bc, oc) \<Rightarrow> size_list size oc)"
    by (cases overlay) simp
qed auto

declare mergeNodes.simps [simp del]

section \<open>Reading a configuration by its path of keys\<close>

definition get :: "'x node list \<Rightarrow> string \<Rightarrow> 'x node option" where
  "get c key = map_option (\<lambda>i. c ! (i + 1)) (find_key c key)"

fun value_at :: "'x node \<Rightarrow> string list \<Rightarrow> 'x node option" where
  "value_at n [] = Some n"
| "value_at n (key # path) =
     (if node_kind n = MappingNode
      then case get (content n) key of None \<Rightarrow> None | Some v \<Rightarrow> value_at v path
      else None)"

fun keys :: "'x node list \<Rightarrow> string list" where
  "keys (k # v # c) = node_value k # keys c"
| "keys c = []"

text \<open>What a YAML decoder delivers: mappings have as many values as keys and no key twice.\<close>

fun well_formed :: "'x node \<Rightarrow> bool" where
  "well_formed (Node k v a x c) \<longleftrightarrow>
     (k = MappingNode \<longrightarrow> even (length c) \<and> distinct (keys c)) \<and> list_all well_formed c"

lemma well_formed_content:
  "well_formed n \<Longrightarrow> list_all well_formed (content n)"
  "well_formed n \<Longrightarrow> node_kind n = MappingNode \<Longrightarrow> even (length (content n)) \<and> distinct (keys (content n))"
  by (cases n; simp)+

lemma get_simps [simp]:
  "get (k # v # c) key = (if node_value k = key then Some v else get c key)"
  "get [k] key = None" "get [] key = None"
  by (simp_all add: get_def option.map_comp comp_def)

lemma find_key_keys: "find_key c key = None \<longleftrightarrow> key \<notin> set (keys c)"
  by (induction c key rule: find_key.induct) auto

lemma get_keys: "get c key = None \<longleftrightarrow> key \<notin> set (keys c)"
  by (simp add: get_def find_key_keys)

lemma get_mem: "get c key = Some v \<Longrightarrow> v \<in> set c"
  using find_key_bound [of c key] by (auto simp: get_def)

lemma get_append_new:
  "even (length c) \<Longrightarrow> get (c @ [k, v]) key =
     (case get c key of Some u \<Rightarrow> Some u | None \<Rightarrow> if node_value k = key then Some v else None)"
  by (induction c key rule: find_key.induct) auto

lemma get_update:
  "find_key c key = Some i \<Longrightarrow>
   get (c[i + 1 := u]) key' = (if key' = key then Some u else get c key')"
proof (induction c key arbitrary: i rule: find_key.induct)
  case (1 k v c key)
  show ?case
  proof (cases "node_value k = key")
    case True
    with 1 show ?thesis by auto
  next
    case False
    with 1 obtain j where "find_key c key = Some j" "i = j + 2" by auto
    with 1 False show ?thesis by auto
  qed
qed auto

lemma keys_update: "find_key c key = Some i \<Longrightarrow> keys (c[i + 1 := u]) = keys c"
proof (induction c key arbitrary: i rule: find_key.induct)
  case (1 k v c key)
  then show ?case by (cases "node_value k = key") auto
qed auto

lemma keys_append: "even (length c) \<Longrightarrow> keys (c @ d) = keys c @ keys d"
  by (induction c rule: keys.induct) auto

lemma keys_clone: "keys (map cloneNode c) = keys c"
  by (induction c rule: keys.induct) auto

lemma get_clone: "get (map cloneNode c) key = map_option cloneNode (get c key)"
  by (induction c key rule: find_key.induct) auto

lemma value_at_clone: "value_at (cloneNode n) path = map_option cloneNode (value_at n path)"
  by (induction n path rule: value_at.induct) (auto simp: get_clone split: option.split)

section \<open>What merging does\<close>

lemma merge_content_even:
  "even (length bc) \<Longrightarrow> even (length (merge_content bc oc))"
  by (induction bc oc rule: mergeNodes_merge_content.induct(2) [where P = "\<lambda>_ _. True"])
    (auto split: option.splits)

text \<open>Key by key: the keys of the base keep their places, new ones follow in their order.\<close>

lemma merge_content_keys:
  "even (length bc) \<Longrightarrow> even (length oc) \<Longrightarrow> distinct (keys oc) \<Longrightarrow>
   keys (merge_content bc oc) = keys bc @ filter (\<lambda>k. k \<notin> set (keys bc)) (keys oc)"
proof (induction oc arbitrary: bc rule: keys.induct)
  case (1 k v oc)
  show ?case
  proof (cases "find_key bc (node_value k)")
    case None
    have "filter (\<lambda>x. x \<notin> set (keys (bc @ [cloneNode k, cloneNode v]))) (keys oc) =
        filter (\<lambda>x. x \<notin> set (keys bc)) (keys oc)"
      using 1 by (intro filter_cong) (auto simp: keys_append)
    moreover have "node_value k \<notin> set (keys bc)" using None find_key_keys by metis
    ultimately show ?thesis using None 1 by (simp add: keys_append)
  next
    case (Some i)
    then have "node_value k \<in> set (keys bc)" using find_key_keys [of bc "node_value k"] by auto
    with Some 1 show ?thesis by (simp add: keys_update del: One_nat_def)
  qed
qed auto

lemma merge_content_get:
  "even (length bc) \<Longrightarrow> even (length oc) \<Longrightarrow> distinct (keys oc) \<Longrightarrow>
   get (merge_content bc oc) key =
     (case get oc key of
        None \<Rightarrow> get bc key
      | Some v \<Rightarrow> (case get bc key of None \<Rightarrow> Some (cloneNode v) | Some u \<Rightarrow> Some (mergeNodes u v)))"
proof (induction oc arbitrary: bc rule: keys.induct)
  case (1 k v oc)
  have nk: "get oc (node_value k) = None" using 1 by (simp add: get_keys)
  show ?case
  proof (cases "find_key bc (node_value k)")
    case None
    then have g: "get bc (node_value k) = None" by (simp add: get_def)
    from None have "get (merge_content bc (k # v # oc)) key =
        get (merge_content (bc @ [cloneNode k, cloneNode v]) oc) key" by simp
    also have "\<dots> = (case get oc key of None \<Rightarrow> get (bc @ [cloneNode k, cloneNode v]) key
        | Some w \<Rightarrow> (case get (bc @ [cloneNode k, cloneNode v]) key of None \<Rightarrow> Some (cloneNode w)
            | Some u \<Rightarrow> Some (mergeNodes u w)))"
      using 1 by simp
    finally show ?thesis
      using 1(2) nk g by (auto simp: get_append_new split: option.split)
  next
    case (Some i)
    then have g: "get bc (node_value k) = Some (bc ! (i + 1))" by (simp add: get_def)
    let ?bc = "bc[i + 1 := mergeNodes (bc ! (i + 1)) v]"
    from Some have "get (merge_content bc (k # v # oc)) key = get (merge_content ?bc oc) key" by simp
    also have "\<dots> = (case get oc key of None \<Rightarrow> get ?bc key
        | Some w \<Rightarrow> (case get ?bc key of None \<Rightarrow> Some (cloneNode w) | Some u \<Rightarrow> Some (mergeNodes u w)))"
      using 1 by (simp del: One_nat_def)
    finally show ?thesis
      using nk g get_update [OF Some] by (auto split: option.split)
  qed
qed auto

lemma well_formed_get: "well_formed n \<Longrightarrow> get (content n) key = Some v \<Longrightarrow> well_formed v"
  using well_formed_content(1) [of n] get_mem [of "content n" key v] by (auto simp: list_all_iff)

lemma value_at_merge_Cons:
  assumes "well_formed b" and "well_formed ov"
    and "node_kind b = MappingNode" and "node_kind ov = MappingNode"
  shows "value_at (mergeNodes b ov) (key # path) =
    (case get (content ov) key of
       None \<Rightarrow> (case get (content b) key of None \<Rightarrow> None | Some u \<Rightarrow> value_at u path)
     | Some v \<Rightarrow>
         (case get (content b) key of
            None \<Rightarrow> value_at (cloneNode v) path
          | Some u \<Rightarrow> value_at (mergeNodes u v) path))"
  using assms well_formed_content(2) [of b] well_formed_content(2) [of ov]
  by (simp add: mergeNodes.simps [of b ov] merge_content_get split: option.split)

lemma well_formed_clone: "well_formed n \<Longrightarrow> well_formed (cloneNode n)"
  by (induction n rule: cloneNode.induct) (auto simp: keys_clone list_all_iff)

lemma well_formed_list_update:
  "list_all well_formed c \<Longrightarrow> well_formed n \<Longrightarrow> list_all well_formed (c[i := n])"
  using set_update_subset_insert [of c i n] by (auto simp: list_all_iff)

lemma merge_well_formed:
  fixes b ov :: "'x node"
  shows "well_formed b \<Longrightarrow> well_formed ov \<Longrightarrow> well_formed (mergeNodes b ov)"
    and "list_all well_formed bc \<Longrightarrow> list_all well_formed oc \<Longrightarrow> list_all well_formed (merge_content (bc :: 'x node list) oc)"
proof (induction b ov and bc oc rule: mergeNodes_merge_content.induct)
  case (1 b ov)
  show ?case
  proof (cases "node_kind b = MappingNode \<and> node_kind ov = MappingNode")
    case True
    with 1 have "list_all well_formed (merge_content (content b) (content ov))"
      by (simp add: well_formed_content)
    moreover have "even (length (merge_content (content b) (content ov)))"
      using 1 True well_formed_content(2) merge_content_even by blast
    moreover have "distinct (keys (merge_content (content b) (content ov)))"
      using 1 True well_formed_content(2) [of b] well_formed_content(2) [of ov]
      by (auto simp: merge_content_keys)
    ultimately show ?thesis
      using True by (simp add: mergeNodes.simps [of b ov] set_content_def)
  next
    case False
    with 1 show ?thesis by (auto simp: mergeNodes.simps [of b ov] well_formed_clone)
  qed
next
  case (2 bc k v oc)
  show ?case
  proof (cases "find_key bc (node_value k)")
    case None
    with 2 show ?thesis by (simp add: well_formed_clone)
  next
    case (Some i)
    have "well_formed (bc ! (i + 1))"
      using "2.prems"(1) find_key_bound [OF Some] by (simp add: list_all_length)
    with "2.IH"(1) [OF Some] "2.prems"
    have "list_all well_formed (bc[i + 1 := mergeNodes (bc ! (i + 1)) v])"
      by (simp add: well_formed_list_update del: One_nat_def)
    with 2 Some show ?thesis by (simp del: One_nat_def)
  qed
qed auto

text \<open>
  C39: merging keeps configurations well formed: a merge of two trees whose mappings have a value for every key
  and no key twice is such a tree again, at every depth.
\<close>

theorem mergeNodes_well_formed:
  assumes "well_formed b" and "well_formed ov"
  shows "well_formed (mergeNodes b ov)"
  using assms by (rule merge_well_formed)

text \<open>
  C31: the overlay wins. Whatever the base holds, every value other than a mapping that the overlay has at
  some path of keys is, up to its anchors, the value of the merged configuration at that path.
\<close>

theorem mergeNodes_overlay_wins:
  assumes "well_formed b" and "well_formed ov"
    and "value_at ov path = Some v" and "node_kind v \<noteq> MappingNode"
  shows "value_at (mergeNodes b ov) path = Some (cloneNode v)"
  using assms
proof (induction path arbitrary: b ov)
  case Nil
  then show ?case by (auto simp: mergeNodes.simps [of b v])
next
  case (Cons key path)
  then obtain w where ov: "node_kind ov = MappingNode" and w: "get (content ov) key = Some w"
    and v: "value_at w path = Some v"
    by (auto split: if_splits option.splits)
  show ?case
  proof (cases "node_kind b = MappingNode")
    case True
    have "value_at (mergeNodes u w) path = Some (cloneNode v)" if "get (content b) key = Some u" for u
      using that Cons.IH [of u w] Cons.prems v w by (simp add: well_formed_get)
    then show ?thesis
      using Cons.prems True ov w v
      by (simp add: value_at_merge_Cons value_at_clone del: value_at.simps split: option.split)
  next
    case False
    with Cons.prems show ?thesis
      by (simp add: mergeNodes.simps [of b ov] value_at_clone del: value_at.simps)
  qed
qed

text \<open>The overlay does not touch a path: it follows it through mappings until a key is missing.\<close>

fun untouched :: "'x node \<Rightarrow> string list \<Rightarrow> bool" where
  "untouched n [] \<longleftrightarrow> False"
| "untouched n (key # path) \<longleftrightarrow>
     node_kind n = MappingNode \<and>
     (case get (content n) key of None \<Rightarrow> True | Some v \<Rightarrow> untouched v path)"


section \<open>The configuration of a test\<close>

record ConfigTemplate =
  Host :: string
  Namespace :: string
  Templates :: "string list"

text \<open>A document without a node makes the code index an empty slice: a panic, \<open>None\<close>.\<close>

record 'x yaml_codec =
  yaml_node :: "string \<Rightarrow> 'x node result"
  yaml_encode :: "'x node \<Rightarrow> string result"

definition merge_root :: "'x node \<Rightarrow> 'x node \<Rightarrow> 'x node" where
  "merge_root base overlay =
     (if node_kind base = MappingNode \<and> node_kind overlay = MappingNode then mergeNodes base overlay
      else base)"

text \<open>The merge changes the first argument in place; its result for other nodes is discarded.\<close>

fun apply_overlays ::
  "'x yaml_codec \<Rightarrow> (string \<Rightarrow> string) \<Rightarrow> nat \<Rightarrow> string list \<Rightarrow> 'x node list \<Rightarrow> 'x node list result option" where
  "apply_overlays y replace i [] base = Some (Inr base)"
| "apply_overlays y replace i (ov # ovs) base =
     (if trim_space ov = [] then apply_overlays y replace (Suc i) ovs base
      else case yaml_node y (replace ov) of
             Inl err \<Rightarrow> Some (Inl (Wrapf ''unmarshal overlay %d: %w'' [show_nat i] err))
           | Inr doc \<Rightarrow>
               (case (base, content doc) of
                  (b # bs, r # rs) \<Rightarrow> apply_overlays y replace (Suc i) ovs (merge_root b r # bs)
                | _ \<Rightarrow> None))"

definition env_replacements :: "ConfigTemplate \<Rightarrow> (string \<times> string) list" where
  "env_replacements t =
     [(''${env:DT_ENDPOINT}'', ''http://'' @ Host t @ '':4318''),
      (''${env:DT_PLATFORM_TOKEN}'', []),
      (''${env:NAMESPACE}'', Namespace t)]"

definition indent_for_configmap :: "string \<Rightarrow> string result" where
  "indent_for_configmap s =
     (case scan_lines s of
        Inl err \<Rightarrow> Inl (Wrapf ''building indented config: %w'' [] err)
      | Inr ls \<Rightarrow> Inr (concat (map (\<lambda>l. ''    '' @ l @ nl) ls)))"

definition GetCollectorConfig ::
  "'x yaml_codec \<Rightarrow> os \<Rightarrow> string \<Rightarrow> ConfigTemplate \<Rightarrow> string result option" where
  "GetCollectorConfig y w path template =
     (if path = [] then Some (Inr [])
      else case read_file w path of
             Inl err \<Rightarrow> Some (Inl err)
           | Inr baseBytes \<Rightarrow>
               (let replace = replacer (env_replacements template)
                in case yaml_node y (replace baseBytes) of
                     Inl err \<Rightarrow> Some (Inl (Wrapf ''unmarshal base config %q: %w'' [path] err))
                   | Inr baseDoc \<Rightarrow>
                       (case apply_overlays y replace 0 (Templates template) (content baseDoc) of
                          None \<Rightarrow> None
                        | Some (Inl err) \<Rightarrow> Some (Inl err)
                        | Some (Inr []) \<Rightarrow> None
                        | Some (Inr (root # _)) \<Rightarrow>
                            (case yaml_encode y root of
                               Inl err \<Rightarrow> Some (Inl (Wrapf ''marshal merged config: %w'' [] err))
                             | Inr out \<Rightarrow> Some (indent_for_configmap out)))))"

definition KubeConfigEnvVar :: string where "KubeConfigEnvVar = ''KUBECONFIG''"
definition TestKubeConfig :: string where "TestKubeConfig = ''/tmp/kube-config-collector-e2e-testing''"

definition KubeconfigFromEnvOrDefault :: "os \<Rightarrow> string" where
  "KubeconfigFromEnvOrDefault w =
     (if getenv w KubeConfigEnvVar \<noteq> [] then getenv w KubeConfigEnvVar else TestKubeConfig)"

lemma drop_cr_no_nl: "CHR 0x0A \<notin> set l \<Longrightarrow> CHR 0x0A \<notin> set (drop_cr l)"
  by (auto simp: drop_cr_def dest: in_set_butlastD)

text \<open>The tree whose encoding is written: the base with every overlay that is not blank merged in.\<close>

fun merged_root :: "'x yaml_codec \<Rightarrow> (string \<Rightarrow> string) \<Rightarrow> string list \<Rightarrow> 'x node \<Rightarrow> 'x node option" where
  "merged_root y replace [] base = Some base"
| "merged_root y replace (ov # ovs) base =
     (if trim_space ov = [] then merged_root y replace ovs base
      else case yaml_node y (replace ov) of
             Inl _ \<Rightarrow> None
           | Inr doc \<Rightarrow>
               (case content doc of [] \<Rightarrow> None | r # _ \<Rightarrow> merged_root y replace ovs (merge_root base r)))"

lemma apply_overlays_Inr:
  "apply_overlays y replace i ovs (b # bs) = Some (Inr c) \<longleftrightarrow>
   (\<exists>root. merged_root y replace ovs b = Some root \<and> c = root # bs)"
  by (induction ovs arbitrary: i b) (auto split: sum.split list.split)

lemma apply_overlays_Nil: "apply_overlays y replace i ovs [] = Some (Inr c) \<Longrightarrow> c = []"
  by (induction ovs arbitrary: i) (auto split: if_splits sum.splits)

text \<open>
  C33: a configuration that is delivered for a named file is the encoding of the base merged with every
  overlay that is not blank, in their order, with the placeholders replaced in each text before it
  is decoded; its lines are the lines of that encoding, each behind four spaces, so taking
  four characters off every line gives the encoding back.
\<close>

theorem GetCollectorConfig_lines:
  assumes "GetCollectorConfig y w path t = Some (Inr out)" and "path \<noteq> []"
  shows "\<exists>baseBytes doc base rest root enc ls.
    read_file w path = Inr baseBytes \<and>
    yaml_node y (replacer (env_replacements t) baseBytes) = Inr doc \<and> content doc = base # rest \<and>
    merged_root y (replacer (env_replacements t)) (Templates t) base = Some root \<and>
    yaml_encode y root = Inr enc \<and> scan_lines enc = Inr ls \<and>
    raw_lines out = map (\<lambda>l. ''    '' @ l) ls \<and> map (drop 4) (raw_lines out) = ls"
proof -
  let ?rp = "replacer (env_replacements t)"
  obtain baseBytes doc c where bb: "read_file w path = Inr baseBytes"
    and doc: "yaml_node y (?rp baseBytes) = Inr doc"
    and ap: "apply_overlays y ?rp 0 (Templates t) (content doc) = Some (Inr c)"
    using assms by (auto simp: GetCollectorConfig_def Let_def split: sum.splits option.splits)
  with assms obtain root rest enc where c: "c = root # rest" and enc: "yaml_encode y root = Inr enc"
    and ind: "indent_for_configmap enc = Inr out"
    by (auto simp: GetCollectorConfig_def Let_def split: sum.splits list.splits)
  from ap c obtain base bs where base: "content doc = base # bs"
    using apply_overlays_Nil [of y ?rp 0 "Templates t" c] by (cases "content doc") auto
  from ap c base have root: "merged_root y ?rp (Templates t) base = Some root"
    by (auto simp: apply_overlays_Inr)
  from ind obtain ls where ls: "scan_lines enc = Inr ls" and out: "out = concat (map (\<lambda>l. ''    '' @ l @ nl) ls)"
    by (auto simp: indent_for_configmap_def split: sum.splits)
  have "list_all (\<lambda>l. CHR 0x0A \<notin> set l) ls"
    using ls raw_lines_no_nl drop_cr_no_nl
    by (auto simp: scan_lines_def list_all_iff split: if_splits)
  then have "raw_lines (concat (map (\<lambda>l. l @ nl) (map (\<lambda>l. ''    '' @ l) ls))) = map (\<lambda>l. ''    '' @ l) ls"
    by (intro raw_lines_terminated) (simp add: list_all_iff)
  then have "raw_lines out = map (\<lambda>l. ''    '' @ l) ls" by (simp add: out comp_def)
  then show ?thesis using bb doc base root enc ls by (auto simp: comp_def)
qed

section \<open>Manifests and deployments\<close>

text \<open>The files of a directory, in the order of their names; the operation changes the cluster \<open>'s\<close>.\<close>

fun operate_on_files ::
  "('s \<Rightarrow> string \<Rightarrow> 's \<times> go_error option) \<Rightarrow> os \<Rightarrow> string \<Rightarrow> string list \<Rightarrow> 's \<Rightarrow> 's \<times> go_error option" where
  "operate_on_files operation w dirPath [] s = (s, None)"
| "operate_on_files operation w dirPath (name # files) s =
     (if ext_of name = ''.yaml'' \<or> ext_of name = ''.yml''
      then let filePath = path_join dirPath name
           in case read_file w filePath of
                Inl err \<Rightarrow> (s, Some (Wrapf ''error reading file: %v'' [] err))
              | Inr yamlData \<Rightarrow>
                  (case operation s yamlData of
                     (s, Some err) \<Rightarrow>
                       (s, Some (Wrapf ''error performing operation on file %s: %v'' [filePath] err))
                   | (s, None) \<Rightarrow> operate_on_files operation w dirPath files s)
      else operate_on_files operation w dirPath files s)"

definition PerformOperationOnYAMLFiles ::
  "('s \<Rightarrow> string \<Rightarrow> 's \<times> go_error option) \<Rightarrow> os \<Rightarrow> (string \<Rightarrow> string list result) \<Rightarrow> string \<Rightarrow>
   's \<Rightarrow> 's \<times> go_error option" where
  "PerformOperationOnYAMLFiles operation w read_dir dirPath s =
     (case read_dir dirPath of
        Inl err \<Rightarrow> (s, Some (Wrapf ''error reading directory: %v'' [] err))
      | Inr files \<Rightarrow> operate_on_files operation w dirPath files s)"

text \<open>
  Waiting for the pods of a deployment: what each round of the loop sees, the deadline or the
  deployment. Dereferencing the number of replicas that a deployment does not set is a panic.
\<close>

record deployment =
  Replicas :: "int option"
  ReadyReplicas :: int

datatype 'u round = Deadline | Got "'u result"

datatype wait_end = Waiting | Ready | Wait_failed go_error | Panicked

definition ConvertUnstructuredToDeployment :: "('u \<Rightarrow> deployment result) \<Rightarrow> 'u \<Rightarrow> deployment result" where
  "ConvertUnstructuredToDeployment from_unstructured obj =
     (case from_unstructured obj of
        Inl err \<Rightarrow> Inl (Wrapf ''error converting unstructured to deployment: %v'' [] err)
      | Inr d \<Rightarrow> Inr d)"

fun WaitForDeploymentPods :: "('u \<Rightarrow> deployment result) \<Rightarrow> string \<Rightarrow> 'u round list \<Rightarrow> wait_end" where
  "WaitForDeploymentPods conv name [] = Waiting"
| "WaitForDeploymentPods conv name (Deadline # rs) =
     Wait_failed (Errorf ''timeout waiting for deployment %s pods to be ready'' [name])"
| "WaitForDeploymentPods conv name (Got (Inl err) # rs) =
     Wait_failed (Wrapf ''error getting deployment %s: %v'' [name] err)"
| "WaitForDeploymentPods conv name (Got (Inr obj) # rs) =
     (case ConvertUnstructuredToDeployment conv obj of
        Inl err \<Rightarrow> Wait_failed (Wrapf ''error converting unstructured to deployment: %v'' [] err)
      | Inr d \<Rightarrow>
          (case Replicas d of
             None \<Rightarrow> Panicked
           | Some r \<Rightarrow> if r = ReadyReplicas d then Ready else WaitForDeploymentPods conv name rs))"

text \<open>What a round shows: a deployment that is ready, or one to wait for.\<close>

definition shows_deployment :: "('u \<Rightarrow> deployment result) \<Rightarrow> (deployment \<Rightarrow> bool) \<Rightarrow> 'u round \<Rightarrow> bool" where
  "shows_deployment conv P r \<longleftrightarrow>
     (case r of Got (Inr obj) \<Rightarrow> (case ConvertUnstructuredToDeployment conv obj of Inr d \<Rightarrow> P d | Inl _ \<Rightarrow> False) | _ \<Rightarrow> False)"

definition is_ready :: "deployment \<Rightarrow> bool" where
  "is_ready d \<longleftrightarrow> Replicas d = Some (ReadyReplicas d)"

definition is_waiting :: "deployment \<Rightarrow> bool" where
  "is_waiting d \<longleftrightarrow> Replicas d \<noteq> None \<and> \<not> is_ready d"

text \<open>The pods with the labels, by their names.\<close>

definition GetPodNameByLabels :: "(string \<Rightarrow> string list result) \<Rightarrow> string \<Rightarrow> string result" where
  "GetPodNameByLabels list_pods selector =
     (case list_pods selector of
        Inl err \<Rightarrow> Inl (Wrapf ''error listing pods: %v'' [] err)
      | Inr [] \<Rightarrow> Inl (Errorf ''no pods found with the specified labels'' [])
      | Inr (p # _) \<Rightarrow> Inr p)"

text \<open>
  The usage of a pod in nanocores and bytes, one pair for each container. Scaling a quantity
  rounds up. The comment speaks of averages; the code prints the totals.
\<close>

definition scaled_up :: "int \<Rightarrow> int \<Rightarrow> int" where
  "scaled_up unit v = - ((- v) div unit)"

definition FetchPodMetrics :: "((int \<times> int) list) result \<Rightarrow> (string \<times> string) result" where
  "FetchPodMetrics containers =
     (case containers of
        Inl err \<Rightarrow> Inl (Wrapf ''error fetching pod metrics: %v'' [] err)
      | Inr cs \<Rightarrow>
          Inr (itoa (scaled_up 1000000 (sum_list (map fst cs))) @ ''m'',
               itoa (scaled_up 1000000 (sum_list (map snd cs))) @ ''Mi''))"

text \<open>Operations one after the other, each of which succeeds.\<close>

fun chain :: "('s \<Rightarrow> string \<Rightarrow> 's \<times> go_error option) \<Rightarrow> string list \<Rightarrow> 's \<Rightarrow> 's \<Rightarrow> bool" where
  "chain operation [] s s' \<longleftrightarrow> s' = s"
| "chain operation (d # ds) s s' \<longleftrightarrow> snd (operation s d) = None \<and> chain operation ds (fst (operation s d)) s'"

text \<open>
  A directory of manifests is worked through in order and stops at the first failure: a success means that
  the operation succeeded on the contents of every file with a YAML extension, in their order, each on
  the cluster the one before left, and on nothing else.
\<close>

theorem PerformOperationOnYAMLFiles_ok:
  "PerformOperationOnYAMLFiles operation w read_dir dir s = (s', None) \<longleftrightarrow>
   (\<exists>names ds. read_dir dir = Inr names \<and>
      map (\<lambda>n. read_file w (path_join dir n)) (filter (\<lambda>n. ext_of n \<in> {''.yaml'', ''.yml''}) names) = map Inr ds \<and>
      chain operation ds s s')"
proof -
  have files: "operate_on_files operation w dir names s = (s', None) \<longleftrightarrow>
      (\<exists>ds. map (\<lambda>n. read_file w (path_join dir n)) (filter (\<lambda>n. ext_of n \<in> {''.yaml'', ''.yml''}) names) = map Inr ds \<and>
        chain operation ds s s')" for names s
  proof (induction names arbitrary: s)
    case (Cons n names)
    show ?case
    proof (cases "ext_of n \<in> {''.yaml'', ''.yml''}")
      case True
      then show ?thesis
        by (cases "read_file w (path_join dir n)"; cases "operation s (projr (read_file w (path_join dir n)))")
          (auto simp: Cons.IH Let_def map_eq_Cons_conv Cons_eq_map_conv split: option.split)
    qed (simp add: Cons.IH)
  qed auto
  show ?thesis
    by (auto simp: PerformOperationOnYAMLFiles_def files split: sum.split)
qed

section \<open>Objects of a test\<close>

text \<open>
  The cluster's client. A clean-up function deletes what the test created; a deletion that fails is
  a failed requirement, which ends the clean-up function.
\<close>

record 'o client =
  decode_object :: "string \<Rightarrow> 'o result"
  create_object :: "string \<Rightarrow> 'o result"
  delete_object :: "'o \<Rightarrow> go_error option"
  object_name :: "'o \<Rightarrow> string"
  create_collector_objects :: "string \<Rightarrow> string \<Rightarrow> (string \<rightharpoonup> string) \<Rightarrow> string \<Rightarrow> 'o list"

definition ConvertBytesToUnstructured :: "'o client \<Rightarrow> string \<Rightarrow> 'o result" where
  "ConvertBytesToUnstructured client data = decode_object client data"

definition DeleteObjectFromManifest :: "'o client \<Rightarrow> string \<Rightarrow> go_error option" where
  "DeleteObjectFromManifest client manifest =
     (case ConvertBytesToUnstructured client manifest of
        Inl err \<Rightarrow> Some err
      | Inr unstruct \<Rightarrow> delete_object client unstruct)"

text \<open>The objects for which a deletion was sent, and the failure that ended the loop.\<close>

fun delete_all :: "'o client \<Rightarrow> 'o list \<Rightarrow> 'o list \<times> go_error option" where
  "delete_all client [] = ([], None)"
| "delete_all client (obj # objs) =
     (case delete_object client obj of
        Some err \<Rightarrow> ([obj], Some (Wrapf ''failed to delete object %s'' [object_name client obj] err))
      | None \<Rightarrow> (case delete_all client objs of (ds, e) \<Rightarrow> (obj # ds, e)))"

text \<open>What a test created and the clean-up function it registers for it.\<close>

definition CreateObjectFromFile ::
  "'o client \<Rightarrow> os \<Rightarrow> string \<Rightarrow> ('o \<times> (unit \<Rightarrow> 'o list \<times> go_error option)) result" where
  "CreateObjectFromFile client w file =
     (case read_file w file of
        Inl err \<Rightarrow> Inl (Wrapf ''failed to read object file %s'' [file] err)
      | Inr buf \<Rightarrow>
          (case create_object client buf of
             Inl err \<Rightarrow> Inl (Wrapf ''failed to create k8s object from file %s'' [file] err)
           | Inr obj \<Rightarrow> Inr (obj, \<lambda>_. delete_all client [obj])))"

definition CreateCollectorObjects ::
  "'o client \<Rightarrow> string \<Rightarrow> string \<Rightarrow> (string \<rightharpoonup> string) \<Rightarrow> string \<Rightarrow>
   'o list \<times> (unit \<Rightarrow> 'o list \<times> go_error option)" where
  "CreateCollectorObjects client testID manifestsDir values host =
     (let objs = create_collector_objects client testID manifestsDir values host
      in (objs, \<lambda>_. delete_all client objs))"

definition MustRead :: "os \<Rightarrow> string \<Rightarrow> string result" where
  "MustRead w p =
     (case read_file w p of Inl err \<Rightarrow> Inl (Wrapf ''read file %s'' [p] err) | Inr b \<Rightarrow> Inr b)"

text \<open>The client of the metrics API; its two constructors belong to the Kubernetes library.\<close>

definition NewMetricsClientSet ::
  "(string \<Rightarrow> 'c result) \<Rightarrow> ('c \<Rightarrow> 'm result) \<Rightarrow> os \<Rightarrow> 'm result" where
  "NewMetricsClientSet build_config new_for_config w =
     (let kubeconfigPath = (if getenv w KubeConfigEnvVar \<noteq> [] then getenv w KubeConfigEnvVar else TestKubeConfig)
      in if kubeconfigPath = [] then Inl (Errorf ''please provide file path to load kubeconfig'' [])
         else case build_config kubeconfigPath of
                Inl err \<Rightarrow> Inl (Wrapf ''unable to load kubeconfig from %s: %w'' [kubeconfigPath] err)
              | Inr restConfig \<Rightarrow>
                  (case new_for_config restConfig of
                     Inl err \<Rightarrow> Inl (Wrapf ''error creating metrics clientset: %v'' [] err)
                   | Inr m \<Rightarrow> Inr m))"

text \<open>
  A clean-up sends the deletions in the order of the objects up to the first one that fails; it is
  complete exactly when none fails. The objects behind a failed one stay in the cluster.
\<close>

lemma delete_all_prefix:
  "prefix (fst (delete_all client objs)) objs"
  "snd (delete_all client objs) = None \<longleftrightarrow> list_all (\<lambda>o'. delete_object client o' = None) objs"
  "snd (delete_all client objs) = None \<Longrightarrow> fst (delete_all client objs) = objs"
  by (induction objs) (auto split: option.splits prod.splits)

lemma delete_all_stops:
  "list_all (\<lambda>o'. delete_object client o' = None) before \<Longrightarrow> delete_object client obj = Some err \<Longrightarrow>
   fst (delete_all client (before @ obj # behind)) = before @ [obj]"
  by (induction before) (auto split: prod.splits)

lemma WaitForDeploymentPods_step:
  "WaitForDeploymentPods conv name (r # rs) =
     (if shows_deployment conv is_ready r then Ready
      else if shows_deployment conv is_waiting r then WaitForDeploymentPods conv name rs
      else WaitForDeploymentPods conv name [r])"
proof (cases r)
  case (Got x)
  show ?thesis
  proof (cases x)
    case (Inr obj)
    with Got show ?thesis
      by (cases "ConvertUnstructuredToDeployment conv obj")
        (auto simp: shows_deployment_def is_ready_def is_waiting_def split: option.split)
  qed (simp add: Got shows_deployment_def)
qed (simp add: shows_deployment_def)

lemma single_round:
  "\<not> shows_deployment conv is_ready r \<Longrightarrow> \<not> shows_deployment conv is_waiting r \<Longrightarrow>
   WaitForDeploymentPods conv name [r] \<noteq> Waiting \<and> WaitForDeploymentPods conv name [r] \<noteq> Ready"
proof (cases r)
  case (Got x)
  assume n: "\<not> shows_deployment conv is_ready r" "\<not> shows_deployment conv is_waiting r"
  show ?thesis
  proof (cases x)
    case (Inr obj)
    with Got n show ?thesis
      by (cases "ConvertUnstructuredToDeployment conv obj")
        (auto simp: shows_deployment_def is_ready_def is_waiting_def split: option.splits)
  qed (simp add: Got)
qed simp

text \<open>
  Waiting for a deployment returns. When the loop saw its deadline at some round, it ends at or before
  it; it reports success exactly when some round shows a deployment whose ready replicas are as many
  as asked for and all rounds before it show deployments to wait for.
\<close>

theorem WaitForDeploymentPods_ends:
  assumes "Deadline \<in> set rounds"
  shows "WaitForDeploymentPods conv name rounds \<noteq> Waiting \<and>
    (WaitForDeploymentPods conv name rounds = Ready \<longleftrightarrow>
       (\<exists>r late. dropWhile (shows_deployment conv is_waiting) rounds = r # late \<and> shows_deployment conv is_ready r))"
  using assms
proof (induction rounds)
  case (Cons r rs)
  have apart: "\<not> (shows_deployment conv is_ready r \<and> shows_deployment conv is_waiting r)"
    by (auto simp: shows_deployment_def is_waiting_def split: round.splits sum.splits)
  have deadline: "r = Deadline \<Longrightarrow> \<not> shows_deployment conv is_ready r \<and> \<not> shows_deployment conv is_waiting r"
    by (simp add: shows_deployment_def)
  show ?case
  proof (cases "shows_deployment conv is_waiting r")
    case True
    with deadline Cons.prems have "Deadline \<in> set rs" by auto
    with Cons.IH True apart show ?thesis by (subst (1 2) WaitForDeploymentPods_step) simp
  next
    case False
    with single_round [of conv r name] show ?thesis
      by (subst (1 2) WaitForDeploymentPods_step) simp
  qed
qed simp

theorem WaitForDeploymentPods_ends_witness:
  "WaitForDeploymentPods Inr ''d'' [Got (Inr \<lparr>Replicas = Some 2, ReadyReplicas = 1\<rparr>), Deadline] \<noteq> Waiting"
  using WaitForDeploymentPods_ends [of "[Got (Inr \<lparr>Replicas = Some 2, ReadyReplicas = 1\<rparr>), Deadline]" Inr "''d''"]
  by simp

section \<open>Examples\<close>

abbreviation scalar :: "string \<Rightarrow> unit node" where
  "scalar v \<equiv> Node ScalarNode v [] () []"

abbreviation mapping :: "unit node list \<Rightarrow> unit node" where
  "mapping c \<equiv> Node MappingNode [] [] () c"

definition base_config :: "unit node" where
  "base_config = mapping [scalar ''receivers'', mapping [scalar ''otlp'', scalar ''4317''],
     scalar ''service'', scalar ''on'']"

definition overlay_config :: "unit node" where
  "overlay_config = mapping [scalar ''receivers'', mapping [scalar ''otlp'', scalar ''4319''],
     scalar ''exporters'', scalar ''debug'']"

theorem mergeNodes_well_formed_witness:
  "well_formed (mergeNodes base_config overlay_config)"
  by (rule mergeNodes_well_formed) (simp_all add: base_config_def overlay_config_def)

theorem mergeNodes_overlay_wins_witness:
  "value_at (mergeNodes base_config overlay_config) [''receivers'', ''otlp''] = Some (scalar ''4319'')"
  using mergeNodes_overlay_wins [of base_config overlay_config "[''receivers'', ''otlp'']" "scalar ''4319''"]
  by (simp add: base_config_def overlay_config_def)


definition line_codec :: "unit yaml_codec" where
  "line_codec = \<lparr>yaml_node = \<lambda>s. Inr (Node DocumentNode [] [] () [scalar s]),
     yaml_encode = \<lambda>n. Inr (node_value n @ nl)\<rparr>"

definition config_os :: os where
  "config_os = \<lparr>os_files = [''base.yaml'' \<mapsto> ''a''], os_readable = \<lambda>_. True, os_writable = \<lambda>_. True,
     os_env = Map.empty, os_stdout = []\<rparr>"

definition plain_template :: ConfigTemplate where
  "plain_template = \<lparr>Host = ''h'', Namespace = ''n'', Templates = []\<rparr>"

lemma sample_config:
  "GetCollectorConfig line_codec config_os ''base.yaml'' plain_template = Some (Inr (''    a'' @ nl))"
proof -
  have "replacer (env_replacements plain_template) ''a'' = ''a''"
    by (simp add: replacer.simps replacement_at_def env_replacements_def)
  moreover have "scan_lines (''a'' @ nl) = Inr [''a'']"
    using raw_lines_terminated [of "[''a'']"] by (simp add: scan_lines_def max_token_def drop_cr_def)
  ultimately show ?thesis
    by (simp add: GetCollectorConfig_def read_file_def config_os_def line_codec_def plain_template_def
        indent_for_configmap_def Let_def)
qed

theorem GetCollectorConfig_lines_witness:
  "\<exists>ls. raw_lines (''    a'' @ nl) = map (\<lambda>l. ''    '' @ l) ls \<and> map (drop 4) (raw_lines (''    a'' @ nl)) = ls"
proof -
  have "''base.yaml'' \<noteq> []" by simp
  from GetCollectorConfig_lines [OF sample_config this] show ?thesis by blast
qed

end
