(* ===== verification/Metrics_Debug.thy ===== *)
theory Metrics_Debug
  imports Telemetry_Helpers Go_Strings
begin

text \<open>
  The output of the helper \<^verbatim>\<open>Debug\<close> (\<^verbatim>\<open>testcommon/testutil\<close>, testutil.go), which shows two sets of metrics
  after a failed comparison, and the count of log records. A line of output is its format with the
  values put in. What the data model keeps opaque is shown through given functions.
\<close>

datatype 'v log_arg = S string | N nat | T metric_type | Raw "'v attrs"

type_synonym 'v log_line = "string \<times> 'v log_arg list"

record ('d, 'x) views =
  v_int :: "'d \<Rightarrow> string"
  v_double :: "'d \<Rightarrow> string"
  v_count :: "'d \<Rightarrow> string"
  v_sum :: "'d \<Rightarrow> string"
  v_buckets :: "'d \<Rightarrow> string"
  v_start :: "'d \<Rightarrow> string"
  v_time :: "'d \<Rightarrow> string"
  v_desc :: "'x \<Rightarrow> string"
  v_unit :: "'x \<Rightarrow> string"

definition maxPrint :: nat where "maxPrint = 10"

text \<open>The values of a data point that are shown, by the type of the metric.\<close>

definition point_format :: "metric_type \<Rightarrow> string" where
  "point_format ty =
     (case ty of
        Histogram \<Rightarrow>
          ''[DEBUG] %s resource[%d] scope[%d:%s] metric[%d] hist dp[%d]: count=%d sum=%v bounds=%v attrs=%v start=%d time=%d''
      | ExponentialHistogram \<Rightarrow>
          ''[DEBUG] %s resource[%d] scope[%d:%s] metric[%d] exp-hist dp[%d]: count=%d sum=%v attrs=%v start=%d time=%d''
      | Summary \<Rightarrow>
          ''[DEBUG] %s resource[%d] scope[%d:%s] metric[%d] summary dp[%d]: count=%d sum=%v attrs=%v start=%d time=%d''
      | _ \<Rightarrow>
          ''[DEBUG] %s resource[%d] scope[%d:%s] metric[%d] dp[%d]: int=%d double=%v attrs=%v start=%d time=%d'')"

definition point_args :: "('d, 'x) views \<Rightarrow> metric_type \<Rightarrow> ('v, 'd) datapoint \<Rightarrow> 'v log_arg list" where
  "point_args vw ty dp =
     (let d = dp_body dp; stamps = [Raw (dp_attrs dp), S (v_start vw d), S (v_time vw d)]
      in case ty of
           Histogram \<Rightarrow> [S (v_count vw d), S (v_sum vw d), S (v_buckets vw d)] @ stamps
         | ExponentialHistogram \<Rightarrow> [S (v_count vw d), S (v_sum vw d)] @ stamps
         | Summary \<Rightarrow> [S (v_count vw d), S (v_sum vw d)] @ stamps
         | _ \<Rightarrow> [S (v_int vw d), S (v_double vw d)] @ stamps)"

fun points_loop :: "(nat \<Rightarrow> ('v, 'd) datapoint \<Rightarrow> 'v log_line) \<Rightarrow> ('v, 'd) datapoint list \<Rightarrow> nat \<Rightarrow> 'v log_line list" where
  "points_loop line [] dpi = []"
| "points_loop line (dp # dps) dpi =
     (if dpi < maxPrint then line dpi dp # points_loop line dps (Suc dpi) else [])"

definition printDataPoints ::
  "('d, 'x) views \<Rightarrow> string \<Rightarrow> ('v, 'd, 'x) metric \<Rightarrow> nat \<Rightarrow> nat \<Rightarrow> nat \<Rightarrow> string \<Rightarrow> 'v log_line list" where
  "printDataPoints vw pfx met r s mi scopeInfo =
     (let at = [S pfx, N r, N s, S scopeInfo, N mi]
      in if met_type met = Empty
         then [(''[DEBUG] %s resource[%d] scope[%d:%s] metric[%d]: unknown metric type=%v'', at @ [T (met_type met)])]
         else points_loop
                (\<lambda>dpi dp. (point_format (met_type met), at @ [N dpi] @ point_args vw (met_type met) dp))
                (met_points met) 0)"

definition log_metric ::
  "('d, 'x) views \<Rightarrow> string \<Rightarrow> nat \<Rightarrow> nat \<Rightarrow> string \<Rightarrow> nat \<times> ('v, 'd, 'x) metric \<Rightarrow> 'v log_line list" where
  "log_metric vw pfx i s scopeInfo m =
     (case m of (mi, met) \<Rightarrow>
        (''[DEBUG] %s resource[%d] scope[%d] metric[%d]: name=%q desc=%q unit=%q type=%s datapoints=%d'',
         [S pfx, N i, N s, N mi, S (met_name met), S (v_desc vw (met_rest met)), S (v_unit vw (met_rest met)),
          T (met_type met), N (dataPointsCount met)])
        # printDataPoints vw pfx met i s mi scopeInfo)"

definition log_scope ::
  "('d, 'x) views \<Rightarrow> string \<Rightarrow> nat \<Rightarrow> nat \<times> ('v, 'd, 'x) scope_metrics \<Rightarrow> 'v log_line list" where
  "log_scope vw pfx i sc =
     (case sc of (s, sm) \<Rightarrow>
        (''[DEBUG] %s resource[%d] scope[%d]: name=%q version=%q metrics=%d'',
         [S pfx, N i, N s, S (sm_name sm), S (sm_version sm), N (length (sm_metrics sm))])
        # concat (map (log_metric vw pfx i s (scopeInfoFrom sm)) (enumerate 0 (sm_metrics sm))))"

definition logMetrics :: "('d, 'x) views \<Rightarrow> string \<Rightarrow> ('v, 'd, 'x) metrics \<Rightarrow> 'v log_line list" where
  "logMetrics vw pfx metrics =
     concat (map (\<lambda>(i, rm).
       (''[DEBUG] %s resource[%d] attributes: %v'', [S pfx, N i, Raw (rm_attrs rm)])
       # concat (map (log_scope vw pfx i) (enumerate 0 (rm_scopes rm)))) (enumerate 0 metrics))"

definition Debug ::
  "('d, 'x) views \<Rightarrow> go_error option \<Rightarrow> ('v, 'd, 'x) metrics \<Rightarrow> ('v, 'd, 'x) metrics \<Rightarrow> 'v log_line list" where
  "Debug vw err expectedMerged actualMerged =
     (if err \<noteq> None
      then [(''[DEBUG] Expected resource count: %d'', [N (length expectedMerged)]),
            (''[DEBUG] Actual resource count: %d'', [N (length actualMerged)])] @
           logMetrics vw ''Expected'' expectedMerged @ logMetrics vw ''Actual'' actualMerged
      else [])"

definition CountLogRecords :: "('d, 'x) resource_logs list list \<Rightarrow> nat" where
  "CountLogRecords sink =
     foldl (\<lambda>n l. n + sum_list (map (\<lambda>rl. sum_list (map (\<lambda>sl. length (sl_records sl)) (rl_scopes rl))) l)) 0 sink"

section \<open>What is shown\<close>

lemma points_loop_eq:
  "points_loop line dps dpi = map (\<lambda>(i, dp). line i dp) (take (maxPrint - dpi) (enumerate dpi dps))"
proof (induction dps arbitrary: dpi)
  case (Cons dp dps)
  show ?case
  proof (cases "dpi < maxPrint")
    case True
    then obtain k where "maxPrint - dpi = Suc k" "maxPrint - Suc dpi = k" by (cases "maxPrint - dpi") auto
    with True Cons show ?thesis by simp
  qed simp
qed simp

text \<open>The first ten points of a metric are shown with their positions, each by one line.\<close>

lemma printDataPoints_length:
  "length (printDataPoints vw pfx met r s mi info) =
     (if met_type met = Empty then 1 else min maxPrint (length (met_points met)))"
  by (simp add: printDataPoints_def Let_def points_loop_eq min.commute)

lemma log_metric_length: "length (log_metric vw pfx i s info m) \<le> Suc maxPrint"
  by (cases m) (simp add: log_metric_def printDataPoints_length maxPrint_def)

lemma sum_list_le: "(\<And>x. x \<in> set xs \<Longrightarrow> f x \<le> (k :: nat)) \<Longrightarrow> sum_list (map f xs) \<le> length xs * k"
  by (induction xs) (auto intro: add_mono)

abbreviation scope_lines :: "('v, 'd, 'x) scope_metrics \<Rightarrow> nat" where
  "scope_lines sm \<equiv> Suc (11 * length (sm_metrics sm))"

abbreviation resource_lines :: "('v, 'd, 'x) resource_metrics \<Rightarrow> nat" where
  "resource_lines rm \<equiv> Suc (sum_list (map scope_lines (rm_scopes rm)))"

lemma log_scope_length: "length (log_scope vw pfx i (s, sm)) \<le> scope_lines sm"
proof -
  have "sum_list (map (\<lambda>m. length (log_metric vw pfx i s (scopeInfoFrom sm) m)) (enumerate 0 (sm_metrics sm))) \<le>
      length (enumerate 0 (sm_metrics sm)) * Suc maxPrint"
    by (rule sum_list_le) (rule log_metric_length)
  then show ?thesis by (simp add: log_scope_def length_concat comp_def maxPrint_def)
qed

lemma log_scopes_length:
  "sum_list (map (\<lambda>x. length (log_scope vw pfx i x)) (enumerate n sms)) \<le> sum_list (map scope_lines sms)"
proof (induction sms arbitrary: n)
  case (Cons sm sms)
  from add_mono [OF log_scope_length Cons.IH] show ?case by simp
qed simp

lemma logMetrics_length: "length (logMetrics vw pfx ms) \<le> sum_list (map resource_lines ms)"
proof -
  have "sum_list (map (\<lambda>x. Suc (sum_list (map (\<lambda>y. length (log_scope vw pfx (fst x) y))
        (enumerate 0 (rm_scopes (snd x)))))) (enumerate n ms)) \<le> sum_list (map resource_lines ms)" for n
  proof (induction ms arbitrary: n)
    case (Cons rm ms)
    have "Suc (sum_list (map (\<lambda>y. length (log_scope vw pfx n y)) (enumerate 0 (rm_scopes rm)))) \<le> resource_lines rm"
      using log_scopes_length by simp
    from add_mono [OF this Cons.IH] show ?case by simp
  qed simp
  then show ?thesis by (simp add: logMetrics_def length_concat comp_def case_prod_unfold)
qed

text \<open>
  The output of \<^verbatim>\<open>Debug\<close> is bounded by the shape of the metrics, not by their number of points: without
  an error nothing is shown; otherwise two lines, one for each resource and scope, and at most eleven for
  each metric.
\<close>

theorem Debug_bounded:
  "length (Debug vw err expected actual) \<le>
     (if err = None then 0
      else 2 + sum_list (map (\<lambda>rm. Suc (sum_list (map (\<lambda>sm. Suc (11 * length (sm_metrics sm))) (rm_scopes rm))))
                 (expected @ actual)))"
  using add_mono [OF logMetrics_length [of vw "''Expected''" expected] logMetrics_length [of vw "''Actual''" actual]]
  by (simp add: Debug_def)

lemma foldl_plus: "foldl (\<lambda>n l. n + f l) k zs = k + foldl (\<lambda>n l. n + f l) (0::nat) zs"
proof (induction zs arbitrary: k)
  case (Cons z zs)
  from Cons.IH [of "k + f z"] Cons.IH [of "f z"] show ?case by (simp only: foldl.simps add_0 add.assoc)
qed simp

lemma CountLogRecords_append: "CountLogRecords (xs @ ys) = CountLogRecords xs + CountLogRecords ys"
  unfolding CountLogRecords_def foldl_append by (rule foldl_plus)

end
