(* ===== verification/Test_Run.thy ===== *)
theory Test_Run
  imports Go_Text
begin

text \<open>
  What a test of the test bed acquires and gives back: receivers, Collector processes with their
  configuration files, and connections (\<^verbatim>\<open>testcommon/oteltest\<close>, sinks.go and clients.go, and the
  Collector process of \<^verbatim>\<open>testcommon/testutil\<close>, collector.go). A test keeps a log of what was
  acquired and released, the stack of clean-up functions that run when it ends, and the errors that
  were reported. A failed requirement ends the test function; the clean-up functions still run.
\<close>

section \<open>The test\<close>

datatype signal = Metrics | Traces | Logs

fun signal_name :: "signal \<Rightarrow> string" where
  "signal_name Metrics = ''metrics''"
| "signal_name Traces = ''traces''"
| "signal_name Logs = ''logs''"

record command =
  cmd_name :: string
  cmd_exec :: string
  cmd_args :: "string list"
  cmd_env :: "(string \<times> string) list"

datatype resource =
    Receiver nat signal
  | ConfigFile nat string
  | Process nat command
  | Conn nat string

datatype event = Acquired resource | Released resource | Printed string "string list"

record test =
  t_next :: nat
  t_log :: "event list"
  t_cleanups :: "resource list"
  t_errors :: "go_error list"

definition emit :: "event \<Rightarrow> test \<Rightarrow> test" where
  "emit e t = t\<lparr>t_log := t_log t @ [e]\<rparr>"

definition fresh_id :: "test \<Rightarrow> test \<times> nat" where
  "fresh_id t = (t\<lparr>t_next := Suc (t_next t)\<rparr>, t_next t)"

definition t_cleanup :: "resource \<Rightarrow> test \<Rightarrow> test" where
  "t_cleanup r t = t\<lparr>t_cleanups := r # t_cleanups t\<rparr>"

text \<open>A failed assertion is recorded; a failed requirement is recorded and stops the function.\<close>

definition t_error :: "go_error \<Rightarrow> test \<Rightarrow> test" where
  "t_error err t = t\<lparr>t_errors := t_errors t @ [err]\<rparr>"

definition assert_no_error :: "go_error option \<Rightarrow> test \<Rightarrow> test" where
  "assert_no_error err t = (case err of None \<Rightarrow> t | Some e \<Rightarrow> t_error e t)"

definition require_fails :: "go_error \<Rightarrow> test \<Rightarrow> test \<times> 'a result" where
  "require_fails err t = (t_error err t, Inl err)"

definition t_failed :: "test \<Rightarrow> bool" where
  "t_failed t \<longleftrightarrow> t_errors t \<noteq> []"

section \<open>The environment\<close>

text \<open>
  The OTLP receiver's configuration as far as it is set: the endpoints of its two optional
  protocols. The receiver factory, the child process and the network are parameters; an operation
  that returns only an error is an optional error. What is polled has an answer for every check of
  the \<open>ticks\<close> that fit into the time.
\<close>

record otlp_config =
  cfg_grpc :: "string option"
  cfg_http :: "string option"

record 'k rig =
  default_config :: otlp_config
  unmarshal_empty :: "string option \<Rightarrow> string option result"
  create_err :: "signal \<Rightarrow> otlp_config \<Rightarrow> 'k \<Rightarrow> go_error option"
  start_err :: "resource \<Rightarrow> go_error option"
  release_err :: "resource \<Rightarrow> go_error option"
  free_port :: "nat \<Rightarrow> int result"
  prepare_err :: "string \<Rightarrow> go_error option"
  dial_err :: "string \<Rightarrow> go_error option"
  http_post :: "string \<Rightarrow> string \<Rightarrow> string \<Rightarrow> int result"
  dial_tcp :: "string \<Rightarrow> nat \<Rightarrow> go_error option"
  http_get :: "string \<Rightarrow> nat \<Rightarrow> int result"
  ticks :: nat
  log_file :: "nat \<Rightarrow> string result"

section \<open>The receiver's ports\<close>

record ReceiverPorts =
  rp_Grpc :: int
  rp_Http :: int

definition InsertDefault :: "'k rig \<Rightarrow> string option \<Rightarrow> string option result" where
  "InsertDefault env opt = (if opt \<noteq> None then Inr opt else unmarshal_empty env opt)"

definition err_nil_deref :: go_error where
  "err_nil_deref = Errorf ''panic: invalid memory address or nil pointer dereference'' []"

text \<open>Without ports the default ones are used. A failure is a panic.\<close>

definition setupReceiverPorts :: "'k rig \<Rightarrow> otlp_config \<Rightarrow> ReceiverPorts option \<Rightarrow> otlp_config result" where
  "setupReceiverPorts env cfg ports =
     (case InsertDefault env (cfg_grpc cfg) of
        Inl err \<Rightarrow> Inl (Wrapf ''failed to insert default for gRPC config: %v'' [] err)
      | Inr grpc \<Rightarrow>
          (case InsertDefault env (cfg_http cfg) of
             Inl err \<Rightarrow> Inl (Wrapf ''failed to insert default for gRPC config: %v'' [] err)
           | Inr http \<Rightarrow>
               if grpc = None \<or> http = None then Inl err_nil_deref
               else (case ports of
                       Some p \<Rightarrow> Inr (cfg\<lparr>cfg_grpc := Some (''0.0.0.0:'' @ itoa (rp_Grpc p)),
                                           cfg_http := Some (''0.0.0.0:'' @ itoa (rp_Http p))\<rparr>)
                     | None \<Rightarrow> Inr (cfg\<lparr>cfg_grpc := Some ''0.0.0.0:4317'', cfg_http := Some ''0.0.0.0:4318''\<rparr>))))"

definition availablePort :: "'k rig \<Rightarrow> test \<Rightarrow> test \<times> int result" where
  "availablePort env t =
     (let (t, n) = fresh_id t
      in (case free_port env n of Inl err \<Rightarrow> require_fails err t | Inr p \<Rightarrow> (t, Inr p)))"

definition availablePorts :: "'k rig \<Rightarrow> test \<Rightarrow> test \<times> ReceiverPorts result" where
  "availablePorts env t =
     (case availablePort env t of
        (t, Inl err) \<Rightarrow> (t, Inl err)
      | (t, Inr g) \<Rightarrow>
          (case availablePort env t of
             (t, Inl err) \<Rightarrow> (t, Inl err)
           | (t, Inr h) \<Rightarrow> (t, Inr \<lparr>rp_Grpc = g, rp_Http = h\<rparr>)))"

section \<open>Starting receivers\<close>

definition create_receiver ::
  "'k rig \<Rightarrow> signal \<Rightarrow> otlp_config \<Rightarrow> 'k \<Rightarrow> test \<Rightarrow> test \<times> resource result" where
  "create_receiver env sig cfg consumer t =
     (let (t, n) = fresh_id t
      in (case create_err env sig cfg consumer of
            Some err \<Rightarrow> require_fails (Wrapf (''failed creating '' @ signal_name sig @ '' receiver'') [] err) t
          | None \<Rightarrow> (t, Inr (Receiver n sig))))"

definition start_receiver :: "'k rig \<Rightarrow> resource \<Rightarrow> test \<Rightarrow> test \<times> unit result" where
  "start_receiver env r t =
     (case start_err env r of
        Some err \<Rightarrow> require_fails err t
      | None \<Rightarrow> (emit (Acquired r) t, Inr ()))"

definition release :: "'k rig \<Rightarrow> resource \<Rightarrow> test \<Rightarrow> test" where
  "release env r t = assert_no_error (release_err env r) (emit (Released r) t)"

text \<open>
  \<^verbatim>\<open>StartUpSinks\<close>: the sinks of the three signals one after the other, each with ports of its own.
  It registers no clean-up: the receivers started so far are what the returned function stops.
\<close>

record 'k sink_config =
  sc_ports :: "ReceiverPorts option"
  sc_consumer :: 'k

fun start_up :: "'k rig \<Rightarrow> signal \<Rightarrow> 'k sink_config list \<Rightarrow> test \<Rightarrow> resource list \<Rightarrow> test \<times> resource list result" where
  "start_up env sig [] t shutDownFuncs = (t, Inr shutDownFuncs)"
| "start_up env sig (sink # sinks) t shutDownFuncs =
     (case setupReceiverPorts env (default_config env) (sc_ports sink) of
        Inl err \<Rightarrow> require_fails err t
      | Inr cfg \<Rightarrow>
          (case create_receiver env sig cfg (sc_consumer sink) t of
             (t, Inl err) \<Rightarrow> (t, Inl err)
           | (t, Inr r) \<Rightarrow>
               (case start_receiver env r t of
                  (t, Inl err) \<Rightarrow> (t, Inl err)
                | (t, Inr _) \<Rightarrow> start_up env sig sinks t (shutDownFuncs @ [r]))))"

record 'k ReceiverSinks =
  rs_Metrics :: "'k sink_config list"
  rs_Traces :: "'k sink_config list"
  rs_Logs :: "'k sink_config list"

definition StartUpSinks :: "'k rig \<Rightarrow> 'k ReceiverSinks \<Rightarrow> test \<Rightarrow> test \<times> resource list result" where
  "StartUpSinks env sinks t =
     (case start_up env Metrics (rs_Metrics sinks) t [] of
        (t, Inl err) \<Rightarrow> (t, Inl err)
      | (t, Inr fs) \<Rightarrow>
          (case start_up env Traces (rs_Traces sinks) t fs of
             (t, Inl err) \<Rightarrow> (t, Inl err)
           | (t, Inr fs) \<Rightarrow> start_up env Logs (rs_Logs sinks) t fs))"

text \<open>The function it returns.\<close>

definition shut_down :: "'k rig \<Rightarrow> resource list \<Rightarrow> test \<Rightarrow> test" where
  "shut_down env fs t = foldl (\<lambda>t r. release env r t) t fs"

text \<open>
  \<^verbatim>\<open>StartReceiver\<close>: one configuration for all given consumers. All receivers are created before
  the first one is started; every started one is stopped when the test ends.
\<close>

record 'k consumers =
  c_Traces :: "'k option"
  c_Metrics :: "'k option"
  c_Logs :: "'k option"

definition create_signal ::
  "'k rig \<Rightarrow> signal \<Rightarrow> otlp_config \<Rightarrow> 'k option \<Rightarrow> test \<Rightarrow> resource list \<Rightarrow> test \<times> resource list result" where
  "create_signal env sig cfg c t receivers =
     (case c of
        None \<Rightarrow> (t, Inr receivers)
      | Some k \<Rightarrow>
          (case create_receiver env sig cfg k t of
             (t, Inl err) \<Rightarrow> (t, Inl err)
           | (t, Inr r) \<Rightarrow> (t, Inr (receivers @ [r]))))"

fun start_all :: "'k rig \<Rightarrow> resource list \<Rightarrow> test \<Rightarrow> test \<times> unit result" where
  "start_all env [] t = (t, Inr ())"
| "start_all env (r # rs) t =
     (case start_receiver env r t of
        (t, Inl err) \<Rightarrow> (t, Inl err)
      | (t, Inr _) \<Rightarrow> start_all env rs (t_cleanup r t))"

definition StartReceiver :: "'k rig \<Rightarrow> 'k consumers \<Rightarrow> test \<Rightarrow> test \<times> ReceiverPorts result" where
  "StartReceiver env c t =
     (case availablePorts env t of
        (t, Inl err) \<Rightarrow> (t, Inl err)
      | (t, Inr ports) \<Rightarrow>
          (case setupReceiverPorts env (default_config env) (Some ports) of
             Inl err \<Rightarrow> require_fails err t
           | Inr cfg \<Rightarrow>
               (case create_signal env Traces cfg (c_Traces c) t [] of
                  (t, Inl err) \<Rightarrow> (t, Inl err)
                | (t, Inr rs) \<Rightarrow>
                    (case create_signal env Metrics cfg (c_Metrics c) t rs of
                       (t, Inl err) \<Rightarrow> (t, Inl err)
                     | (t, Inr rs) \<Rightarrow>
                         (case create_signal env Logs cfg (c_Logs c) t rs of
                            (t, Inl err) \<Rightarrow> (t, Inl err)
                          | (t, Inr rs) \<Rightarrow>
                              (case start_all env rs t of
                                 (t, Inl err) \<Rightarrow> (t, Inl err)
                               | (t, Inr _) \<Rightarrow> (t, Inr ports)))))))"

definition StartTracesSink :: "'k rig \<Rightarrow> 'k \<Rightarrow> test \<Rightarrow> test \<times> ReceiverPorts result" where
  "StartTracesSink env sink = StartReceiver env \<lparr>c_Traces = Some sink, c_Metrics = None, c_Logs = None\<rparr>"

definition StartMetricsSink :: "'k rig \<Rightarrow> 'k \<Rightarrow> test \<Rightarrow> test \<times> ReceiverPorts result" where
  "StartMetricsSink env sink = StartReceiver env \<lparr>c_Traces = None, c_Metrics = Some sink, c_Logs = None\<rparr>"

definition StartLogsSink :: "'k rig \<Rightarrow> 'k \<Rightarrow> test \<Rightarrow> test \<times> ReceiverPorts result" where
  "StartLogsSink env sink = StartReceiver env \<lparr>c_Traces = None, c_Metrics = None, c_Logs = Some sink\<rparr>"

definition StartSinks :: "'k rig \<Rightarrow> 'k \<Rightarrow> 'k \<Rightarrow> 'k \<Rightarrow> test \<Rightarrow> test \<times> ReceiverPorts result" where
  "StartSinks env tr me lo = StartReceiver env \<lparr>c_Traces = Some tr, c_Metrics = Some me, c_Logs = Some lo\<rparr>"

section \<open>The Collector process\<close>

text \<open>
  \<^verbatim>\<open>StartCollector\<close> and its clean-up functions: the configuration file is removed after the process
  was stopped, and the log is printed when the test failed. Stopping a process that was stopped
  does nothing. The entries of a map are given in the order in which the runtime visits them.
\<close>

definition SubpackageCollectorExecPath :: string where
  "SubpackageCollectorExecPath = ''../../../../bin/dynatrace-otel-collector''"

record CollectorParams =
  p_Name :: string
  p_Config :: string
  p_ReadyPort :: int
  p_ExecPath :: string
  p_Args :: "string list"
  p_Env :: "(string \<times> string) list"

definition join_host_port :: "string \<Rightarrow> string \<Rightarrow> string" where
  "join_host_port host port =
     (if CHR '':'' \<in> set host then ''['' @ host @ '']:'' @ port else host @ '':'' @ port)"

definition WaitForListener :: "'k rig \<Rightarrow> string \<Rightarrow> test \<Rightarrow> test \<times> unit result" where
  "WaitForListener env addr t =
     (if eventually (ticks env) (\<lambda>i. dial_tcp env addr i = None) then (t, Inr ())
      else require_fails (Errorf ''nothing started listening on %s'' [addr]) t)"

definition WaitForHealthCheck :: "'k rig \<Rightarrow> int \<Rightarrow> test \<Rightarrow> test \<times> unit result" where
  "WaitForHealthCheck env port t =
     (let url = ''http://'' @ join_host_port ''localhost'' (itoa port) @ ''/''
      in if eventually (ticks env)
              (\<lambda>i. case http_get env url i of Inl err \<Rightarrow> False | Inr status \<Rightarrow> status = 200) then (t, Inr ())
         else require_fails (Errorf ''health check on %s did not become ready'' [url]) t)"

definition stop_process :: "'k rig \<Rightarrow> resource \<Rightarrow> test \<Rightarrow> test \<times> go_error option" where
  "stop_process env r t =
     (if Released r \<in> set (t_log t) then (t, None) else (emit (Released r) t, release_err env r))"

definition Stop :: "'k rig \<Rightarrow> resource \<Rightarrow> test \<Rightarrow> test \<times> unit result" where
  "Stop env r t =
     (case stop_process env r t of (t, Some err) \<Rightarrow> require_fails err t | (t, None) \<Rightarrow> (t, Inr ()))"

definition collector_cleanup :: "'k rig \<Rightarrow> nat \<Rightarrow> command \<Rightarrow> test \<Rightarrow> test" where
  "collector_cleanup env n cmd t =
     (case stop_process env (Process n cmd) t of
        (t, err) \<Rightarrow>
          (let t = assert_no_error err t
           in if t_failed t
              then (case log_file env n of
                      Inr b \<Rightarrow> emit (Printed ''%s log:%s'' [cmd_name cmd, b]) t
                    | Inl _ \<Rightarrow> t)
              else t))"

definition StartCollector :: "'k rig \<Rightarrow> CollectorParams \<Rightarrow> test \<Rightarrow> test \<times> resource result" where
  "StartCollector env p t =
     (let execPath = (if p_ExecPath p = [] then SubpackageCollectorExecPath else p_ExecPath p);
          (t, n) = fresh_id t
      in (case prepare_err env (p_Config p) of
            Some err \<Rightarrow> require_fails err t
          | None \<Rightarrow>
              let t = emit (Acquired (ConfigFile n (p_Config p))) t;
                  t = t_cleanup (ConfigFile n (p_Config p)) t;
                  (t, m) = fresh_id t;
                  col = Process m \<lparr>cmd_name = p_Name p, cmd_exec = execPath, cmd_args = p_Args p, cmd_env = p_Env p\<rparr>
              in (case start_err env col of
                    Some err \<Rightarrow> require_fails err t
                  | None \<Rightarrow>
                      let t = emit (Acquired col) t;
                          t = t_cleanup col t
                      in (case WaitForListener env (join_host_port ''localhost'' (itoa (p_ReadyPort p))) t of
                            (t, Inl err) \<Rightarrow> (t, Inl err)
                          | (t, Inr _) \<Rightarrow> (t, Inr col)))))"

section \<open>Clients\<close>

definition newGRPCConn :: "'k rig \<Rightarrow> int \<Rightarrow> test \<Rightarrow> test \<times> resource result" where
  "newGRPCConn env port t =
     (let addr = join_host_port ''localhost'' (itoa port); (t, n) = fresh_id t
      in (case dial_err env addr of
            Some err \<Rightarrow> require_fails err t
          | None \<Rightarrow> (t_cleanup (Conn n addr) (emit (Acquired (Conn n addr)) t), Inr (Conn n addr))))"

text \<open>A client of a signal over a connection.\<close>

definition new_client :: "'k rig \<Rightarrow> signal \<Rightarrow> int \<Rightarrow> test \<Rightarrow> test \<times> (signal \<times> resource) result" where
  "new_client env sig port t =
     (case newGRPCConn env port t of
        (t, Inl err) \<Rightarrow> (t, Inl err)
      | (t, Inr conn) \<Rightarrow> (t, Inr (sig, conn)))"

definition NewTracesClient :: "'k rig \<Rightarrow> int \<Rightarrow> test \<Rightarrow> test \<times> (signal \<times> resource) result" where
  "NewTracesClient env = new_client env Traces"

definition NewMetricsClient :: "'k rig \<Rightarrow> int \<Rightarrow> test \<Rightarrow> test \<times> (signal \<times> resource) result" where
  "NewMetricsClient env = new_client env Metrics"

definition NewLogsClient :: "'k rig \<Rightarrow> int \<Rightarrow> test \<Rightarrow> test \<times> (signal \<times> resource) result" where
  "NewLogsClient env = new_client env Logs"

definition exportHTTP :: "'k rig \<Rightarrow> int \<Rightarrow> string \<Rightarrow> string result \<Rightarrow> test \<Rightarrow> test \<times> unit result" where
  "exportHTTP env port path body t =
     (case body of
        Inl err \<Rightarrow> require_fails err t
      | Inr b \<Rightarrow>
          (let url = ''http://'' @ join_host_port ''localhost'' (itoa port) @ path
           in (case http_post env url ''application/x-protobuf'' b of
                 Inl err \<Rightarrow> require_fails err t
               | Inr code \<Rightarrow>
                   if code = 200 then (t, Inr ())
                   else require_fails (Errorf ''unexpected response from %s'' [url]) t)))"

text \<open>The request of each signal is encoded by the telemetry library, a parameter.\<close>

definition ExportTracesHTTP :: "'k rig \<Rightarrow> ('b \<Rightarrow> string result) \<Rightarrow> int \<Rightarrow> 'b \<Rightarrow> test \<Rightarrow> test \<times> unit result" where
  "ExportTracesHTTP env marshal port td = exportHTTP env port ''/v1/traces'' (marshal td)"

definition ExportMetricsHTTP :: "'k rig \<Rightarrow> ('b \<Rightarrow> string result) \<Rightarrow> int \<Rightarrow> 'b \<Rightarrow> test \<Rightarrow> test \<times> unit result" where
  "ExportMetricsHTTP env marshal port md = exportHTTP env port ''/v1/metrics'' (marshal md)"

definition ExportLogsHTTP :: "'k rig \<Rightarrow> ('b \<Rightarrow> string result) \<Rightarrow> int \<Rightarrow> 'b \<Rightarrow> test \<Rightarrow> test \<times> unit result" where
  "ExportLogsHTTP env marshal port ld = exportHTTP env port ''/v1/logs'' (marshal ld)"

section \<open>The end of a test\<close>

text \<open>The clean-up functions run from the last one registered to the first.\<close>

fun cleanup_one :: "'k rig \<Rightarrow> resource \<Rightarrow> test \<Rightarrow> test" where
  "cleanup_one env (Receiver n sig) t = release env (Receiver n sig) t"
| "cleanup_one env (ConfigFile n cfg) t = emit (Released (ConfigFile n cfg)) t"
| "cleanup_one env (Process n cmd) t = collector_cleanup env n cmd t"
| "cleanup_one env (Conn n addr) t = emit (Released (Conn n addr)) t"

fun run_cleanups :: "'k rig \<Rightarrow> resource list \<Rightarrow> test \<Rightarrow> test" where
  "run_cleanups env [] t = t"
| "run_cleanups env (r # rs) t = run_cleanups env rs (cleanup_one env r t)"

definition finish :: "'k rig \<Rightarrow> test \<Rightarrow> test" where
  "finish env t = run_cleanups env (t_cleanups t) (t\<lparr>t_cleanups := []\<rparr>)"

section \<open>What a test owes\<close>

fun acquired :: "event list \<Rightarrow> resource list" where
  "acquired [] = []"
| "acquired (Acquired r # es) = r # acquired es"
| "acquired (_ # es) = acquired es"

fun released :: "event list \<Rightarrow> resource list" where
  "released [] = []"
| "released (Released r # es) = r # released es"
| "released (_ # es) = released es"

fun rid :: "resource \<Rightarrow> nat" where
  "rid (Receiver n sig) = n"
| "rid (ConfigFile n cfg) = n"
| "rid (Process n cmd) = n"
| "rid (Conn n addr) = n"

fun is_process :: "resource \<Rightarrow> bool" where
  "is_process (Process n cmd) = True"
| "is_process _ = False"

abbreviation acq :: "test \<Rightarrow> resource list" where "acq t \<equiv> acquired (t_log t)"
abbreviation rel :: "test \<Rightarrow> resource list" where "rel t \<equiv> released (t_log t)"

lemma acquired_append [simp]: "acquired (es @ fs) = acquired es @ acquired fs"
  by (induction es rule: acquired.induct) auto

lemma released_append [simp]: "released (es @ fs) = released es @ released fs"
  by (induction es rule: released.induct) auto

lemma mem_released [simp]: "Released r \<in> set es \<longleftrightarrow> r \<in> set (released es)"
  by (induction es rule: released.induct) auto

lemmas test_ops = emit_def fresh_id_def t_cleanup_def t_error_def require_fails_def

text \<open>
  The clean-up functions of a test are those of what it acquired, the last one first, and no
  resource was acquired twice.
\<close>

definition kept :: "test \<Rightarrow> bool" where
  "kept t \<longleftrightarrow> t_cleanups t = rev (acq t) \<and> distinct (acq t) \<and> list_all (\<lambda>r. rid r < t_next t) (acq t)"

text \<open>Receivers that were created and not started.\<close>

definition ready :: "resource list \<Rightarrow> test \<Rightarrow> bool" where
  "ready rs t \<longleftrightarrow> kept t \<and> distinct rs \<and> list_all (\<lambda>r. rid r < t_next t \<and> r \<notin> set (acq t)) rs"

lemma kept_error [simp]: "kept (t_error err t) = kept t" "rel (t_error err t) = rel t"
  by (simp_all add: kept_def t_error_def)

lemma kept_fresh: "kept t \<Longrightarrow> kept (t\<lparr>t_next := Suc (t_next t)\<rparr>)"
  by (auto simp: kept_def list_all_iff less_Suc_eq)

lemma kept_acquire:
  "kept t \<Longrightarrow> rid r < t_next t \<Longrightarrow> r \<notin> set (acq t) \<Longrightarrow> kept (t_cleanup r (emit (Acquired r) t))"
  by (auto simp: kept_def test_ops)

lemma kept_new: "kept t \<Longrightarrow> rid r = t_next t \<Longrightarrow> r \<notin> set (acq t)"
  by (auto simp: kept_def list_all_iff)

lemma start_all_kept:
  "ready rs t \<Longrightarrow> kept (fst (start_all env rs t)) \<and> rel (fst (start_all env rs t)) = rel t"
proof (induction rs arbitrary: t)
  case (Cons r rs)
  show ?case
  proof (cases "start_err env r")
    case None
    have "kept (t_cleanup r (emit (Acquired r) t))"
      using Cons.prems by (intro kept_acquire) (auto simp: ready_def)
    then have "ready rs (t_cleanup r (emit (Acquired r) t))"
      using Cons.prems by (auto simp: ready_def list_all_iff test_ops)
    with Cons.IH None show ?thesis by (auto simp: start_receiver_def test_ops)
  next
    case (Some err)
    with Cons.prems show ?thesis
      by (simp add: start_receiver_def require_fails_def ready_def)
  qed
qed (simp add: ready_def)

lemma create_signal_ready:
  "ready rs t \<Longrightarrow> create_signal env sig cfg c t rs = (t', r) \<Longrightarrow>
   kept t' \<and> rel t' = rel t \<and> (case r of Inl _ \<Rightarrow> True | Inr rs' \<Rightarrow> ready rs' t')"
proof (cases c)
  case (Some k)
  assume r: "ready rs t" and c: "create_signal env sig cfg c t rs = (t', r)"
  have new: "Receiver (t_next t) sig \<notin> set (acq t)" "Receiver (t_next t) sig \<notin> set rs"
    using r kept_new [of t "Receiver (t_next t) sig"] by (auto simp: ready_def list_all_iff)
  have "kept (t\<lparr>t_next := Suc (t_next t)\<rparr>)" using r kept_fresh by (simp add: ready_def)
  with r c Some new show ?thesis
    by (auto simp: create_signal_def create_receiver_def fresh_id_def require_fails_def ready_def
        list_all_iff less_Suc_eq t_error_def kept_def split: option.splits)
qed (auto simp: create_signal_def ready_def)

section \<open>Operations that start something\<close>

text \<open>
  The contract of an operation of a test: it keeps the account above. An operation that starts
  something releases nothing. Whatever the outcome of the operation, all that was acquired is given
  back when the test ends; if nothing was released before, it is in the reverse order.
\<close>

locale test_op =
  fixes env :: "'k rig" and step :: "test \<Rightarrow> test \<times> 'a result"
  assumes step_kept: "kept t \<Longrightarrow> kept (fst (step t))"

locale starting_op = test_op +
  assumes step_rel: "kept t \<Longrightarrow> rel (fst (step t)) = rel t"

definition owed :: "test \<Rightarrow> resource list \<Rightarrow> resource list" where
  "owed t rs = filter (\<lambda>r. \<not> (is_process r \<and> r \<in> set (rel t))) rs"

lemma collector_cleanup_logs:
  "acq (collector_cleanup env n cmd t) = acq t"
  "rel (collector_cleanup env n cmd t) = rel t @ owed t [Process n cmd]"
  by (auto simp: collector_cleanup_def stop_process_def assert_no_error_def test_ops owed_def Let_def
      split: option.splits sum.splits)

lemma cleanup_one_logs:
  "acq (cleanup_one env r t) = acq t" "rel (cleanup_one env r t) = rel t @ owed t [r]"
  by (cases r; auto simp: release_def assert_no_error_def test_ops owed_def collector_cleanup_logs
      split: option.splits)+

lemma run_cleanups_logs:
  "acq (run_cleanups env rs t) = acq t"
  "distinct rs \<Longrightarrow> rel (run_cleanups env rs t) = rel t @ owed t rs"
proof (induction rs arbitrary: t)
  case (Cons r rs)
  { case 1 show ?case using Cons.IH(1) by (simp add: cleanup_one_logs) }
  { case 2
    then have "owed (cleanup_one env r t) rs = owed t rs"
      by (auto simp: owed_def cleanup_one_logs intro!: filter_cong)
    with 2 Cons.IH(2) show ?case by (simp add: cleanup_one_logs) (simp add: owed_def) }
qed (simp_all add: owed_def)

lemma finish_gives_back:
  assumes "kept t"
  shows "set (acq (finish env t)) \<subseteq> set (rel (finish env t))"
    and "rel t = [] \<Longrightarrow> rel (finish env t) = rev (acq (finish env t))"
proof -
  have d: "distinct (t_cleanups t)" "t_cleanups t = rev (acq t)"
    using assms by (simp_all add: kept_def)
  have f: "acq (finish env t) = acq t" "rel (finish env t) = rel t @ owed t (t_cleanups t)"
    using d(1) by (simp_all add: finish_def run_cleanups_logs) (simp add: owed_def)
  show "set (acq (finish env t)) \<subseteq> set (rel (finish env t))"
    unfolding f using d(2) by (auto simp: owed_def)
  show "rel (finish env t) = rev (acq (finish env t))" if "rel t = []"
    unfolding f using d(2) that by (simp add: owed_def)
qed

context test_op
begin

lemma gives_back:
  "kept t \<Longrightarrow> set (acq (finish env (fst (step t)))) \<subseteq> set (rel (finish env (fst (step t))))"
  by (rule finish_gives_back) (rule step_kept)

end

context starting_op
begin

lemma gives_back_in_order:
  "kept t \<Longrightarrow> rel t = [] \<Longrightarrow>
   rel (finish env (fst (step t))) = rev (acq (finish env (fst (step t))))"
  by (rule finish_gives_back) (simp_all add: step_kept step_rel)

end

section \<open>The operations keep the account\<close>

lemma availablePort_kept:
  "kept t \<Longrightarrow> availablePort env t = (t', r) \<Longrightarrow> kept t' \<and> rel t' = rel t"
  by (auto simp: availablePort_def fresh_id_def require_fails_def kept_fresh split: sum.splits)

lemma availablePorts_kept:
  assumes "kept t" and "availablePorts env t = (t', r)"
  shows "kept t' \<and> rel t' = rel t"
proof -
  obtain t1 g where g: "availablePort env t = (t1, g)" by (cases "availablePort env t")
  obtain t2 h where h: "availablePort env t1 = (t2, h)" by (cases "availablePort env t1")
  from availablePort_kept [OF assms(1) g] availablePort_kept [OF _ h] assms(2) g h show ?thesis
    by (auto simp: availablePorts_def split: sum.splits)
qed

lemma ready_Nil: "kept t \<Longrightarrow> ready [] t"
  by (simp add: ready_def)

lemma StartReceiver_kept:
  assumes "kept t"
  shows "kept (fst (StartReceiver env c t)) \<and> rel (fst (StartReceiver env c t)) = rel t"
proof -
  obtain t1 p where p: "availablePorts env t = (t1, p)" by (cases "availablePorts env t")
  note k1 = availablePorts_kept [OF assms p]
  show ?thesis
  proof (cases p)
    case (Inl err)
    with p k1 show ?thesis by (simp add: StartReceiver_def)
  next
    case ports: (Inr ports)
    show ?thesis
    proof (cases "setupReceiverPorts env (default_config env) (Some ports)")
      case (Inl err)
      with p ports k1 show ?thesis by (simp add: StartReceiver_def require_fails_def)
    next
      case cfg: (Inr cfg)
      obtain t2 a where a: "create_signal env Traces cfg (c_Traces c) t1 [] = (t2, a)"
        by (cases "create_signal env Traces cfg (c_Traces c) t1 []")
      have k2: "kept t2 \<and> rel t2 = rel t" "\<And>rs. a = Inr rs \<Longrightarrow> ready rs t2"
        using create_signal_ready [OF ready_Nil a] k1 by auto
      show ?thesis
      proof (cases a)
        case (Inl err)
        with p ports cfg a k2 show ?thesis by (simp add: StartReceiver_def)
      next
        case ra: (Inr rs)
        obtain t3 b where b: "create_signal env Metrics cfg (c_Metrics c) t2 rs = (t3, b)"
          by (cases "create_signal env Metrics cfg (c_Metrics c) t2 rs")
        have k3: "kept t3 \<and> rel t3 = rel t" "\<And>rs. b = Inr rs \<Longrightarrow> ready rs t3"
          using create_signal_ready [OF k2(2) [OF ra] b] k2(1) by auto
        show ?thesis
        proof (cases b)
          case (Inl err)
          with p ports cfg a ra b k3 show ?thesis by (simp add: StartReceiver_def)
        next
          case rb: (Inr rs')
          obtain t4 d where d: "create_signal env Logs cfg (c_Logs c) t3 rs' = (t4, d)"
            by (cases "create_signal env Logs cfg (c_Logs c) t3 rs'")
          have k4: "kept t4 \<and> rel t4 = rel t" "\<And>rs. d = Inr rs \<Longrightarrow> ready rs t4"
            using create_signal_ready [OF k3(2) [OF rb] d] k3(1) by auto
          show ?thesis
          proof (cases d)
            case (Inl err)
            with p ports cfg a ra b rb d k4 show ?thesis by (simp add: StartReceiver_def)
          next
            case rd: (Inr rs'')
            have "fst (StartReceiver env c t) = fst (start_all env rs'' t4)"
              using p ports cfg a ra b rb d rd
              by (simp add: StartReceiver_def case_prod_unfold split: sum.split)
            with start_all_kept [OF k4(2) [OF rd], of env] k4(1) show ?thesis by simp
          qed
        qed
      qed
    qed
  qed
qed

lemma newGRPCConn_kept:
  assumes "kept t"
  shows "kept (fst (newGRPCConn env port t)) \<and> rel (fst (newGRPCConn env port t)) = rel t"
proof -
  let ?t = "t\<lparr>t_next := Suc (t_next t)\<rparr>" and ?c = "\<lambda>addr. Conn (t_next t) addr"
  have "kept (t_cleanup (?c addr) (emit (Acquired (?c addr)) ?t))" for addr
    using kept_acquire [OF kept_fresh [OF assms], of "?c addr"] kept_new [OF assms, of "?c addr"] by simp
  with kept_fresh [OF assms] show ?thesis
    by (simp add: newGRPCConn_def Let_def fresh_id_def require_fails_def split: option.splits)
      (simp add: test_ops)
qed

lemma StartCollector_kept:
  assumes "kept t"
  shows "kept (fst (StartCollector env p t)) \<and> rel (fst (StartCollector env p t)) = rel t"
proof -
  define n where "n = t_next t"
  define t1 where "t1 = t\<lparr>t_next := Suc n\<rparr>"
  define cf where "cf = ConfigFile n (p_Config p)"
  define t2 where "t2 = t_cleanup cf (emit (Acquired cf) t1)"
  define t3 where "t3 = t2\<lparr>t_next := Suc (t_next t2)\<rparr>"
  define exec where "exec = (if p_ExecPath p = [] then SubpackageCollectorExecPath else p_ExecPath p)"
  define col where "col = Process (t_next t2)
      \<lparr>cmd_name = p_Name p, cmd_exec = exec, cmd_args = p_Args p, cmd_env = p_Env p\<rparr>"
  define t4 where "t4 = t_cleanup col (emit (Acquired col) t3)"
  have k1: "kept t1" using kept_fresh [OF assms] by (simp add: t1_def n_def)
  have k2: "kept t2" unfolding t2_def
    by (rule kept_acquire [OF k1]) (use kept_new [OF assms, of cf] in \<open>simp_all add: cf_def t1_def n_def\<close>)
  have k3: "kept t3" using kept_fresh [OF k2] by (simp add: t3_def)
  have k4: "kept t4" unfolding t4_def
    by (rule kept_acquire [OF k3]) (use kept_new [OF k2, of col] in \<open>simp_all add: col_def t3_def\<close>)
  have r: "rel t1 = rel t" "rel t2 = rel t" "rel t3 = rel t" "rel t4 = rel t"
    by (simp_all add: t1_def t2_def t3_def t4_def test_ops)
  have eq: "StartCollector env p t =
      (case prepare_err env (p_Config p) of
         Some err \<Rightarrow> require_fails err t1
       | None \<Rightarrow>
           (case start_err env col of
              Some err \<Rightarrow> require_fails err t3
            | None \<Rightarrow>
                (case WaitForListener env (join_host_port ''localhost'' (itoa (p_ReadyPort p))) t4 of
                   (t, Inl err) \<Rightarrow> (t, Inl err)
                 | (t, Inr _) \<Rightarrow> (t, Inr col))))"
    unfolding StartCollector_def exec_def [symmetric]
    by (cases "prepare_err env (p_Config p)"; cases "start_err env col";
        simp add: Let_def fresh_id_def t1_def t2_def t3_def t4_def cf_def col_def n_def)
  show ?thesis unfolding eq
    using k1 k3 k4 r
    by (auto simp: require_fails_def WaitForListener_def split: option.splits)
qed

lemma Stop_kept: "kept t \<Longrightarrow> kept (fst (Stop env r t))"
  by (auto simp: Stop_def stop_process_def require_fails_def split: option.splits)
    (auto simp: kept_def test_ops)

interpretation receiver_op: starting_op env "StartReceiver env c" for env c
  by unfold_locales (simp_all add: StartReceiver_kept)

interpretation collector_op: starting_op env "StartCollector env p" for env p
  by unfold_locales (simp_all add: StartCollector_kept)

interpretation conn_op: starting_op env "newGRPCConn env port" for env port
  by unfold_locales (simp_all add: newGRPCConn_kept)

interpretation stop_op: test_op env "Stop env r" for env r
  by unfold_locales (simp add: Stop_kept)

section \<open>Sinks without clean-up\<close>

fun receiver_signal :: "resource \<Rightarrow> signal option" where
  "receiver_signal (Receiver n sig) = Some sig"
| "receiver_signal _ = None"

lemma start_up_log:
  "start_up env sig sinks t fs = (t', r) \<Longrightarrow>
   t_cleanups t' = t_cleanups t \<and> rel t' = rel t \<and>
   (\<exists>new. acq t' = acq t @ new \<and>
      (case r of Inl err \<Rightarrow> True
               | Inr fs' \<Rightarrow> fs' = fs @ new \<and> map receiver_signal new = replicate (length sinks) (Some sig)))"
proof (induction sinks arbitrary: t fs)
  case (Cons s sinks)
  note step = Cons.prems
  show ?case
  proof (cases "setupReceiverPorts env (default_config env) (sc_ports s)")
    case (Inl err)
    with step show ?thesis by (auto simp: require_fails_def t_error_def)
  next
    case cfg: (Inr cfg)
    show ?thesis
    proof (cases "create_err env sig cfg (sc_consumer s)")
      case (Some err)
      with step cfg show ?thesis
        by (auto simp: create_receiver_def fresh_id_def require_fails_def t_error_def)
    next
      case none: None
      let ?r = "Receiver (t_next t) sig" and ?t = "t\<lparr>t_next := Suc (t_next t)\<rparr>"
      show ?thesis
      proof (cases "start_err env ?r")
        case (Some err)
        with step cfg none show ?thesis
          by (auto simp: create_receiver_def fresh_id_def start_receiver_def require_fails_def t_error_def)
      next
        case None
        with step cfg none
        have "start_up env sig sinks (emit (Acquired ?r) ?t) (fs @ [?r]) = (t', r)"
          by (simp add: create_receiver_def fresh_id_def start_receiver_def)
        from Cons.IH [OF this] show ?thesis by (auto simp: emit_def split: sum.splits)
      qed
    qed
  qed
qed auto

lemma shut_down_rel: "rel (shut_down env fs t) = rel t @ fs"
  by (induction fs arbitrary: t)
    (auto simp: shut_down_def release_def assert_no_error_def test_ops split: option.splits)

text \<open>When a sink fails, nothing gives back the sinks that were started before it.\<close>

lemma StartUpSinks_log:
  assumes "StartUpSinks env sinks t = (t', r)"
  shows "t_cleanups t' = t_cleanups t \<and> rel t' = rel t \<and>
    (\<forall>fs. r = Inr fs \<longrightarrow> acq t' = acq t @ fs \<and>
       map receiver_signal fs = replicate (length (rs_Metrics sinks)) (Some Metrics) @
         replicate (length (rs_Traces sinks)) (Some Traces) @ replicate (length (rs_Logs sinks)) (Some Logs))"
proof -
  obtain t1 a where a: "start_up env Metrics (rs_Metrics sinks) t [] = (t1, a)" by fastforce
  note l1 = start_up_log [OF a]
  show ?thesis
  proof (cases a)
    case (Inl err)
    with assms a l1 show ?thesis by (auto simp: StartUpSinks_def)
  next
    case ra: (Inr fs)
    obtain t2 b where b: "start_up env Traces (rs_Traces sinks) t1 fs = (t2, b)" by fastforce
    note l2 = start_up_log [OF b]
    show ?thesis
    proof (cases b)
      case (Inl err)
      with assms a ra b l1 l2 show ?thesis by (auto simp: StartUpSinks_def)
    next
      case rb: (Inr fs')
      have "start_up env Logs (rs_Logs sinks) t2 fs' = (t', r)"
        using assms a ra b rb by (simp add: StartUpSinks_def)
      from start_up_log [OF this] l1 l2 ra rb show ?thesis by auto
    qed
  qed
qed

section \<open>Properties\<close>

definition new_test :: test where
  "new_test = \<lparr>t_next = 0, t_log = [], t_cleanups = [], t_errors = []\<rparr>"

lemma new_test_kept: "kept new_test" "rel new_test = []"
  by (simp_all add: kept_def new_test_def)

text \<open>
  C35: a receiver for several signals leaves nothing behind: when the test ends, the receivers that were
  started are stopped in the reverse order, all of them and nothing else, whether \<^verbatim>\<open>StartReceiver\<close>
  succeeded or stopped at a port, a receiver that could not be created or one that did not start.
\<close>

theorem StartReceiver_gives_back:
  assumes "kept t" and "rel t = []"
  shows "rel (finish env (fst (StartReceiver env c t))) = rev (acq (finish env (fst (StartReceiver env c t))))"
  by (rule receiver_op.gives_back_in_order [OF assms])

definition failing_rig :: "unit rig" where
  "failing_rig =
     \<lparr>default_config = \<lparr>cfg_grpc = None, cfg_http = None\<rparr>, unmarshal_empty = (\<lambda>_. Inr (Some ''localhost:4317'')),
      create_err = (\<lambda>_ _ _. None),
      start_err = (\<lambda>r. if receiver_signal r = Some Logs then Some err_range else None),
      release_err = (\<lambda>_. None), free_port = (\<lambda>n. Inr (50000 + int n)), prepare_err = (\<lambda>_. None),
      dial_err = (\<lambda>_. None), http_post = (\<lambda>_ _ _. Inr 200), dial_tcp = (\<lambda>_ _. Some err_range), http_get = (\<lambda>_ _. Inl err_range), ticks = 150,
      log_file = (\<lambda>_. Inr ''log'')\<rparr>"

theorem StartReceiver_gives_back_witness:
  "rel (finish failing_rig (fst (StartReceiver failing_rig
      \<lparr>c_Traces = Some (), c_Metrics = None, c_Logs = Some ()\<rparr> new_test))) =
   rev (acq (finish failing_rig (fst (StartReceiver failing_rig
      \<lparr>c_Traces = Some (), c_Metrics = None, c_Logs = Some ()\<rparr> new_test))))"
  by (rule StartReceiver_gives_back [OF new_test_kept])

lemma failing_rig_starts_one:
  "acq (fst (StartReceiver failing_rig \<lparr>c_Traces = Some (), c_Metrics = None, c_Logs = Some ()\<rparr> new_test)) =
   [Receiver 2 Traces]"
  by code_simp

text \<open>
  A Collector started for a test leaves nothing behind: the process is stopped and then its
  configuration file removed, also when it could not be started or never listened on its port.
\<close>

theorem StartCollector_gives_back:
  assumes "kept t" and "rel t = []"
  shows "rel (finish env (fst (StartCollector env p t))) = rev (acq (finish env (fst (StartCollector env p t))))"
  by (rule collector_op.gives_back_in_order [OF assms])

theorem StartCollector_gives_back_witness:
  "rel (finish failing_rig (fst (StartCollector failing_rig
      \<lparr>p_Name = ''c'', p_Config = [], p_ReadyPort = 4317, p_ExecPath = [], p_Args = [], p_Env = []\<rparr> new_test))) =
   rev (acq (finish failing_rig (fst (StartCollector failing_rig
      \<lparr>p_Name = ''c'', p_Config = [], p_ReadyPort = 4317, p_ExecPath = [], p_Args = [], p_Env = []\<rparr> new_test))))"
  by (rule StartCollector_gives_back [OF new_test_kept])

text \<open>Stopping the process by hand before the end of the test does not stop it twice.\<close>

lemma Stop_then_finish:
  "kept t \<Longrightarrow> set (acq (finish env (fst (Stop env r (fst (StartCollector env p t)))))) \<subseteq>
     set (rel (finish env (fst (Stop env r (fst (StartCollector env p t))))))"
  using stop_op.gives_back [OF collector_op.step_kept] .

text \<open>
  \<^verbatim>\<open>StartUpSinks\<close> starts one receiver per sink, the metrics first, then the traces and the logs; the
  function it returns stops exactly these in the order they were started. When it fails, the end of
  the test gives back only what had been registered before: the receivers started so far keep running.
\<close>

theorem StartUpSinks_outcome:
  assumes "kept t" and "rel t = []" and "StartUpSinks env sinks t = (t', r)"
  shows "case r of
           Inl err \<Rightarrow> rel (finish env t') = rev (acq t)
         | Inr fs \<Rightarrow> acq t' = acq t @ fs \<and> rel (shut_down env fs t') = fs \<and>
             map receiver_signal fs = replicate (length (rs_Metrics sinks)) (Some Metrics) @
               replicate (length (rs_Traces sinks)) (Some Traces) @ replicate (length (rs_Logs sinks)) (Some Logs)"
proof (cases r)
  case (Inl err)
  have c: "t_cleanups t' = rev (acq t)" "rel t' = []" "distinct (rev (acq t))"
    using StartUpSinks_log [OF assms(3)] assms(1,2) by (simp_all add: kept_def)
  have "rel (finish env t') = owed (t'\<lparr>t_cleanups := []\<rparr>) (rev (acq t))"
    using c by (simp add: finish_def run_cleanups_logs)
  with c Inl show ?thesis by (simp add: owed_def)
next
  case (Inr fs)
  with StartUpSinks_log [OF assms(3)] assms(2) show ?thesis by (simp add: shut_down_rel)
qed

theorem StartUpSinks_outcome_witness:
  "case snd (StartUpSinks failing_rig \<lparr>rs_Metrics = [\<lparr>sc_ports = None, sc_consumer = ()\<rparr>], rs_Traces = [],
       rs_Logs = [\<lparr>sc_ports = None, sc_consumer = ()\<rparr>]\<rparr> new_test) of
     Inl err \<Rightarrow> rel (finish failing_rig (fst (StartUpSinks failing_rig \<lparr>rs_Metrics = [\<lparr>sc_ports = None, sc_consumer = ()\<rparr>],
       rs_Traces = [], rs_Logs = [\<lparr>sc_ports = None, sc_consumer = ()\<rparr>]\<rparr> new_test))) = rev (acq new_test)
   | Inr fs \<Rightarrow> False"
proof -
  define sinks where "sinks = \<lparr>rs_Metrics = [\<lparr>sc_ports = None, sc_consumer = ()\<rparr>], rs_Traces = [],
       rs_Logs = [\<lparr>sc_ports = None, sc_consumer = ()\<rparr>]\<rparr>"
  obtain t' r where s: "StartUpSinks failing_rig sinks new_test = (t', r)" by fastforce
  have "snd (StartUpSinks failing_rig sinks new_test) = Inl err_range"
    unfolding sinks_def by code_simp
  with s StartUpSinks_outcome [OF new_test_kept s] show ?thesis by (simp add: sinks_def)
qed

text \<open>The metrics receiver of this run was started and is never stopped.\<close>

lemma StartUpSinks_leaves_running:
  "acq (fst (StartUpSinks failing_rig \<lparr>rs_Metrics = [\<lparr>sc_ports = None, sc_consumer = ()\<rparr>], rs_Traces = [],
     rs_Logs = [\<lparr>sc_ports = None, sc_consumer = ()\<rparr>]\<rparr> new_test)) = [Receiver 0 Metrics]"
  by code_simp

end
