(* ===== verification/Go_Regex.thy ===== *)
theory Go_Regex
  imports Go_Strings
begin

text \<open>
  Regular expressions as far as the patterns of the test bed need them (\<^verbatim>\<open>testcommon/oteltest\<close>, sinks.go):
  their languages, and an executable matcher by derivatives with the search of
  \<^verbatim>\<open>regexp.MatchString\<close>, which looks for a match anywhere in the text.
\<close>

section \<open>Expressions and languages\<close>

datatype regex =
    Fail
  | Eps
  | Cls "char list"
  | Alt regex regex
  | Sq regex regex

primrec lang :: "regex \<Rightarrow> string set" where
  "lang Fail = {}"
| "lang Eps = {[]}"
| "lang (Cls cs) = {[c] | c. c \<in> set cs}"
| "lang (Alt r s) = lang r \<union> lang s"
| "lang (Sq r s) = {u @ v | u v. u \<in> lang r \<and> v \<in> lang s}"

definition opt :: "regex \<Rightarrow> regex" where "opt r = Alt r Eps"

primrec rep :: "nat \<Rightarrow> regex \<Rightarrow> regex" where
  "rep 0 r = Eps"
| "rep (Suc n) r = Sq r (rep n r)"

lemma lang_rep: "s \<in> lang (rep n r) \<longleftrightarrow> (\<exists>ws. length ws = n \<and> list_all (\<lambda>w. w \<in> lang r) ws \<and> s = concat ws)"
proof (induction n arbitrary: s)
  case (Suc n)
  show ?case
  proof
    assume "s \<in> lang (rep (Suc n) r)"
    then obtain u v where s: "s = u @ v" "u \<in> lang r" "v \<in> lang (rep n r)" by auto
    with Suc obtain ws where "length ws = n" "list_all (\<lambda>w. w \<in> lang r) ws" "v = concat ws" by blast
    with s show "\<exists>ws. length ws = Suc n \<and> list_all (\<lambda>w. w \<in> lang r) ws \<and> s = concat ws"
      by (intro exI [of _ "u # ws"]) simp
  next
    assume "\<exists>ws. length ws = Suc n \<and> list_all (\<lambda>w. w \<in> lang r) ws \<and> s = concat ws"
    then obtain w ws where "length ws = n" "w \<in> lang r" "list_all (\<lambda>w. w \<in> lang r) ws" "s = w @ concat ws"
      by (auto simp: length_Suc_conv)
    with Suc [of "concat ws"] show "s \<in> lang (rep (Suc n) r)" by auto
  qed
qed simp

section \<open>Matching\<close>

primrec nullable :: "regex \<Rightarrow> bool" where
  "nullable Fail = False"
| "nullable Eps = True"
| "nullable (Cls cs) = False"
| "nullable (Alt r s) = (nullable r \<or> nullable s)"
| "nullable (Sq r s) = (nullable r \<and> nullable s)"

primrec deriv :: "char \<Rightarrow> regex \<Rightarrow> regex" where
  "deriv c Fail = Fail"
| "deriv c Eps = Fail"
| "deriv c (Cls cs) = (if c \<in> set cs then Eps else Fail)"
| "deriv c (Alt r s) = Alt (deriv c r) (deriv c s)"
| "deriv c (Sq r s) =
     (if nullable r then Alt (Sq (deriv c r) s) (deriv c s) else Sq (deriv c r) s)"

fun full_match :: "regex \<Rightarrow> string \<Rightarrow> bool" where
  "full_match r [] = nullable r"
| "full_match r (c # s) = full_match (deriv c r) s"

fun match_prefix :: "regex \<Rightarrow> string \<Rightarrow> bool" where
  "match_prefix r [] = nullable r"
| "match_prefix r (c # s) = (nullable r \<or> match_prefix (deriv c r) s)"

fun search :: "regex \<Rightarrow> string \<Rightarrow> bool" where
  "search r [] = match_prefix r []"
| "search r (c # s) = (match_prefix r (c # s) \<or> search r s)"

lemma nullable_iff: "nullable r \<longleftrightarrow> [] \<in> lang r"
  by (induction r) auto

lemma deriv_iff: "s \<in> lang (deriv c r) \<longleftrightarrow> c # s \<in> lang r"
proof (induction r arbitrary: s)
  case (Sq r1 r2)
  have "c # s \<in> lang (Sq r1 r2) \<longleftrightarrow>
      (\<exists>u v. s = u @ v \<and> c # u \<in> lang r1 \<and> v \<in> lang r2) \<or> ([] \<in> lang r1 \<and> c # s \<in> lang r2)"
    by (auto simp: Cons_eq_append_conv)
  with Sq show ?case by (auto simp: nullable_iff)
qed auto

lemma full_match_iff: "full_match r s \<longleftrightarrow> s \<in> lang r"
  by (induction r s rule: full_match.induct) (simp_all add: nullable_iff deriv_iff)

lemma match_prefix_iff: "match_prefix r s \<longleftrightarrow> (\<exists>u v. s = u @ v \<and> u \<in> lang r)"
proof (induction r s rule: match_prefix.induct)
  case (2 r c s)
  have "(\<exists>u v. c # s = u @ v \<and> u \<in> lang r) \<longleftrightarrow> [] \<in> lang r \<or> (\<exists>u v. s = u @ v \<and> c # u \<in> lang r)"
    by (auto simp: Cons_eq_append_conv)
  with 2 show ?case by (simp add: nullable_iff deriv_iff)
qed (simp add: nullable_iff)

text \<open>The search finds a match exactly when some part of the text is in the language.\<close>

lemma search_iff: "search r s \<longleftrightarrow> (\<exists>p m q. s = p @ m @ q \<and> m \<in> lang r)"
proof (induction r s rule: search.induct)
  case (2 r c s)
  have "(\<exists>p m q. c # s = p @ m @ q \<and> m \<in> lang r) \<longleftrightarrow>
      (\<exists>m q. c # s = m @ q \<and> m \<in> lang r) \<or> (\<exists>p m q. s = p @ m @ q \<and> m \<in> lang r)"
    by (auto simp: Cons_eq_append_conv) blast+
  with 2 show ?case by (simp only: search.simps match_prefix_iff)
qed (auto simp: match_prefix_iff)

section \<open>The patterns\<close>

definition digits :: "char list" where "digits = ''0123456789''"
definition hex :: "char list" where "hex = ''abcdefABCDEF'' @ digits"

definition UidRe :: regex where
  "UidRe =
     (let dash = Cls ''-''; h = Cls hex
      in Sq (rep 8 h) (Sq dash (Sq (rep 4 h) (Sq dash (Sq (rep 4 h) (Sq dash
           (Sq (rep 4 h) (Sq dash (rep 12 h)))))))))"

text \<open>An octet, \<^verbatim>\<open>25[0-5]|(2[0-4]|1\d|[1-9]|)\d\<close>, and four of them, each with an optional dot behind it.\<close>

definition octet :: regex where
  "octet =
     Alt (Sq (Cls ''2'') (Sq (Cls ''5'') (Cls ''012345'')))
       (Sq (Alt (Sq (Cls ''2'') (Cls ''01234'')) (Alt (Sq (Cls ''1'') (Cls digits)) (Alt (Cls ''123456789'') Eps)))
          (Cls digits))"

definition IPRe :: regex where
  "IPRe = rep 4 (Sq octet (opt (Cls ''.'')))"

lemma octet_digit: "c \<in> set digits \<Longrightarrow> [c] \<in> lang octet"
proof -
  assume "c \<in> set digits"
  moreover have "list_all (\<lambda>c. full_match octet [c]) digits" by code_simp
  ultimately show ?thesis by (simp only: list_all_iff full_match_iff)
qed

lemma digit_char_digits: "d < 10 \<Longrightarrow> digit_char d \<in> set digits"
proof -
  assume "d < 10"
  then have "d \<in> set [0..<10]" by simp
  moreover have "list_all (\<lambda>d. digit_char d \<in> set digits) [0..<10]" by code_simp
  ultimately show ?thesis by (simp only: list_all_iff)
qed

text \<open>The printed form of every number up to 255 is an octet: one, two and three digits.\<close>

lemma octet_two: "c \<in> set ''123456789'' \<Longrightarrow> d \<in> set digits \<Longrightarrow> [c, d] \<in> lang octet"
proof -
  assume "c \<in> set ''123456789''" "d \<in> set digits"
  moreover have "list_all (\<lambda>c. list_all (\<lambda>d. full_match octet [c, d]) digits) ''123456789''" by code_simp
  ultimately show ?thesis by (simp only: list_all_iff full_match_iff)
qed

lemma octet_three:
  "c \<in> set digits \<Longrightarrow> d \<in> set digits \<Longrightarrow> CHR ''1'' # [c, d] \<in> lang octet"
  "c \<in> set ''01234'' \<Longrightarrow> d \<in> set digits \<Longrightarrow> CHR ''2'' # [c, d] \<in> lang octet"
  "d \<in> set ''012345'' \<Longrightarrow> CHR ''2'' # CHR ''5'' # [d] \<in> lang octet"
proof -
  have "list_all (\<lambda>c. list_all (\<lambda>d. full_match octet (CHR ''1'' # [c, d])) digits) digits"
    "list_all (\<lambda>c. list_all (\<lambda>d. full_match octet (CHR ''2'' # [c, d])) digits) ''01234''"
    "list_all (\<lambda>d. full_match octet (CHR ''2'' # CHR ''5'' # [d])) ''012345''"
    by code_simp+
  note checks = this [unfolded list_all_iff full_match_iff]
  show "c \<in> set digits \<Longrightarrow> d \<in> set digits \<Longrightarrow> CHR ''1'' # [c, d] \<in> lang octet" using checks(1) by blast
  show "c \<in> set ''01234'' \<Longrightarrow> d \<in> set digits \<Longrightarrow> CHR ''2'' # [c, d] \<in> lang octet" using checks(2) by blast
  show "d \<in> set ''012345'' \<Longrightarrow> CHR ''2'' # CHR ''5'' # [d] \<in> lang octet" using checks(3) by blast
qed

lemma list_all_upt: "list_all P [a..<b] \<Longrightarrow> a \<le> k \<Longrightarrow> k < b \<Longrightarrow> P k"
  by (simp add: list_all_iff)

lemma show_three:
  "100 \<le> n \<Longrightarrow> n < 1000 \<Longrightarrow>
   show_nat n = [digit_char (n div 10 div 10), digit_char (n div 10 mod 10), digit_char (n mod 10)]"
proof -
  assume "100 \<le> n" "n < 1000"
  then have "\<not> n < 10" "\<not> n div 10 < 10" "n div 10 div 10 < 10" by linarith+
  then show ?thesis
    using show_nat.simps [of n] show_nat.simps [of "n div 10"] show_nat.simps [of "n div 10 div 10"] by simp
qed

lemma octet_show:
  assumes "n \<le> 255"
  shows "show_nat n \<in> lang octet"
proof -
  have low: "list_all (\<lambda>d. digit_char d \<in> set ''123456789'') [1..<10]"
    "list_all (\<lambda>d. digit_char d \<in> set ''01234'') [0..<5]" "list_all (\<lambda>d. digit_char d \<in> set ''012345'') [0..<6]"
    "digit_char 1 = CHR ''1''" "digit_char 2 = CHR ''2''" "digit_char 5 = CHR ''5''"
    by code_simp+
  have m: "digit_char (n mod 10) \<in> set digits" by (simp add: digit_char_digits)
  consider "n < 10" | "10 \<le> n" "n < 100" | "100 \<le> n" "n < 200" | "200 \<le> n" "n < 250" | "250 \<le> n" by linarith
  then show ?thesis
  proof cases
    case 1
    then show ?thesis using octet_digit [OF digit_char_digits] by (simp add: show_nat.simps [of n])
  next
    case 2
    then have "n div 10 < 10" "1 \<le> n div 10" by auto
    note d = this
    have "digit_char (n div 10) \<in> set ''123456789''" by (rule list_all_upt [OF low(1)]) (rule d)+
    with 2 m octet_two \<open>n div 10 < 10\<close> show ?thesis by (simp add: show_nat.simps [of n] show_nat.simps [of "n div 10"] del: list.set)
  next
    case 3
    then have d: "n div 10 div 10 = 1" by simp
    have "digit_char (n div 10 mod 10) \<in> set digits" by (simp add: digit_char_digits)
    moreover have "show_nat n = CHR ''1'' # [digit_char (n div 10 mod 10), digit_char (n mod 10)]"
      using show_three [of n] 3 d low(4) by simp
    ultimately show ?thesis using octet_three(1) m by (simp only:)
  next
    case 4
    then have "20 \<le> n div 10" "n div 10 < 25" by auto
    then have "n div 10 \<in> {20, 21, 22, 23, 24}" by simp linarith
    then have d: "n div 10 div 10 = 2" "n div 10 mod 10 < 5" by fastforce+
    have "digit_char (n div 10 mod 10) \<in> set ''01234''"
      by (rule list_all_upt [OF low(2)]) (rule le0, rule d(2))
    moreover have "show_nat n = CHR ''2'' # [digit_char (n div 10 mod 10), digit_char (n mod 10)]"
      using show_three [of n] 4 d(1) low(5) by simp
    ultimately show ?thesis using octet_three(2) m by (simp only:)
  next
    case 5
    then have "n \<in> {250, 251, 252, 253, 254, 255}" using assms by auto
    then have d: "n div 10 = 25" "n mod 10 < 6" by fastforce+
    have "digit_char (n mod 10) \<in> set ''012345''"
      by (rule list_all_upt [OF low(3)]) (rule le0, rule d(2))
    moreover have "show_nat n = CHR ''2'' # CHR ''5'' # [digit_char (n mod 10)]"
      using show_three [of n] 5 d(1) assms low(5,6) by simp
    ultimately show ?thesis using octet_three(3) by (simp only:)
  qed
qed

lemma lang_opt: "lang (opt r) = insert [] (lang r)"
  by (auto simp: opt_def)

text \<open>Octets with or without a dot behind each of them.\<close>

lemma IPRe_octets:
  assumes "list_all (\<lambda>(w, dot). w \<in> lang octet \<and> dot \<in> {[], ''.''}) [x1, x2, x3, x4]"
  shows "concat (map (\<lambda>(w, dot). w @ dot) [x1, x2, x3, x4]) \<in> lang IPRe"
  unfolding IPRe_def lang_rep
  using assms
  by (intro exI [of _ "map (\<lambda>(w, dot). w @ dot) [x1, x2, x3, x4]"])
    (auto simp: lang_opt case_prod_unfold)

lemma lang_rep_Cls: "s \<in> lang (rep n (Cls cs)) \<longleftrightarrow> length s = n \<and> set s \<subseteq> set cs"
proof (induction n arbitrary: s)
  case (Suc n)
  have "s \<in> lang (rep (Suc n) (Cls cs)) \<longleftrightarrow> (\<exists>c v. s = c # v \<and> c \<in> set cs \<and> v \<in> lang (rep n (Cls cs)))"
    by (auto; metis append_Cons append_Nil)
  with Suc show ?case by (cases s) auto
qed auto

section \<open>Properties\<close>

text \<open>
  The pattern for addresses accepts every text that holds an IPv4 address in its usual form.
\<close>

theorem IPRe_accepts:
  assumes "a \<le> 255" and "b \<le> 255" and "c \<le> 255" and "d \<le> 255"
  shows "search IPRe (p @ (show_nat a @ ''.'' @ show_nat b @ ''.'' @ show_nat c @ ''.'' @ show_nat d) @ q)"
proof -
  have "show_nat a @ ''.'' @ show_nat b @ ''.'' @ show_nat c @ ''.'' @ show_nat d \<in> lang IPRe"
    using IPRe_octets [of "(show_nat a, ''.'')" "(show_nat b, ''.'')" "(show_nat c, ''.'')" "(show_nat d, [])"]
      octet_show assms by simp
  then show ?thesis unfolding search_iff by blast
qed

theorem IPRe_accepts_witness:
  "search IPRe (''ip='' @ (show_nat 10 @ ''.'' @ show_nat 244 @ ''.'' @ show_nat 0 @ ''.'' @ show_nat 17) @ ''/32'')"
  by (rule IPRe_accepts) simp_all

text \<open>It also accepts every text with four digits in a row, since each dot is optional.\<close>

lemma IPRe_four_digits:
  "set ds \<subseteq> set digits \<Longrightarrow> length ds = 4 \<Longrightarrow> search IPRe (p @ ds @ q)"
proof -
  assume ds: "set ds \<subseteq> set digits" "length ds = 4"
  then obtain a b c d where d: "ds = [a, b, c, d]" by (auto simp: length_Suc_conv numeral_eq_Suc)
  with ds have "[a, b, c, d] \<in> lang IPRe"
    using IPRe_octets [of "([a], [])" "([b], [])" "([c], [])" "([d], [])"] octet_digit by simp
  with d show ?thesis unfolding search_iff by blast
qed

text \<open>
  The pattern for identifiers accepts exactly the texts that hold five groups of 8, 4, 4, 4 and 12
  hexadecimal digits with a dash between two of them.
\<close>

theorem UidRe_accepts:
  "search UidRe s \<longleftrightarrow>
     (\<exists>p a b c d e q. s = p @ (a @ ''-'' @ b @ ''-'' @ c @ ''-'' @ d @ ''-'' @ e) @ q \<and>
        map length [a, b, c, d, e] = [8, 4, 4, 4, 12] \<and> set (concat [a, b, c, d, e]) \<subseteq> set hex)"
proof -
  let ?ok = "\<lambda>n u. length u = n \<and> set u \<subseteq> set hex"
  have sq: "m \<in> lang (Sq (rep n (Cls hex)) (Sq (Cls ''-'') r)) \<longleftrightarrow> (\<exists>u v. m = u @ ''-'' @ v \<and> ?ok n u \<and> v \<in> lang r)"
    for m n r by (simp add: lang_rep_Cls) blast
  have nested: "m \<in> lang UidRe \<longleftrightarrow> (\<exists>a v. m = a @ ''-'' @ v \<and> ?ok 8 a \<and> (\<exists>b w. v = b @ ''-'' @ w \<and> ?ok 4 b \<and>
      (\<exists>c x. w = c @ ''-'' @ x \<and> ?ok 4 c \<and> (\<exists>d e. x = d @ ''-'' @ e \<and> ?ok 4 d \<and> ?ok 12 e))))" for m
    unfolding UidRe_def Let_def sq lang_rep_Cls ..
  have uid: "m \<in> lang UidRe \<longleftrightarrow> (\<exists>a b c d e. m = a @ ''-'' @ b @ ''-'' @ c @ ''-'' @ d @ ''-'' @ e \<and>
      ?ok 8 a \<and> ?ok 4 b \<and> ?ok 4 c \<and> ?ok 4 d \<and> ?ok 12 e)" (is "_ \<longleftrightarrow> ?r m") for m
  proof
    show "m \<in> lang UidRe \<Longrightarrow> ?r m" unfolding nested
      by (elim exE conjE; hypsubst; intro exI conjI; (rule refl | assumption))
    show "?r m \<Longrightarrow> m \<in> lang UidRe" unfolding nested
      by (elim exE conjE; hypsubst; intro exI conjI; (rule refl | assumption))
  qed
  have parts: "map length [a, b, c, d, e] = [8, 4, 4, 4, 12] \<and> set (concat [a, b, c, d, e]) \<subseteq> set hex \<longleftrightarrow>
      ?ok 8 a \<and> ?ok 4 b \<and> ?ok 4 c \<and> ?ok 4 d \<and> ?ok 12 e" for a b c d e by auto
  show ?thesis unfolding search_iff uid parts by blast
qed

end
