(* ===== verification/Oteltest_Checks.thy ===== *)
theory Oteltest_Checks
  imports Pdata Go_Text Go_Regex
begin

text \<open>
  The assertions of the test bed over received telemetry (\<^verbatim>\<open>testcommon/oteltest\<close>, sinks.go): waiting for
  a number of batches, comparing attributes with expectations, and looking for the traces and
  metrics of a service. What a check reports to the test is a list of errors; a failed requirement
  ends it. The matcher of regular expressions, the printed form of a value and the two JSON
  renderings of the final error are parameters.
\<close>

section \<open>Expected values\<close>

datatype ExpectedValueMode = AttributeMatchTypeEqual | AttributeMatchTypeRegex | AttributeMatchTypeExist

record ExpectedValue =
  Mode :: ExpectedValueMode
  Value :: string

definition NewExpectedValue :: "ExpectedValueMode \<Rightarrow> string \<Rightarrow> ExpectedValue" where
  "NewExpectedValue mode value = \<lparr>Mode = mode, Value = value\<rparr>"

text \<open>A map of expectations is given in the order in which the runtime visits its entries.\<close>

type_synonym expected = "(string \<times> ExpectedValue) list"

record 'v checker =
  re_match :: "string \<Rightarrow> string \<Rightarrow> bool result"
  show_value :: "'v \<Rightarrow> string"
  show_expected :: "expected \<Rightarrow> string"
  show_actual :: "'v attrs \<Rightarrow> string"

definition value_matches :: "'v checker \<Rightarrow> ExpectedValue \<Rightarrow> 'v attr_value \<Rightarrow> bool" where
  "value_matches ck val v =
     (case Mode val of
        AttributeMatchTypeEqual \<Rightarrow> Value val = as_string (show_value ck) v
      | AttributeMatchTypeRegex \<Rightarrow>
          (case re_match ck (Value val) (as_string (show_value ck) v) of Inl err \<Rightarrow> False | Inr matched \<Rightarrow> matched)
      | AttributeMatchTypeExist \<Rightarrow> True)"

text \<open>The loop over the attributes, with the map of what was found.\<close>

fun range_attrs :: "'v checker \<Rightarrow> expected \<Rightarrow> 'v attrs \<Rightarrow> (string \<rightharpoonup> bool) \<Rightarrow> (string \<rightharpoonup> bool)" where
  "range_attrs ck kvs [] foundAttrs = foundAttrs"
| "range_attrs ck kvs ((k, v) # attrs) foundAttrs =
     range_attrs ck kvs attrs
       (case map_of kvs k of
          Some val \<Rightarrow> if value_matches ck val v then foundAttrs(k \<mapsto> True) else foundAttrs
        | None \<Rightarrow> foundAttrs)"

text \<open>
  The joined errors, an empty list for none: one for every attribute that was not found, and then
  a summary.
\<close>

definition AssertExpectedAttributes :: "'v checker \<Rightarrow> 'v attrs \<Rightarrow> expected \<Rightarrow> go_error list" where
  "AssertExpectedAttributes ck attrs kvs =
     (let foundAttrs = range_attrs ck kvs attrs (map_of (map (\<lambda>(k, _). (k, False)) kvs));
          err = map (\<lambda>(k, _). Errorf ''attribute '%v' not found'' [k])
                  (filter (\<lambda>(k, _). foundAttrs k \<noteq> Some True) kvs)
      in if err \<noteq> []
         then err @ [Errorf ''one or more attributes were not found.'' [show_expected ck kvs, show_actual ck attrs]]
         else [])"

section \<open>Waiting\<close>

text \<open>
  The condition is the number of batches received at a check. The number in the failure message
  is computed before the waiting starts, at check 0.
\<close>

definition wait_for :: "string \<Rightarrow> nat \<Rightarrow> nat \<Rightarrow> (nat \<Rightarrow> nat) \<Rightarrow> unit result" where
  "wait_for what ticks entriesNum received =
     (if eventually ticks (\<lambda>i. int (received i) \<ge> int entriesNum) then Inr ()
      else Inl (Errorf (''failed to receive %d entries,  received %d '' @ what @ '' in %d minutes'')
                  [itoa (int entriesNum), itoa (int (received 0)), itoa 5]))"

definition WaitForMetrics :: "nat \<Rightarrow> nat \<Rightarrow> (nat \<Rightarrow> nat) \<Rightarrow> unit result" where
  "WaitForMetrics = wait_for ''metrics''"

definition WaitForTraces :: "nat \<Rightarrow> nat \<Rightarrow> (nat \<Rightarrow> nat) \<Rightarrow> unit result" where
  "WaitForTraces = wait_for ''traces''"

definition WaitForLogs :: "nat \<Rightarrow> nat \<Rightarrow> (nat \<Rightarrow> nat) \<Rightarrow> unit result" where
  "WaitForLogs = wait_for ''logs''"

text \<open>So the message of a failed wait does not tell how much had arrived when it failed.\<close>

lemma wait_for_message_is_stale:
  "WaitForLogs 300 5 (\<lambda>i. if i = 0 then 0 else 4) =
     Inl (Errorf ''failed to receive %d entries,  received %d logs in %d minutes'' [itoa 5, itoa 0, itoa 5])"
  by (simp add: WaitForLogs_def wait_for_def eventually_def list_ex_iff)

section \<open>Looking for the telemetry of a service\<close>

text \<open>
  A check ends with the errors it reported, or with a fatal one. The attributes of a resource and
  of a span are what is left of them here.
\<close>

datatype outcome = Checked "go_error list" | Fatal "go_error list" go_error

definition ServiceNameAttribute :: string where
  "ServiceNameAttribute = ''service.name''"

type_synonym 'v traced = "('v attrs, 'v attrs) resource_spans"

text \<open>For one expected set of attributes: the result for the first span that has it, or for the last span.\<close>

fun find_span :: "'v checker \<Rightarrow> expected \<Rightarrow> 'v attrs span list \<Rightarrow> go_error list \<Rightarrow> go_error list" where
  "find_span ck spanAttrs [] err = err"
| "find_span ck spanAttrs (s # spans) err =
     (let err = AssertExpectedAttributes ck (sp_body s) spanAttrs
      in if err = [] then err else find_span ck spanAttrs spans err)"

definition check_traces :: "'v checker \<Rightarrow> expected \<Rightarrow> expected list \<Rightarrow> 'v traced \<Rightarrow> outcome" where
  "check_traces ck kvs scopeSpanAttrs rs =
     (let errs = AssertExpectedAttributes ck (rs_rest rs) kvs
      in if scopeSpanAttrs = [] then Checked errs
         else if rs_scopes rs = [] then Fatal errs (Errorf ''Should not be zero, but was 0'' [])
         else if ss_spans (hd (rs_scopes rs)) = [] then Fatal errs (Errorf ''Should not be zero, but was 0'' [])
         else Checked (errs @ concat (map (\<lambda>a. find_span ck a (ss_spans (hd (rs_scopes rs))) []) scopeSpanAttrs)))"

fun scan_resources :: "('r \<Rightarrow> 'v attrs) \<Rightarrow> ('v \<Rightarrow> string) \<Rightarrow> go_error \<Rightarrow> string \<Rightarrow> ('r \<Rightarrow> outcome) \<Rightarrow> 'r list \<Rightarrow> outcome option" where
  "scan_resources attrs_of show missing expectedService check [] = None"
| "scan_resources attrs_of show missing expectedService check (r # rs) =
     (case map_of (attrs_of r) ServiceNameAttribute of
        None \<Rightarrow> Some (Fatal [] missing)
      | Some service \<Rightarrow>
          if as_string show service \<noteq> expectedService
          then scan_resources attrs_of show missing expectedService check rs
          else Some (check r))"

text \<open>The two loops over the batches of a sink and the resources of a batch.\<close>

fun scan_batches :: "('r \<Rightarrow> 'v attrs) \<Rightarrow> ('v \<Rightarrow> string) \<Rightarrow> go_error \<Rightarrow> string \<Rightarrow> ('r \<Rightarrow> outcome) \<Rightarrow> 'r list list \<Rightarrow> outcome option" where
  "scan_batches attrs_of show missing expectedService check [] = None"
| "scan_batches attrs_of show missing expectedService check (b # bs) =
     (case scan_resources attrs_of show missing expectedService check b of
        Some out \<Rightarrow> Some out
      | None \<Rightarrow> scan_batches attrs_of show missing expectedService check bs)"

definition ScanTracesForAttributes ::
  "'v checker \<Rightarrow> 'v traced list list \<Rightarrow> string \<Rightarrow> expected \<Rightarrow> expected list \<Rightarrow> outcome" where
  "ScanTracesForAttributes ck sink expectedService kvs scopeSpanAttrs =
     (case scan_batches rs_rest (show_value ck)
             (Errorf ''Resource does not have the 'service.name' attribute'' []) expectedService
             (check_traces ck kvs scopeSpanAttrs) sink of
        Some out \<Rightarrow> out
      | None \<Rightarrow> Fatal [] (Errorf ''no spans found for service %s'' [expectedService]))"

fun first_missing :: "string list \<Rightarrow> string list \<Rightarrow> string option" where
  "first_missing [] actualMetrics = None"
| "first_missing (m # ms) actualMetrics =
     (if m \<notin> set actualMetrics then Some m else first_missing ms actualMetrics)"

definition assertExpectedMetrics :: "string list \<Rightarrow> ('v, 'd, 'x) metric list \<Rightarrow> go_error option" where
  "assertExpectedMetrics expectedMetrics sm =
     (case first_missing expectedMetrics (map met_name sm) of
        None \<Rightarrow> None
      | Some m \<Rightarrow> Some (Errorf ''metric: %s not found'' [m]))"

definition check_metrics :: "string list \<Rightarrow> ('v, 'd, 'x) resource_metrics \<Rightarrow> outcome" where
  "check_metrics expectedMetrics rm =
     (if rm_scopes rm = [] then Fatal [] (Errorf ''resource has no scope metrics'' [])
      else (case assertExpectedMetrics expectedMetrics (sm_metrics (hd (rm_scopes rm))) of
              None \<Rightarrow> Checked []
            | Some err \<Rightarrow> Checked [err]))"

text \<open>The scan for metrics.\<close>

definition ScanForServiceMetrics ::
  "('v \<Rightarrow> string) \<Rightarrow> ('v, 'd, 'x) metrics list \<Rightarrow> string \<Rightarrow> string list \<Rightarrow> outcome" where
  "ScanForServiceMetrics show sink expectedService expectedMetrics =
     (case scan_batches rm_attrs show
             (Errorf ''resource does not have the 'service.name' attribute'' []) expectedService
             (check_metrics expectedMetrics) sink of
        Some out \<Rightarrow> out
      | None \<Rightarrow> Fatal [] (Errorf ''no metric found for service %s'' [expectedService]))"

section \<open>Lemmas\<close>

lemma range_attrs_found:
  "range_attrs ck kvs attrs found k = Some True \<longleftrightarrow>
     found k = Some True \<or> (\<exists>val v. map_of kvs k = Some val \<and> (k, v) \<in> set attrs \<and> value_matches ck val v)"
proof (induction attrs arbitrary: found)
  case (Cons a attrs)
  obtain k' v' where a: "a = (k', v')" by (cases a)
  show ?case
  proof (cases "map_of kvs k'")
    case None
    with Cons a show ?thesis by auto
  next
    case (Some val)
    with Cons a show ?thesis by (auto split: if_splits)
  qed
qed simp

lemma map_of_False: "map_of (map (\<lambda>(k, _). (k, False)) kvs) k \<noteq> Some True"
  by (induction kvs) auto

text \<open>What an expectation asks of the attributes.\<close>

definition satisfied :: "'v checker \<Rightarrow> 'v attrs \<Rightarrow> string \<times> ExpectedValue \<Rightarrow> bool" where
  "satisfied ck attrs kv \<longleftrightarrow> list_ex (\<lambda>a. fst a = fst kv \<and> value_matches ck (snd kv) (snd a)) attrs"

lemma found_iff:
  assumes "distinct (map fst kvs)" and "kv \<in> set kvs"
  shows "range_attrs ck kvs attrs (map_of (map (\<lambda>(k, _). (k, False)) kvs)) (fst kv) = Some True \<longleftrightarrow>
           satisfied ck attrs kv"
proof -
  have "map_of kvs (fst kv) = Some (snd kv)" using assms by (cases kv) simp
  then show ?thesis
    using range_attrs_found [of ck kvs attrs "map_of (map (\<lambda>(k, _). (k, False)) kvs)" "fst kv"]
      map_of_False [of kvs "fst kv"]
    by (auto simp: satisfied_def list_ex_iff; force)
qed

lemma unsatisfied_errors:
  assumes "distinct (map fst kvs)"
  shows "filter (\<lambda>(k, _). range_attrs ck kvs attrs (map_of (map (\<lambda>(k, _). (k, False)) kvs)) k \<noteq> Some True) kvs =
           filter (\<lambda>kv. \<not> satisfied ck attrs kv) kvs"
proof (rule filter_cong [OF refl])
  fix kv assume "kv \<in> set kvs"
  from found_iff [OF assms this] show
    "(case kv of (k, _) \<Rightarrow> range_attrs ck kvs attrs (map_of (map (\<lambda>(k, _). (k, False)) kvs)) k \<noteq> Some True) \<longleftrightarrow>
       \<not> satisfied ck attrs kv"
    by (simp add: case_prod_unfold)
qed

lemma attributes_missing:
  assumes "distinct (map fst kvs)"
  shows "AssertExpectedAttributes ck attrs kvs =
           (if filter (\<lambda>kv. \<not> satisfied ck attrs kv) kvs = [] then []
            else map (\<lambda>kv. Errorf ''attribute '%v' not found'' [fst kv]) (filter (\<lambda>kv. \<not> satisfied ck attrs kv) kvs) @
                 [Errorf ''one or more attributes were not found.'' [show_expected ck kvs, show_actual ck attrs]])"
  unfolding AssertExpectedAttributes_def Let_def unsatisfied_errors [OF assms]
  by (simp add: case_prod_unfold)

lemma no_unsatisfied: "filter (\<lambda>kv. \<not> satisfied ck attrs kv) kvs = [] \<longleftrightarrow> list_all (satisfied ck attrs) kvs"
  by (simp add: filter_empty_conv list_all_iff)

lemma attributes_ok_iff:
  assumes "distinct (map fst kvs)"
  shows "AssertExpectedAttributes ck attrs kvs = [] \<longleftrightarrow> list_all (satisfied ck attrs) kvs"
  unfolding attributes_missing [OF assms] no_unsatisfied by simp

lemma find_span_ok:
  "distinct (map fst a) \<Longrightarrow> spans \<noteq> [] \<or> err \<noteq> [] \<Longrightarrow>
   find_span ck a spans err = [] \<longleftrightarrow> list_ex (\<lambda>s. list_all (satisfied ck (sp_body s)) a) spans"
proof (induction spans arbitrary: err)
  case (Cons s spans)
  show ?case
  proof (cases "AssertExpectedAttributes ck (sp_body s) a = []")
    case True
    with Cons.prems show ?thesis using attributes_ok_iff [of a ck "sp_body s"] by (simp add: Let_def)
  next
    case False
    with Cons.prems Cons.IH [of "AssertExpectedAttributes ck (sp_body s) a"] show ?thesis
      using attributes_ok_iff [of a ck "sp_body s"] by (simp add: Let_def)
  qed
qed simp

text \<open>Only the first resource of the service counts, and every resource before it must have a name.\<close>

lemma scan_resources_append:
  "scan_resources f g m s check (xs @ ys) =
     (case scan_resources f g m s check xs of Some out \<Rightarrow> Some out | None \<Rightarrow> scan_resources f g m s check ys)"
  by (induction xs) (auto split: option.splits)

lemma scan_batches_concat:
  "scan_batches f g m s check bs = scan_resources f g m s check (concat bs)"
  by (induction bs) (simp_all add: scan_resources_append split: option.splits)

definition names_service :: "('r \<Rightarrow> 'v attrs) \<Rightarrow> ('v \<Rightarrow> string) \<Rightarrow> string \<Rightarrow> 'r \<Rightarrow> bool" where
  "names_service f g s r \<longleftrightarrow> map_option (as_string g) (map_of (f r) ServiceNameAttribute) = Some s"

definition unnamed :: "('r \<Rightarrow> 'v attrs) \<Rightarrow> 'r \<Rightarrow> bool" where
  "unnamed f r \<longleftrightarrow> map_of (f r) ServiceNameAttribute = None"

lemma scan_resources_find:
  "scan_resources f g m s check rs =
     map_option (\<lambda>r. if unnamed f r then Fatal [] m else check r)
       (find (\<lambda>r. unnamed f r \<or> names_service f g s r) rs)"
  by (induction rs) (auto simp: unnamed_def names_service_def split: option.splits)

section \<open>Properties\<close>

text \<open>
  C36: attributes are accepted exactly when every expectation is met by some attribute of its key; otherwise
  the error names every key that is not met, in the order of the map, and nothing else, before the summary.
\<close>

theorem AssertExpectedAttributes_spec:
  assumes "distinct (map fst kvs)"
  shows "AssertExpectedAttributes ck attrs kvs =
           (if list_all (satisfied ck attrs) kvs then []
            else map (\<lambda>kv. Errorf ''attribute '%v' not found'' [fst kv]) (filter (\<lambda>kv. \<not> satisfied ck attrs kv) kvs) @
                 [Errorf ''one or more attributes were not found.'' [show_expected ck kvs, show_actual ck attrs]])"
  using attributes_missing [OF assms, of ck attrs] by (simp only: no_unsatisfied)

definition plain_checker :: "unit checker" where
  "plain_checker = \<lparr>re_match = (\<lambda>re s. Inr (re = s)), show_value = (\<lambda>_. ''()''), show_expected = (\<lambda>_. ''{}''),
     show_actual = (\<lambda>_. ''{}'')\<rparr>"

theorem AssertExpectedAttributes_spec_witness:
  "AssertExpectedAttributes plain_checker [(''host'', Str ''a''), (''pod'', Val ())]
     [(''host'', NewExpectedValue AttributeMatchTypeEqual ''b''), (''pod'', NewExpectedValue AttributeMatchTypeExist [])] =
   [Errorf ''attribute '%v' not found'' [''host''],
    Errorf ''one or more attributes were not found.'' [''{}'', ''{}'']]"
  using AssertExpectedAttributes_spec [of "[(''host'', NewExpectedValue AttributeMatchTypeEqual ''b''),
      (''pod'', NewExpectedValue AttributeMatchTypeExist [])]" plain_checker "[(''host'', Str ''a''), (''pod'', Val ())]"]
  by (simp add: satisfied_def value_matches_def NewExpectedValue_def plain_checker_def)

text \<open>
  A scan of traces passes without an error exactly when the first resource that has the service's
  name, with no nameless resource before it, meets the expected attributes and, if attributes of spans
  are asked for, its first scope has for each of them a span that meets it.
\<close>

theorem ScanTracesForAttributes_passes:
  assumes "distinct (map fst kvs)" and "list_all (\<lambda>a. distinct (map fst a)) scopeSpanAttrs"
  shows "ScanTracesForAttributes ck sink service kvs scopeSpanAttrs = Checked [] \<longleftrightarrow>
    (case find (\<lambda>r. unnamed rs_rest r \<or> names_service rs_rest (show_value ck) service r) (concat sink) of
       None \<Rightarrow> False
     | Some r \<Rightarrow> \<not> unnamed rs_rest r \<and> list_all (satisfied ck (rs_rest r)) kvs \<and>
         (case scopeSpanAttrs of [] \<Rightarrow> True
          | _ # _ \<Rightarrow>
              (case rs_scopes r of [] \<Rightarrow> False
               | ss # _ \<Rightarrow> ss_spans ss \<noteq> [] \<and>
                   list_all (\<lambda>a. list_ex (\<lambda>s. list_all (satisfied ck (sp_body s)) a) (ss_spans ss)) scopeSpanAttrs)))"
proof (cases "find (\<lambda>r. unnamed rs_rest r \<or> names_service rs_rest (show_value ck) service r) (concat sink)")
  case None
  then show ?thesis
    by (simp add: ScanTracesForAttributes_def scan_batches_concat scan_resources_find)
next
  case (Some r)
  have span: "find_span ck a (ss_spans ss) [] = [] \<longleftrightarrow>
      list_ex (\<lambda>s. list_all (satisfied ck (sp_body s)) a) (ss_spans ss)"
    if "a \<in> set scopeSpanAttrs" "ss_spans ss \<noteq> []" for a and ss :: "('a attrs, 'a attrs) scope_spans"
    by (rule find_span_ok) (use that assms(2) in \<open>auto simp: list_all_iff\<close>)
  show ?thesis
  proof (cases "unnamed rs_rest r")
    case True
    with Some show ?thesis
      by (simp add: ScanTracesForAttributes_def scan_batches_concat scan_resources_find)
  next
    case False
    with Some have "ScanTracesForAttributes ck sink service kvs scopeSpanAttrs = check_traces ck kvs scopeSpanAttrs r"
      by (simp add: ScanTracesForAttributes_def scan_batches_concat scan_resources_find)
    with Some False span attributes_ok_iff [OF assms(1), of ck "rs_rest r"] show ?thesis
      by (cases "rs_scopes r"; cases scopeSpanAttrs)
        (auto simp: check_traces_def Let_def list_all_iff)
  qed
qed

text \<open>
  A scan for metrics passes exactly when the first resource of the service, with no nameless one before
  it, has a scope and the first scope has a metric of every expected name. The metrics of further
  scopes and of later batches are not looked at.
\<close>

theorem ScanForServiceMetrics_passes:
  "ScanForServiceMetrics show sink service expectedMetrics = Checked [] \<longleftrightarrow>
    (case find (\<lambda>r. unnamed rm_attrs r \<or> names_service rm_attrs show service r) (concat sink) of
       None \<Rightarrow> False
     | Some r \<Rightarrow> \<not> unnamed rm_attrs r \<and>
         (case rm_scopes r of [] \<Rightarrow> False
          | sm # _ \<Rightarrow> set expectedMetrics \<subseteq> met_name ` set (sm_metrics sm)))"
proof -
  have miss: "first_missing ms names = None \<longleftrightarrow> set ms \<subseteq> set names" for ms names
    by (induction ms) auto
  show ?thesis
    by (cases "find (\<lambda>r. unnamed rm_attrs r \<or> names_service rm_attrs show service r) (concat sink)")
      (auto simp: ScanForServiceMetrics_def scan_batches_concat scan_resources_find check_metrics_def
         assertExpectedMetrics_def miss [THEN iffD2] split: option.splits list.splits
         dest!: miss [THEN iffD1])
qed

definition sample_spans :: "unit traced list" where
  "sample_spans = [\<lparr>rs_scopes = [\<lparr>ss_spans = [\<lparr>sp_start = 0, sp_end = 1, sp_trace_id = [], sp_span_id = [],
       sp_parent_id = [], sp_body = [(''http.route'', Str ''/a'')]\<rparr>], ss_rest = []\<rparr>],
     rs_rest = [(''service.name'', Str ''cart''), (''pod'', Val ())]\<rparr>]"

theorem ScanTracesForAttributes_passes_witness:
  "ScanTracesForAttributes plain_checker [sample_spans] ''cart''
     [(''pod'', NewExpectedValue AttributeMatchTypeExist [])]
     [[(''http.route'', NewExpectedValue AttributeMatchTypeEqual ''/a'')]] = Checked []"
  using ScanTracesForAttributes_passes [of "[(''pod'', NewExpectedValue AttributeMatchTypeExist [])]"
      "[[(''http.route'', NewExpectedValue AttributeMatchTypeEqual ''/a'')]]" plain_checker "[sample_spans]" "''cart''"]
  by (simp add: sample_spans_def unnamed_def names_service_def ServiceNameAttribute_def satisfied_def
      value_matches_def NewExpectedValue_def plain_checker_def)

end
