(* ===== verification/Spec2Isabelle.thy ===== *)
theory Spec2Isabelle
  imports Changelog_Main Mockeec Telemetry_Helpers Render_Workloads Filtering_Test Ingest_Roundtrip
    K8s_Config Metrics_Debug Test_Run Oteltest_Checks
begin

text \<open>
  A verification library for the Go code of the Dynatrace distribution of the OpenTelemetry
  Collector (\<^verbatim>\<open>src/internal\<close>). The distribution itself is generated from a manifest; the code of its
  own are a configuration provider that is linked into the Collector and the tools and test
  helpers around it. What is modelled, theory by theory:

  \<^bold>\<open>Foundations.\<close> \<open>Prelude\<close>: Go's errors as values, keeping the first element of every key.
  \<open>Go_Strings\<close>: the functions of the package strings the code calls, with their laws (replacing,
  splitting, trimming, printing and parsing numbers). \<open>Go_Os\<close>: files, environment and output as an
  explicit state; its locale \<open>file_store\<close> is the contract of whole-file reads and writes. \<open>Go_Text\<close>:
  replacers, line scanning, paths, addresses and polling. \<open>Go_Duration\<close>, \<open>Go_Url\<close> and \<open>Go_Flag\<close>: durations as text
  (with the wrap-around of their parser), the queries and fragments of URLs, and command lines, each with the lemma that
  what is written is read back. \<open>Refinement\<close>: the locale \<open>simulation\<close>, by which a step relation implements another
  one; it is interpreted for the provider of configurations and for every receiver.

  \<^bold>\<open>The changelog generator\<close> (\<^verbatim>\<open>changelog-generator\<close>), one theory per file: \<open>Changelog_Config\<close>
  (config.go), \<open>Changelog_Version\<close> (version.go), \<open>Changelog_Entry\<close> (entry.go), \<open>Changelog_Filter\<close>
  (filter.go), \<open>Changelog_Manifest\<close> (manifest.go), \<open>Changelog_Generator\<close> (generator.go),
  \<open>Changelog_File\<close> (changelog.go), \<open>Github_Client\<close> (github.go) and \<open>Changelog_Main\<close> (main.go), which
  composes them, from the command line on: the entries of the given pull requests are fetched, filtered by the components
  of the distribution, rendered and put in place of the markers of the changelog. The lemmas show
  the reference semantics of filtering, what the edit of the changelog keeps and replaces, that
  versions are rendered in order, the retry behaviour of the client on every answer, and what a
  run as a whole reads and writes. The client's requests and sleeps are a history that the
  answers may depend on; the retry loop is bounded by the constant of the code, so its
  termination needs no fuel. Durations are 64-bit words.

  \<^bold>\<open>The provider of configurations\<close> (\<^verbatim>\<open>confmap/provider/eecprovider\<close>): \<open>Eec_Config\<close> (config.go) and
  \<open>Eec_Provider\<close> (provider.go, watcher.go, yaml.go). Retrievals and watchers run concurrently, so
  they are a step relation over a state that holds the provider's two maps, the calls in progress
  and the watchers, with a trace of what is observable; the steps are the code's atomic parts. The
  properties are invariants of every reachable state: one live watcher for a URL, a
  configuration that is announced is the one that is served next, headers of the requests. \<open>Eec_Service\<close> states what
  the provider promises as a small service with subscriptions, announcements and deliveries, shows that the provider
  refines it and that a monitor of these notices accepts every run. The options of a URI are read from its text, and
  a negative interval is followed to the panic it ends in. \<open>Mockeec\<close> (\<^verbatim>\<open>mockeec\<close>) is the server for trying the
  provider by hand, and what it prints of the provider's requests.

  \<^bold>\<open>Test helpers on telemetry\<close>: \<open>Pdata\<close> (the telemetry the helpers see, and the locale
  \<open>keyed_merge\<close> of the in-place merge loops), \<open>Telemetry_Helpers\<close> (\<^verbatim>\<open>testcommon/testutil/testutil.go\<close>:
  the locale is interpreted for resources, scopes and metrics) and \<open>Validators\<close>
  (\<^verbatim>\<open>testbed/integration\<close>: the locale \<open>validator\<close> is interpreted for traces, logs and metrics, the
  locale \<open>provider\<close> for the three providers of sample data). \<open>Filtering_Test\<close> puts provider, counters and validator of a
  filtering test together (the locale \<open>filtering_test\<close>), to say what a passed test has seen.

  \<^bold>\<open>The data ingest tool\<close> (\<^verbatim>\<open>data-ingest-cli\<close>): \<open>Ingest_Receiver\<close> (\<^verbatim>\<open>receiver\<close>: the handlers as functions
  on the files, and the life of a receiver with its handlers, its channel and \<^verbatim>\<open>Stop\<close> as a step
  relation; the locale \<open>otlp_sink\<close> is interpreted for the HTTP and the gRPC receiver), \<open>Ingest_Senders\<close>
  (\<^verbatim>\<open>sender\<close>: every sender adds to a trace of events, to which the outside reacts) and
  \<open>Ingest_Commands\<close> (\<^verbatim>\<open>commands\<close>, main.go: the locale \<open>ingest_command\<close> is interpreted for the commands; flags
  are parsed from the command line). The properties say what is stored and sent on every path and that receivers are
  stopped. \<open>Ingest_Ledger\<close> refines the life of a receiver to a ledger of batches stored and answers owed, which bounds
  what a run can store, and \<open>Ingest_Roundtrip\<close> composes command and receiver: what the tool stored it can send again.

  \<^bold>\<open>The renderer of workloads\<close> (\<^verbatim>\<open>renderworkloads/main.go\<close>): \<open>Render_Workloads\<close>, a walk over a file
  tree that renders and writes manifests, started from the command line.

  \<^bold>\<open>The test bed\<close>: \<open>K8s_Config\<close> (\<^verbatim>\<open>testcommon/k8stest\<close>: configurations merged from YAML trees, manifests,
  waiting for pods), \<open>Collector_Config\<close> (\<^verbatim>\<open>testcommon/testutil\<close>: edits of configurations, free ports, the
  configuration of a load test), \<open>Test_Run\<close> (\<^verbatim>\<open>testcommon/oteltest\<close> and \<^verbatim>\<open>testutil/collector.go\<close>: what a test
  starts and gives back when it ends; the locales \<open>test_op\<close> and \<open>starting_op\<close> are interpreted for receivers,
  Collector processes and connections), \<open>Oteltest_Checks\<close> (the assertions over received telemetry), \<open>Go_Regex\<close> (its
  two patterns, with a matcher by derivatives that decides their languages),
  \<open>Metrics_Debug\<close> (the output of Debug) and \<open>Load_Scenarios\<close> (\<^verbatim>\<open>testbed\<close>: senders and scenarios). The lemmas
  show what a merge or an edit changes and keeps, that everything started is given back in reverse order
  on every path, what the assertions accept, and how the counters of a scenario agree. The search for a
  free port is a partial function, since it has no bound, and returns when the system gives a port outside
  the reserved ranges; waiting checks its condition a given number of times.

  Parameters of the model, since their code is not in the repository: decoders and encoders of
  YAML and JSON, HTTP, the part of a URL before its fragment, the floating point product behind a fraction of a duration,
  the clock, regular expression and semver packages (with the laws used as named hypotheses), the comparison of
  telemetry of the pdatatest packages, the template engine.

  Not modelled: the test bed itself, the load generators and the Collector process, which belong to the Collector;
  the file server behind \<^verbatim>\<open>mockeec\<close>; what is logged on standard error; \<^verbatim>\<open>tools/tools.go\<close>, which only
  imports build tools.
\<close>

end
